(* ===== verification/Sgx_Prelude.thy ===== *)
theory Sgx_Prelude
  imports Main "HOL-Library.Word"
begin

text \<open>
  Shared vocabulary of the development: the machine integers of the sources, byte
  strings and their little-endian and big-endian encodings, the page macros of
  \<^verbatim>\<open>common/inc/internal/util.h\<close>, the status codes of \<^verbatim>\<open>common/inc/sgx_error.h\<close>,
  and the combinator for the C idiom
  \<^verbatim>\<open>if (SGX_SUCCESS != (ret = f())) return ret;\<close>.
\<close>

unbundle bit_operations_syntax

section \<open>Machine integers and byte strings\<close>

type_synonym u8 = "8 word"
type_synonym u16 = "16 word"
type_synonym u32 = "32 word"
type_synonym u64 = "64 word"
type_synonym bytes = "8 word list"

named_theorems page_simps \<open>facts about the page macros\<close>
named_theorems status_simps \<open>facts about status-returning steps\<close>
named_theorems byte_simps \<open>facts about byte encodings\<close>

lemma unat_less_exp: "unat (w :: 'a::len word) < 2 ^ LENGTH('a)"
  by (rule unsigned_less)

text \<open>The byte image of an integer in memory on the little-endian target, \<open>n\<close> bytes long.\<close>

definition le_bytes :: "nat \<Rightarrow> 'a::len word \<Rightarrow> bytes" where
  "le_bytes n w = map (\<lambda>i. ucast (drop_bit (8 * i) w)) [0..<n]"

text \<open>Reading an integer back from its little-endian image.\<close>

primrec of_le :: "bytes \<Rightarrow> 'a::len word" where
  "of_le [] = 0"
| "of_le (b # bs) = ucast b OR push_bit 8 (of_le bs)"

text \<open>The big-endian image, which \<^verbatim>\<open>bswapl\<close> followed by a 32-bit store produces.\<close>

definition be_bytes :: "nat \<Rightarrow> 'a::len word \<Rightarrow> bytes" where
  "be_bytes n w = rev (le_bytes n w)"

definition of_be :: "bytes \<Rightarrow> 'a::len word" where
  "of_be bs = of_le (rev bs)"

lemma length_le_bytes [simp]: "length (le_bytes n w) = n"
  by (simp add: le_bytes_def)

lemma length_be_bytes [simp]: "length (be_bytes n w) = n"
  by (simp add: be_bytes_def)

lemma le_bytes_Suc: "le_bytes (Suc n) w = ucast w # le_bytes n (drop_bit 8 w)"
  by (simp add: le_bytes_def upt_conv_Cons map_Suc_upt [symmetric] add.commute
      del: upt_Suc)

lemma bit_of_le:
  "bit (of_le bs :: 'a::len word) n \<longleftrightarrow>
     n < LENGTH('a) \<and> n div 8 < length bs \<and> bit (bs ! (n div 8)) (n mod 8)"
proof (induction bs arbitrary: n)
  case Nil
  then show ?case by simp
next
  case (Cons b bs)
  show ?case
  proof (cases "n < 8")
    case True
    then show ?thesis
      by (auto simp: bit_or_iff bit_push_bit_iff bit_ucast_iff)
  next
    case False
    then obtain k where k: "n = k + 8"
      by (metis add.commute le_add_diff_inverse not_less)
    have nb: "\<not> bit b (k + 8)"
      using bit_imp_le_length [of b "k + 8"] by auto
    have "(k + 8) div 8 = Suc (k div 8)" "(k + 8) mod 8 = k mod 8"
      by simp_all
    then show ?thesis
      using Cons.IH [of k] nb
      by (auto simp: k bit_or_iff bit_push_bit_iff bit_ucast_iff)
  qed
qed

lemma of_le_le_bytes:
  "LENGTH('a) \<le> 8 * n \<Longrightarrow> of_le (le_bytes n w) = (w :: 'a::len word)"
  by (rule bit_word_eqI) (auto simp: bit_of_le le_bytes_def bit_ucast_iff bit_drop_bit_eq)

lemma of_le_zeros [simp]: "of_le (replicate n 0) = 0"
  by (rule bit_word_eqI) (auto simp: bit_of_le)

lemma le_bytes_of_le:
  assumes "length bs = n" and "8 * n \<le> LENGTH('a)"
  shows "le_bytes n (of_le bs :: 'a::len word) = bs"
proof (rule nth_equalityI)
  show "length (le_bytes n (of_le bs :: 'a word)) = length bs"
    using assms by simp
next
  fix i assume "i < length (le_bytes n (of_le bs :: 'a word))"
  then have i: "i < n" by simp
  show "le_bytes n (of_le bs :: 'a word) ! i = bs ! i"
  proof (rule bit_word_eqI)
    fix k assume "k < LENGTH(8)"
    then have k: "k < 8" by simp
    have "8 * i + k < LENGTH('a)" using i k assms by simp
    then show "bit (le_bytes n (of_le bs :: 'a word) ! i) k \<longleftrightarrow> bit (bs ! i) k"
      using i k assms by (simp add: le_bytes_def bit_ucast_iff bit_drop_bit_eq bit_of_le)
  qed
qed

lemma of_be_be_bytes:
  "LENGTH('a) \<le> 8 * n \<Longrightarrow> of_be (be_bytes n w) = (w :: 'a::len word)"
  by (simp add: of_be_def be_bytes_def of_le_le_bytes)

lemma be_bytes_of_be:
  "length bs = n \<Longrightarrow> 8 * n \<le> LENGTH('a) \<Longrightarrow> be_bytes n (of_be bs :: 'a::len word) = bs"
  by (simp add: of_be_def be_bytes_def le_bytes_of_le)

lemmas byte_roundtrip [byte_simps] =
  of_le_le_bytes le_bytes_of_le of_be_be_bytes be_bytes_of_be


text \<open>\<open>put_at p off bs\<close> is the buffer \<open>p\<close> after \<^verbatim>\<open>memcpy(p + off, bs, ..)\<close>.\<close>

definition put_at :: "bytes \<Rightarrow> nat \<Rightarrow> bytes \<Rightarrow> bytes" where
  "put_at p off bs = take off p @ bs @ drop (off + length bs) p"

lemma length_put_at [simp]: "off + length bs \<le> length p \<Longrightarrow> length (put_at p off bs) = length p"
  by (simp add: put_at_def)

section \<open>Status codes\<close>

text \<open>
  \<^verbatim>\<open>sgx_status_t\<close> of \<^verbatim>\<open>common/inc/sgx_error.h\<close>: the enumerators that the modelled
  routines return, in the source's order. A routine that returns a status and works on a
  state is a function to a pair; a failing routine still returns the state it leaves behind.
\<close>

datatype (plugins only: code) sgx_status_t =
    SGX_SUCCESS
  | SGX_ERROR_UNEXPECTED
  | SGX_ERROR_INVALID_PARAMETER
  | SGX_ERROR_OUT_OF_MEMORY
  | SGX_ERROR_ENCLAVE_LOST
  | SGX_ERROR_INVALID_STATE
  | SGX_ERROR_FEATURE_NOT_SUPPORTED
  | SGX_ERROR_INVALID_FUNCTION
  | SGX_ERROR_OUT_OF_TCS
  | SGX_ERROR_ENCLAVE_CRASHED
  | SGX_ERROR_ECALL_NOT_ALLOWED
  | SGX_ERROR_OCALL_NOT_ALLOWED
  | SGX_ERROR_STACK_OVERRUN
  | SGX_ERROR_INVALID_ENCLAVE
  | SGX_ERROR_INVALID_ENCLAVE_ID
  | SGX_ERROR_OUT_OF_EPC
  | SGX_ERROR_MEMORY_MAP_CONFLICT
  | SGX_ERROR_INVALID_METADATA
  | SGX_ERROR_INVALID_VERSION
  | SGX_ERROR_MAC_MISMATCH
  | SGX_ERROR_INVALID_ATTRIBUTE
  | SGX_ERROR_INVALID_CPUSVN
  | SGX_ERROR_INVALID_ISVSVN
  | SGX_ERROR_INVALID_KEYNAME
  | SGX_ERROR_BUSY
  | SGX_ERROR_KDF_MISMATCH
  | SGX_ERROR_PCL_ENCRYPTED
  | SGX_ERROR_PCL_NOT_ENCRYPTED
  | SGX_ERROR_PCL_MAC_MISMATCH
  | SGX_ERROR_PCL_SHA_MISMATCH
  | SGX_ERROR_PCL_GUID_MISMATCH

text \<open>
  The results of the IPP primitives that the wrappers of \<^verbatim>\<open>sdk/tlibcrypto/ipp\<close> tell apart, and the
  status that most of them return for it.
\<close>

datatype IppStatus = ippStsNoErr | ippStsNullPtrErr | ippStsLengthErr | ippStsMemAllocErr | ippStsOtherErr

fun ipp_status :: "IppStatus \<Rightarrow> sgx_status_t" where
  "ipp_status ippStsNoErr = SGX_SUCCESS"
| "ipp_status ippStsNullPtrErr = SGX_ERROR_INVALID_PARAMETER"
| "ipp_status ippStsLengthErr = SGX_ERROR_INVALID_PARAMETER"
| "ipp_status _ = SGX_ERROR_UNEXPECTED"

text \<open>\<open>and_then r k\<close>: stop with the status of \<open>r\<close> unless it is \<^verbatim>\<open>SGX_SUCCESS\<close>.\<close>

definition and_then ::
  "sgx_status_t \<times> 's \<Rightarrow> ('s \<Rightarrow> sgx_status_t \<times> 's) \<Rightarrow> sgx_status_t \<times> 's" where
  "and_then r k = (case r of (ret, s) \<Rightarrow> if ret \<noteq> SGX_SUCCESS then (ret, s) else k s)"

text \<open>A \<^verbatim>\<open>for\<close> loop that runs a fallible body over a list and stops at the first failure.\<close>

primrec for_each :: "('a \<Rightarrow> 's \<Rightarrow> sgx_status_t \<times> 's) \<Rightarrow> 'a list \<Rightarrow> 's \<Rightarrow> sgx_status_t \<times> 's" where
  "for_each f [] s = (SGX_SUCCESS, s)"
| "for_each f (x # xs) s = and_then (f x s) (for_each f xs)"

lemma and_then_Success [simp]: "and_then (SGX_SUCCESS, s) k = k s"
  by (simp add: and_then_def)

lemma and_then_fail [simp]: "e \<noteq> SGX_SUCCESS \<Longrightarrow> and_then (e, s) k = (e, s)"
  by (simp add: and_then_def)

lemma and_then_right [simp]: "and_then r (Pair SGX_SUCCESS) = r"
  by (simp add: and_then_def split: prod.split)

lemma and_then_for_each_Nil [simp]: "and_then r (for_each f []) = r"
  by (simp add: and_then_def split: prod.split)

lemma and_then_assoc [status_simps]:
  "and_then (and_then r f) g = and_then r (\<lambda>s. and_then (f s) g)"
  by (simp add: and_then_def split: prod.split)

lemma and_then_eq_Success [status_simps]:
  "and_then r k = (SGX_SUCCESS, t) \<longleftrightarrow> (\<exists>s. r = (SGX_SUCCESS, s) \<and> k s = (SGX_SUCCESS, t))"
  by (auto simp: and_then_def split: prod.split)

lemma for_each_append [status_simps]:
  "for_each f (xs @ ys) s = and_then (for_each f xs s) (for_each f ys)"
  by (induction xs arbitrary: s) (simp_all add: and_then_def split: prod.split)

lemma for_each_append_fun:
  "for_each f (xs @ ys) = (\<lambda>s. and_then (for_each f xs s) (for_each f ys))"
  by (rule ext) (rule for_each_append)

lemma for_each_concat [status_simps]:
  "for_each f (concat xss) s = for_each (\<lambda>xs. for_each f xs) xss s"
  by (induction xss arbitrary: s) (simp_all add: for_each_append and_then_def split: prod.split)

lemma for_each_map [status_simps]: "for_each f (map g xs) s = for_each (\<lambda>x. f (g x)) xs s"
proof (induction xs arbitrary: s)
  case (Cons x xs)
  then have "for_each f (map g xs) = for_each (\<lambda>x. f (g x)) xs" by blast
  then show ?case by simp
qed simp

lemma for_each_cong:
  assumes "xs = ys" and "\<And>x t. x \<in> set ys \<Longrightarrow> f x t = g x t"
  shows "for_each f xs s = for_each g ys s"
  unfolding assms(1) using assms(2)
proof (induction ys arbitrary: s)
  case (Cons y ys)
  then have "for_each f ys = for_each g ys" by auto
  with Cons.prems show ?case by simp
qed simp

lemma for_each_status:
  assumes "\<And>x s. x \<in> set xs \<Longrightarrow> fst (f x s) \<in> S" and "SGX_SUCCESS \<in> S"
  shows "fst (for_each f xs s) \<in> S"
  using assms
proof (induction xs arbitrary: s)
  case (Cons x xs)
  obtain r t where r: "f x s = (r, t)" by (cases "f x s")
  have "fst (f x s) \<in> S" by (rule Cons.prems) simp
  then show ?case using Cons by (auto simp: r and_then_def)
qed simp

lemma and_then_status: "fst r \<in> S \<Longrightarrow> (\<And>s. fst (k s) \<in> S) \<Longrightarrow> fst (and_then r k) \<in> S"
  by (auto simp: and_then_def split: prod.split)

text \<open>An invariant that every iteration keeps holds after the loop, successful or not.\<close>

lemma for_each_invariant:
  assumes "\<And>x s. x \<in> set xs \<Longrightarrow> P s \<Longrightarrow> P (snd (f x s))" and "P s"
  shows "P (snd (for_each f xs s))"
  using assms
proof (induction xs arbitrary: s)
  case (Cons x xs)
  obtain r t where r: "f x s = (r, t)" by (cases "f x s")
  have "P t" using Cons.prems r by (metis list.set_intros(1) snd_conv)
  then show ?case
    using Cons by (simp add: r and_then_def)
qed simp

section \<open>Pages\<close>

text \<open>The page macros of \<^verbatim>\<open>util.h\<close> on 64-bit values.\<close>

definition SE_PAGE_SHIFT :: nat where
  "SE_PAGE_SHIFT = 12"

definition SE_PAGE_SIZE :: u64 where
  "SE_PAGE_SIZE = 0x1000"

definition ROUND_TO :: "u64 \<Rightarrow> u64 \<Rightarrow> u64" where
  "ROUND_TO x align = (x + (align - 1)) AND NOT (align - 1)"

definition ROUND_TO_PAGE :: "u64 \<Rightarrow> u64" where
  "ROUND_TO_PAGE x = ROUND_TO x SE_PAGE_SIZE"

definition TRIM_TO_PAGE :: "u64 \<Rightarrow> u64" where
  "TRIM_TO_PAGE x = x AND NOT (SE_PAGE_SIZE - 1)"

definition PAGE_OFFSET :: "u64 \<Rightarrow> u64" where
  "PAGE_OFFSET x = x AND (SE_PAGE_SIZE - 1)"

definition IS_PAGE_ALIGNED :: "u64 \<Rightarrow> bool" where
  "IS_PAGE_ALIGNED x \<longleftrightarrow> x AND (SE_PAGE_SIZE - 1) = 0"

lemma page_mask_eq: "SE_PAGE_SIZE - 1 = mask 12"
  by (simp add: SE_PAGE_SIZE_def mask_eq_exp_minus_1)

lemma unat_PAGE_OFFSET [page_simps]: "unat (PAGE_OFFSET x) = unat x mod 4096"
  by (simp add: PAGE_OFFSET_def page_mask_eq flip: take_bit_eq_mask)
    (simp add: take_bit_eq_mod unat_mod)

lemma PAGE_OFFSET_less [page_simps]: "unat (PAGE_OFFSET x) < 4096"
  by (simp add: unat_PAGE_OFFSET)

lemma IS_PAGE_ALIGNED_unat [page_simps]: "IS_PAGE_ALIGNED x \<longleftrightarrow> unat x mod 4096 = 0"
proof -
  have "IS_PAGE_ALIGNED x \<longleftrightarrow> PAGE_OFFSET x = 0"
    by (simp add: IS_PAGE_ALIGNED_def PAGE_OFFSET_def)
  also have "\<dots> \<longleftrightarrow> unat (PAGE_OFFSET x) = 0"
    by (simp add: unat_eq_0)
  finally show ?thesis by (simp add: unat_PAGE_OFFSET)
qed

text \<open>Testing a bit with a shifted 1.\<close>

lemma and_push_bit_1_iff: "w AND push_bit n 1 \<noteq> 0 \<longleftrightarrow> bit (w :: 'a::len word) n"
  unfolding bit_eq_iff by (auto simp: bit_simps dest: bit_imp_le_length)

text \<open>Masking the low bits off rounds down to a multiple of the power of two.\<close>

lemma unat_and_not_mask: "unat (x AND NOT (mask n) :: 'a::len word) = unat x - unat x mod 2 ^ n"
proof -
  have "(x AND mask n) + (x AND NOT (mask n)) = (x AND mask n) OR (x AND NOT (mask n))"
    by (rule disjunctive_add_eq_or) (rule bit_eqI, auto simp: bit_simps)
  also have "\<dots> = x"
    by (rule bit_eqI) (auto simp: bit_simps)
  finally have split: "x AND NOT (mask n) = x - (x AND mask n)" by (simp add: eq_diff_eq add.commute)
  have m: "unat (x AND mask n) = unat x mod 2 ^ n"
    unfolding take_bit_eq_mask [symmetric] unsigned_take_bit_eq by (rule take_bit_eq_mod)
  then have "x AND mask n \<le> x" by (simp add: word_le_nat_alt)
  then show ?thesis by (simp add: split unat_sub m)
qed

lemma unat_TRIM_TO_PAGE [page_simps]: "unat (TRIM_TO_PAGE x) = unat x - unat x mod 4096"
  using unat_and_not_mask [of x 12] by (simp add: TRIM_TO_PAGE_def page_mask_eq)

lemma TRIM_TO_PAGE_aligned [page_simps]: "IS_PAGE_ALIGNED (TRIM_TO_PAGE x)"
  by (simp add: IS_PAGE_ALIGNED_unat unat_TRIM_TO_PAGE minus_mod_eq_mult_div)

lemma unat_PAGE_OFFSET_less: "unat (PAGE_OFFSET x) < 4096"
  by (simp add: unat_PAGE_OFFSET)

end
