(* ===== verification/Sgx_Metadata.thy ===== *)
theory Sgx_Metadata
  imports Sgx_Prelude
begin

text \<open>
  The structures that the signing tool writes and the loader reads:
  \<^verbatim>\<open>common/inc/internal/metadata.h\<close> (the metadata and its layout and patch tables),
  \<^verbatim>\<open>common/inc/internal/arch.h\<close> (SECS, TCS, SECINFO, SIGSTRUCT), the page attributes of
  \<^verbatim>\<open>se_page_attr.h\<close> and \<^verbatim>\<open>sgx_attributes.h\<close>. Memory that the code addresses through a
  base pointer and an offset (the mapped enclave file, the metadata buffer) is a function
  from offsets to bytes; the tables are decoded from it, as the casts of the source do.
\<close>

unbundle bit_operations_syntax

section \<open>Memory\<close>

type_synonym memory = "nat \<Rightarrow> u8"

definition rd :: "memory \<Rightarrow> nat \<Rightarrow> nat \<Rightarrow> bytes" where
  "rd mem off n = map (\<lambda>i. mem (off + i)) [0..<n]"

definition rd_word :: "memory \<Rightarrow> nat \<Rightarrow> nat \<Rightarrow> 'a::len word" where
  "rd_word mem off n = of_le (rd mem off n)"

definition wr :: "memory \<Rightarrow> nat \<Rightarrow> bytes \<Rightarrow> memory" where
  "wr mem off bs = (\<lambda>a. if off \<le> a \<and> a < off + length bs then bs ! (a - off) else mem a)"

lemma length_rd [simp]: "length (rd mem off n) = n"
  by (simp add: rd_def)

lemma nth_rd [simp]: "i < n \<Longrightarrow> rd mem off n ! i = mem (off + i)"
  by (simp add: rd_def)

lemma rd_0 [simp]: "rd mem off 0 = []"
  by (simp add: rd_def)

lemma rd_add: "rd mem off (n + k) = rd mem off n @ rd mem (off + n) k"
  by (rule nth_equalityI) (auto simp: nth_append)

lemma take_rd: "take k (rd mem off n) = rd mem off (min k n)"
  by (rule nth_equalityI) auto

lemma drop_rd: "drop k (rd mem off n) = rd mem (off + k) (n - k)"
  by (rule nth_equalityI) (auto simp: add.assoc)

lemma rd_cong: "(\<And>i. i < n \<Longrightarrow> f (off + i) = g (off' + i)) \<Longrightarrow> rd f off n = rd g off' n"
  by (rule nth_equalityI) auto

lemma rd_wr_same [simp]: "length bs = n \<Longrightarrow> rd (wr mem off bs) off n = bs"
  by (rule nth_equalityI) (auto simp: wr_def)

lemma wr_outside: "a < off \<or> off + length bs \<le> a \<Longrightarrow> wr mem off bs a = mem a"
  by (auto simp: wr_def)

section \<open>Attributes, SECS and SECINFO\<close>

record sgx_attributes_t =
  attr_flags :: u64
  attr_xfrm :: u64

record sgx_misc_attribute_t =
  secs_attr :: sgx_attributes_t
  misc_select :: u32

definition SGX_FLAGS_INITTED :: u64 where "SGX_FLAGS_INITTED = 0x1"
definition SGX_FLAGS_DEBUG :: u64 where "SGX_FLAGS_DEBUG = 0x2"
definition SGX_FLAGS_MODE64BIT :: u64 where "SGX_FLAGS_MODE64BIT = 0x4"
definition SGX_FLAGS_PROVISION_KEY :: u64 where "SGX_FLAGS_PROVISION_KEY = 0x10"
definition SGX_FLAGS_EINITTOKEN_KEY :: u64 where "SGX_FLAGS_EINITTOKEN_KEY = 0x20"
definition SGX_FLAGS_KSS :: u64 where "SGX_FLAGS_KSS = 0x80"

definition SGX_XFRM_LEGACY :: u64 where "SGX_XFRM_LEGACY = 0x3"
definition SGX_XFRM_AVX :: u64 where "SGX_XFRM_AVX = 0x6"
definition SGX_XFRM_AVX512 :: u64 where "SGX_XFRM_AVX512 = 0xE6"
definition SGX_XFRM_MPX :: u64 where "SGX_XFRM_MPX = 0x18"

definition SGX_XFRM_RESERVED :: u64 where
  "SGX_XFRM_RESERVED = NOT (SGX_XFRM_LEGACY OR SGX_XFRM_AVX OR SGX_XFRM_AVX512)"

record secs_t =
  secs_size :: u64
  secs_base :: u64
  secs_ssa_frame_size :: u32
  secs_misc_select :: u32
  secs_attributes :: sgx_attributes_t
  secs_mr_enclave :: bytes
  secs_mr_signer :: bytes
  secs_config_id :: bytes
  secs_isv_prod_id :: u16
  secs_isv_svn :: u16
  secs_config_svn :: u16

record sec_info_t =
  si_flags :: u64
  si_reserved :: "u64 list"

definition SI_FLAG_NONE :: u64 where "SI_FLAG_NONE = 0x0"
definition SI_FLAG_R :: u64 where "SI_FLAG_R = 0x1"
definition SI_FLAG_W :: u64 where "SI_FLAG_W = 0x2"
definition SI_FLAG_X :: u64 where "SI_FLAG_X = 0x4"
definition SI_FLAG_PT_MASK :: u64 where "SI_FLAG_PT_MASK = 0xFF00"
definition SI_FLAG_TCS :: u64 where "SI_FLAG_TCS = 0x100"
definition SI_FLAG_REG :: u64 where "SI_FLAG_REG = 0x200"

definition SI_FLAGS_EXTERNAL :: u64 where
  "SI_FLAGS_EXTERNAL = SI_FLAG_PT_MASK OR SI_FLAG_R OR SI_FLAG_W OR SI_FLAG_X"

definition SI_FLAGS_RW :: u64 where "SI_FLAGS_RW = SI_FLAG_R OR SI_FLAG_W OR SI_FLAG_REG"
definition SI_FLAGS_TCS :: u64 where "SI_FLAGS_TCS = SI_FLAG_TCS"
definition SI_MASK_MEM_ATTRIBUTE :: u64 where "SI_MASK_MEM_ATTRIBUTE = 0x7"

text \<open>A SECINFO after \<^verbatim>\<open>memset(&sinfo, 0, sizeof(sinfo))\<close> and \<^verbatim>\<open>sinfo.flags = f\<close>.\<close>

definition sec_info :: "u64 \<Rightarrow> sec_info_t" where
  "sec_info f = \<lparr>si_flags = f, si_reserved = replicate 7 0\<rparr>"

section \<open>Page attributes\<close>

definition PAGE_ATTR_EADD :: u32 where "PAGE_ATTR_EADD = 1"
definition PAGE_ATTR_EEXTEND :: u32 where "PAGE_ATTR_EEXTEND = 2"
definition PAGE_ATTR_EREMOVE :: u32 where "PAGE_ATTR_EREMOVE = 4"
definition PAGE_ATTR_POST_ADD :: u32 where "PAGE_ATTR_POST_ADD = 8"
definition PAGE_ATTR_POST_REMOVE :: u32 where "PAGE_ATTR_POST_REMOVE = 16"

definition PAGE_ATTR_DYN_THREAD :: u32 where "PAGE_ATTR_DYN_THREAD = 32"
definition PAGE_DIR_GROW_DOWN :: u32 where "PAGE_DIR_GROW_DOWN = 64"

definition ADD_EXTEND_PAGE :: u32 where
  "ADD_EXTEND_PAGE = PAGE_ATTR_EADD OR PAGE_ATTR_EEXTEND"

section \<open>The signature structure\<close>

text \<open>The fields of \<^verbatim>\<open>enclave_css_t\<close> that the modelled code reads or writes.\<close>

record enclave_css_t =
  css_header :: bytes
  css_type :: u32
  css_module_vendor :: u32
  css_date :: u32
  css_header2 :: bytes
  css_hw_version :: u32
  css_misc_select :: u32
  css_misc_mask :: u32
  css_isv_family_id :: bytes
  css_attributes :: sgx_attributes_t
  css_attribute_mask :: sgx_attributes_t
  css_enclave_hash :: bytes
  css_isvext_prod_id :: bytes
  css_isv_prod_id :: u16
  css_isv_svn :: u16

definition zero_css :: enclave_css_t where
  "zero_css = \<lparr>css_header = replicate 12 0, css_type = 0, css_module_vendor = 0, css_date = 0,
     css_header2 = replicate 16 0, css_hw_version = 0, css_misc_select = 0, css_misc_mask = 0,
     css_isv_family_id = replicate 16 0, css_attributes = \<lparr>attr_flags = 0, attr_xfrm = 0\<rparr>,
     css_attribute_mask = \<lparr>attr_flags = 0, attr_xfrm = 0\<rparr>, css_enclave_hash = replicate 32 0,
     css_isvext_prod_id = replicate 16 0, css_isv_prod_id = 0, css_isv_svn = 0\<rparr>"

section \<open>Layout and patch tables\<close>

record layout_entry_t =
  le_id :: u16
  le_attributes :: u16
  le_page_count :: u32
  le_rva :: u64
  le_content_size :: u32
  le_content_offset :: u32
  le_si_flags :: u64

record layout_group_t =
  lg_id :: u16
  lg_entry_count :: u16
  lg_load_times :: u32
  lg_load_step :: u64

text \<open>The union \<^verbatim>\<open>layout_t\<close>: the code tells its members apart by the group bit of the id.\<close>

datatype layout_t = LEntry layout_entry_t | LGroup layout_group_t

record patch_entry_t =
  pe_dst :: u64
  pe_src :: u32
  pe_size :: u32

record data_directory_t =
  dd_offset :: u32
  dd_size :: u32

record metadata_t =
  md_magic_num :: u64
  md_version :: u64
  md_size :: u32
  md_tcs_policy :: u32
  md_ssa_frame_size :: u32
  md_max_save_buffer_size :: u32
  md_desired_misc_select :: u32
  md_tcs_min_pool :: u32
  md_enclave_size :: u64
  md_attributes :: sgx_attributes_t
  md_enclave_css :: enclave_css_t
  md_dir_patch :: data_directory_t
  md_dir_layout :: data_directory_t
  md_mem :: memory

definition GROUP_FLAG :: u16 where "GROUP_FLAG = 0x1000"

definition IS_GROUP_ID :: "u16 \<Rightarrow> bool" where
  "IS_GROUP_ID x \<longleftrightarrow> x AND GROUP_FLAG \<noteq> 0"

definition GROUP_ID :: "u16 \<Rightarrow> u16" where
  "GROUP_ID x = GROUP_FLAG OR x"

definition LAYOUT_ID_HEAP_MIN :: u16 where "LAYOUT_ID_HEAP_MIN = 1"
definition LAYOUT_ID_HEAP_INIT :: u16 where "LAYOUT_ID_HEAP_INIT = 2"
definition LAYOUT_ID_HEAP_MAX :: u16 where "LAYOUT_ID_HEAP_MAX = 3"
definition LAYOUT_ID_TCS :: u16 where "LAYOUT_ID_TCS = 4"
definition LAYOUT_ID_TD :: u16 where "LAYOUT_ID_TD = 5"
definition LAYOUT_ID_SSA :: u16 where "LAYOUT_ID_SSA = 6"
definition LAYOUT_ID_STACK_MAX :: u16 where "LAYOUT_ID_STACK_MAX = 7"
definition LAYOUT_ID_STACK_MIN :: u16 where "LAYOUT_ID_STACK_MIN = 8"
definition LAYOUT_ID_THREAD_GROUP :: u16 where "LAYOUT_ID_THREAD_GROUP = GROUP_ID 9"
definition LAYOUT_ID_GUARD :: u16 where "LAYOUT_ID_GUARD = 10"
definition LAYOUT_ID_HEAP_DYN_MIN :: u16 where "LAYOUT_ID_HEAP_DYN_MIN = 11"
definition LAYOUT_ID_TCS_DYN :: u16 where "LAYOUT_ID_TCS_DYN = 14"
definition LAYOUT_ID_THREAD_GROUP_DYN :: u16 where "LAYOUT_ID_THREAD_GROUP_DYN = GROUP_ID 19"
definition LAYOUT_ID_RSRV_MIN :: u16 where "LAYOUT_ID_RSRV_MIN = 20"
definition LAYOUT_ID_RSRV_INIT :: u16 where "LAYOUT_ID_RSRV_INIT = 21"
definition LAYOUT_ID_RSRV_MAX :: u16 where "LAYOUT_ID_RSRV_MAX = 22"

definition META_DATA_MAKE_VERSION :: "u64 \<Rightarrow> u64 \<Rightarrow> u64" where
  "META_DATA_MAKE_VERSION major minor = push_bit 32 major OR minor"

definition MAJOR_VERSION_OF_METADATA :: "u64 \<Rightarrow> u64" where
  "MAJOR_VERSION_OF_METADATA v = drop_bit 32 v"

definition MAJOR_VERSION :: u64 where "MAJOR_VERSION = 2"
definition MINOR_VERSION :: u64 where "MINOR_VERSION = 4"
definition SGX_1_5_MAJOR_VERSION :: u64 where "SGX_1_5_MAJOR_VERSION = 1"
definition SGX_1_5_MINOR_VERSION :: u64 where "SGX_1_5_MINOR_VERSION = 3"
definition METADATA_MAGIC :: u64 where "METADATA_MAGIC = 0x86A80294635D0E4C"
definition TCS_TEMPLATE_SIZE :: u32 where "TCS_TEMPLATE_SIZE = 72"
definition MAX_SAVE_BUF_SIZE :: u32 where "MAX_SAVE_BUF_SIZE = 2632"
definition TCS_POLICY_UNBIND :: u32 where "TCS_POLICY_UNBIND = 1"
definition SSA_FRAME_SIZE_MIN :: u32 where "SSA_FRAME_SIZE_MIN = 1"
definition SSA_FRAME_SIZE_MAX :: u32 where "SSA_FRAME_SIZE_MAX = 2"

text \<open>\<^verbatim>\<open>offsetof(metadata_t, data)\<close>: 20480 bytes in all, of which 18592 are data.\<close>

definition METADATA_SIZE :: nat where "METADATA_SIZE = 0x5000"
definition METADATA_DATA_OFFSET :: u32 where "METADATA_DATA_OFFSET = 1888"

definition decode_layout_entry :: "memory \<Rightarrow> nat \<Rightarrow> layout_entry_t" where
  "decode_layout_entry mem off = \<lparr>
     le_id = rd_word mem off 2,
     le_attributes = rd_word mem (off + 2) 2,
     le_page_count = rd_word mem (off + 4) 4,
     le_rva = rd_word mem (off + 8) 8,
     le_content_size = rd_word mem (off + 16) 4,
     le_content_offset = rd_word mem (off + 20) 4,
     le_si_flags = rd_word mem (off + 24) 8\<rparr>"

definition decode_layout_group :: "memory \<Rightarrow> nat \<Rightarrow> layout_group_t" where
  "decode_layout_group mem off = \<lparr>
     lg_id = rd_word mem off 2,
     lg_entry_count = rd_word mem (off + 2) 2,
     lg_load_times = rd_word mem (off + 4) 4,
     lg_load_step = rd_word mem (off + 8) 8\<rparr>"

definition decode_layout :: "memory \<Rightarrow> nat \<Rightarrow> layout_t" where
  "decode_layout mem off =
     (if IS_GROUP_ID (rd_word mem off 2) then LGroup (decode_layout_group mem off)
      else LEntry (decode_layout_entry mem off))"

definition decode_patch :: "memory \<Rightarrow> nat \<Rightarrow> patch_entry_t" where
  "decode_patch mem off = \<lparr>
     pe_dst = rd_word mem off 8, pe_src = rd_word mem (off + 8) 4, pe_size = rd_word mem (off + 12) 4\<rparr>"

text \<open>
  The bytes of a record of either table, as \<^verbatim>\<open>memcpy_s\<close> copies the structures; the reserved
  words are zero. Both decoders read the records back.
\<close>

fun encode_layout :: "layout_t \<Rightarrow> bytes" where
  "encode_layout (LEntry e) =
     le_bytes 2 (le_id e) @ le_bytes 2 (le_attributes e) @ le_bytes 4 (le_page_count e) @ le_bytes 8 (le_rva e)
     @ le_bytes 4 (le_content_size e) @ le_bytes 4 (le_content_offset e) @ le_bytes 8 (le_si_flags e)"
| "encode_layout (LGroup g) =
     le_bytes 2 (lg_id g) @ le_bytes 2 (lg_entry_count g) @ le_bytes 4 (lg_load_times g) @ le_bytes 8 (lg_load_step g)
     @ replicate 16 0"

definition encode_patch :: "patch_entry_t \<Rightarrow> bytes" where
  "encode_patch p = le_bytes 8 (pe_dst p) @ le_bytes 4 (pe_src p) @ le_bytes 4 (pe_size p) @ replicate 16 0"

text \<open>The union is read by its id: a group has the group bit, an entry has not.\<close>

fun well_tagged :: "layout_t \<Rightarrow> bool" where
  "well_tagged (LEntry e) \<longleftrightarrow> \<not> IS_GROUP_ID (le_id e)"
| "well_tagged (LGroup g) \<longleftrightarrow> IS_GROUP_ID (lg_id g)"

text \<open>
  A table of 32-byte records from a directory: the loop
  \<^verbatim>\<open>for (p = start; p < end; p++)\<close> visits one record per started 32 bytes.
\<close>

definition table_of :: "(memory \<Rightarrow> nat \<Rightarrow> 'a) \<Rightarrow> memory \<Rightarrow> data_directory_t \<Rightarrow> 'a list" where
  "table_of dec mem d =
     map (\<lambda>i. dec mem (unat (dd_offset d) + 32 * i)) [0..<(unat (dd_size d) + 31) div 32]"

definition layout_table :: "metadata_t \<Rightarrow> layout_t list" where
  "layout_table m = table_of decode_layout (md_mem m) (md_dir_layout m)"

definition patch_table :: "metadata_t \<Rightarrow> patch_entry_t list" where
  "patch_table m = table_of decode_patch (md_mem m) (md_dir_patch m)"

lemma length_encode_layout [simp]: "length (encode_layout l) = 32"
  by (cases l) simp_all

lemma length_encode_patch [simp]: "length (encode_patch p) = 32"
  by (simp add: encode_patch_def)

lemma rd_word_in:
  "k + n \<le> 32 \<Longrightarrow> rd_word mem (off + k) n = of_le (take n (drop k (rd mem off 32)))"
  by (simp add: rd_word_def drop_rd take_rd)

lemmas rd_word_at_0 = rd_word_in [of 0, simplified]

lemma decode_encode_layout:
  assumes "rd mem off 32 = encode_layout l" "well_tagged l"
  shows "decode_layout mem off = l"
  using assms by (cases l)
    (simp_all add: decode_layout_def decode_layout_entry_def decode_layout_group_def rd_word_in [of _ _ mem off]
      rd_word_at_0 [of _ mem off] of_le_le_bytes del: add_2_eq_Suc')

lemma decode_encode_patch: "rd mem off 32 = encode_patch p \<Longrightarrow> decode_patch mem off = p"
  by (simp add: decode_patch_def encode_patch_def rd_word_in [of _ _ mem off] rd_word_at_0 [of _ mem off] of_le_le_bytes)

lemma rd_concat:
  assumes "rd mem off (32 * length xs) = concat (map f xs)" "\<And>x. length (f x) = 32" "i < length xs"
  shows "rd mem (off + 32 * i) 32 = f (xs ! i)"
  using assms(1, 3)
proof (induction xs arbitrary: off i)
  case (Cons x xs)
  have "rd mem off 32 @ rd mem (off + 32) (32 * length xs) = f x @ concat (map f xs)"
    using Cons.prems(1) rd_add [of mem off 32 "32 * length xs"] by simp
  then have "rd mem off 32 = f x" "rd mem (off + 32) (32 * length xs) = concat (map f xs)"
    using assms(2) [of x] by simp_all
  then show ?case using Cons.IH [of "off + 32"] Cons.prems(2) by (cases i) (simp_all add: add.assoc)
qed simp

lemma table_of_written:
  assumes "rd mem (unat (dd_offset d)) (32 * length xs) = concat (map enc xs)" "unat (dd_size d) = 32 * length xs"
    and "\<And>x. length (enc x) = 32" "\<And>x off. x \<in> set xs \<Longrightarrow> rd mem off 32 = enc x \<Longrightarrow> dec mem off = x"
  shows "table_of dec mem d = xs"
proof (rule nth_equalityI)
  have n: "(unat (dd_size d) + 31) div 32 = length xs" using assms(2) by simp
  then show "length (table_of dec mem d) = length xs" by (simp add: table_of_def)
  fix i assume "i < length (table_of dec mem d)"
  then have i: "i < length xs" using n by (simp add: table_of_def)
  then show "table_of dec mem d ! i = xs ! i"
    using assms(4) [OF nth_mem [OF i] rd_concat [OF assms(1, 3) i]] n by (simp add: table_of_def)
qed

section \<open>MAGE entries\<close>

text \<open>
  \<^verbatim>\<open>sgx_mage_entry_t\<close> and \<^verbatim>\<open>sgx_mage_t\<close> of \<^verbatim>\<open>common/inc/sgx_mage.h\<close>: a header with the number
  of entries, then 48 bytes for each.
\<close>

record sgx_mage_entry_t =
  me_size :: u64
  me_offset :: u64
  me_digest :: bytes

definition SGX_MAGE_SEC_SIZE :: u64 where "SGX_MAGE_SEC_SIZE = 4096"
definition sizeof_mage_entry :: u64 where "sizeof_mage_entry = 48"
definition sizeof_mage_hdr :: u64 where "sizeof_mage_hdr = 8"

definition mage_entry_bytes :: "sgx_mage_entry_t \<Rightarrow> bytes" where
  "mage_entry_bytes e = le_bytes 8 (me_size e) @ le_bytes 8 (me_offset e) @ me_digest e"

definition decode_mage_entry :: "bytes \<Rightarrow> sgx_mage_entry_t" where
  "decode_mage_entry bs = \<lparr>
     me_size = of_le (take 8 bs), me_offset = of_le (take 8 (drop 8 bs)),
     me_digest = take 32 (drop 16 bs)\<rparr>"

lemma length_mage_entry_bytes: "length (me_digest e) = 32 \<Longrightarrow> length (mage_entry_bytes e) = 48"
  by (simp add: mage_entry_bytes_def)

lemma decode_mage_entry_bytes:
  "length (me_digest e) = 32 \<Longrightarrow> decode_mage_entry (mage_entry_bytes e @ r) = e"
  by (simp add: decode_mage_entry_def mage_entry_bytes_def of_le_le_bytes)

end
