(* ===== verification/Enclave_Creator.thy ===== *)
theory Enclave_Creator
  imports Sgx_Metadata
begin

text \<open>
  The interface \<^verbatim>\<open>EnclaveCreator\<close> of \<^verbatim>\<open>common/inc/internal/enclave_creator.h\<close>, through which
  the loader builds an enclave, and the abstract view of what the loader does with it: a
  list of page requests handed to \<^verbatim>\<open>add_enclave_page\<close> in order. The relation \<open>runs\<close> says that
  a piece of the loader does exactly that; its rules compose along the loader's code.
\<close>

section \<open>The interface\<close>

text \<open>
  The virtual methods that the loader calls, over the state of the creator. A method that
  writes through pointers returns what it wrote. The launch token and the provisioning
  SIGSTRUCT that the loader only passes on are part of the creator's state, and
  \<^verbatim>\<open>mprotect\<close> is the operating system's.
\<close>

record 'c enclave_creator =
  create_enclave :: "secs_t \<Rightarrow> bool \<Rightarrow> 'c \<Rightarrow> sgx_status_t \<times> secs_t \<times> (u64 \<times> u64) option \<times> 'c"
  add_enclave_page :: "u64 \<Rightarrow> bytes option \<Rightarrow> u64 \<Rightarrow> sec_info_t \<Rightarrow> u32 \<Rightarrow> 'c \<Rightarrow> sgx_status_t \<times> 'c"
  init_enclave :: "u64 \<Rightarrow> enclave_css_t \<Rightarrow> 'c \<Rightarrow> sgx_status_t \<times> 'c"
  get_misc_attr :: "metadata_t \<Rightarrow> u32 \<Rightarrow> 'c \<Rightarrow> sgx_status_t \<times> sgx_misc_attribute_t \<times> 'c"
  destroy_enclave :: "u64 \<Rightarrow> u64 \<Rightarrow> 'c \<Rightarrow> sgx_status_t \<times> 'c"
  use_se_hw :: bool
  is_EDMM_supported :: "u64 \<Rightarrow> bool"
  emodpr :: "u64 \<Rightarrow> u64 \<Rightarrow> u64 \<Rightarrow> 'c \<Rightarrow> sgx_status_t \<times> 'c"
  trim_range :: "u64 \<Rightarrow> u64 \<Rightarrow> 'c \<Rightarrow> sgx_status_t \<times> 'c"
  trim_accept :: "u64 \<Rightarrow> 'c \<Rightarrow> sgx_status_t \<times> 'c"
  mprotect :: "u64 \<Rightarrow> u64 \<Rightarrow> u64 \<Rightarrow> 'c \<Rightarrow> int \<times> 'c"

section \<open>The state of the loader\<close>

text \<open>
  The members of \<^verbatim>\<open>CLoader\<close> that change, the mapped enclave file that the patch step
  writes to, and the creator behind \<^verbatim>\<open>get_enclave_creator()\<close>.
\<close>

record 'c loader =
  ld_enclave_id :: u64
  ld_start_addr :: u64
  ld_secs :: secs_t
  ld_tcs_list :: "(u64 \<times> bool) list"
  ld_file :: memory
  ld_creator :: 'c

section \<open>Page requests\<close>

record page_req =
  pq_source :: "bytes option"
  pq_rva :: u64
  pq_sinfo :: sec_info_t
  pq_attr :: u32

definition add_req :: "'c enclave_creator \<Rightarrow> u64 \<Rightarrow> page_req \<Rightarrow> 'c \<Rightarrow> sgx_status_t \<times> 'c" where
  "add_req C eid q = add_enclave_page C eid (pq_source q) (pq_rva q) (pq_sinfo q) (pq_attr q)"

text \<open>
  \<open>runs C qs f\<close>: the loader operation \<open>f\<close> hands the requests \<open>qs\<close> to the creator in order,
  stops where the creator does, and leaves everything but the creator and the TCS list as it was.
\<close>

definition same_frame :: "'c loader \<Rightarrow> 'c loader \<Rightarrow> bool" where
  "same_frame s t \<longleftrightarrow> ld_enclave_id s = ld_enclave_id t \<and> ld_start_addr s = ld_start_addr t
     \<and> ld_secs s = ld_secs t \<and> ld_file s = ld_file t"

definition runs :: "'c enclave_creator \<Rightarrow> page_req list \<Rightarrow> ('c loader \<Rightarrow> sgx_status_t \<times> 'c loader) \<Rightarrow> bool" where
  "runs C qs f \<longleftrightarrow>
     (\<forall>s. (fst (f s), ld_creator (snd (f s))) = for_each (add_req C (ld_start_addr s)) qs (ld_creator s)
        \<and> same_frame (snd (f s)) s)"

lemma same_frame_refl [simp, intro]: "same_frame s s"
  by (simp add: same_frame_def)

lemma same_frame_trans: "same_frame s t \<Longrightarrow> same_frame t u \<Longrightarrow> same_frame s u"
  by (simp add: same_frame_def)

lemma same_frame_start: "same_frame s t \<Longrightarrow> ld_start_addr s = ld_start_addr t"
  by (simp add: same_frame_def)

named_theorems runs_intros

lemma runs_skip [runs_intros]: "runs C [] (Pair SGX_SUCCESS)"
  by (simp add: runs_def)

lemma runs_and_then [runs_intros]:
  assumes "runs C qs f" and "runs C qs' g"
  shows "runs C (qs @ qs') (\<lambda>s. and_then (f s) g)"
  unfolding runs_def
proof (intro allI)
  fix s
  obtain st t where f: "f s = (st, t)" by (cases "f s")
  obtain st' t' where g: "g t = (st', t')" by (cases "g t")
  have 1: "for_each (add_req C (ld_start_addr s)) qs (ld_creator s) = (st, ld_creator t)" "same_frame t s"
    using assms(1) [unfolded runs_def, rule_format, of s] f by auto
  have 2: "for_each (add_req C (ld_start_addr s)) qs' (ld_creator t) = (st', ld_creator t')"
      "same_frame t' t"
    using assms(2) [unfolded runs_def, rule_format, of t] g same_frame_start [OF 1(2)] by auto
  show "(fst (and_then (f s) g), ld_creator (snd (and_then (f s) g)))
      = for_each (add_req C (ld_start_addr s)) (qs @ qs') (ld_creator s)
      \<and> same_frame (snd (and_then (f s) g)) s"
    using 1 2 same_frame_trans [OF 2(2) 1(2)]
    by (cases "st = SGX_SUCCESS") (simp_all add: f g for_each_append)
qed

lemma runs_for_each:
  assumes "\<And>x. x \<in> set xs \<Longrightarrow> runs C (q x) (f x)"
  shows "runs C (concat (map q xs)) (for_each f xs)"
  using assms
proof (induction xs)
  case Nil
  then show ?case by (simp add: runs_def)
next
  case (Cons x xs)
  then have "runs C (q x @ concat (map q xs)) (\<lambda>s. and_then (f x s) (for_each f xs))"
    by (intro runs_and_then) auto
  then show ?case by (simp add: runs_def)
qed

text \<open>One page, handed to the creator.\<close>

definition add_page ::
  "'c enclave_creator \<Rightarrow> bytes option \<Rightarrow> u64 \<Rightarrow> sec_info_t \<Rightarrow> u32 \<Rightarrow> 'c loader \<Rightarrow> sgx_status_t \<times> 'c loader" where
  "add_page C src rva sinfo attr s =
     (case add_enclave_page C (ld_start_addr s) src rva sinfo attr (ld_creator s) of
        (ret, c) \<Rightarrow> (ret, s\<lparr>ld_creator := c\<rparr>))"

lemma runs_add_page [runs_intros]:
  "runs C [\<lparr>pq_source = src, pq_rva = rva, pq_sinfo = sinfo, pq_attr = attr\<rparr>] (add_page C src rva sinfo attr)"
  by (auto simp: runs_def add_page_def add_req_def same_frame_def split: prod.split)

text \<open>A step that changes only the TCS list adds no page.\<close>

lemma runs_tcs:
  assumes "runs C qs f"
  shows "runs C qs (\<lambda>s. f (s\<lparr>ld_tcs_list := g s\<rparr>))"
  using assms by (auto simp: runs_def same_frame_def)

lemma runs_eq: "runs C qs g \<Longrightarrow> (\<And>s. f s = g s) \<Longrightarrow> runs C qs f"
  by (simp add: runs_def)

lemma runs_if: "(b \<Longrightarrow> runs C qs f) \<Longrightarrow> (\<not> b \<Longrightarrow> runs C qs' g) \<Longrightarrow>
    runs C (if b then qs else qs') (\<lambda>s. if b then f s else g s)"
  by (cases b) (simp_all add: runs_def)

lemma runs_success [simp]: "runs C [] (\<lambda>s. (SGX_SUCCESS, s))"
  by (simp add: runs_def)

text \<open>The outcome of a run, read off the creator.\<close>

lemma runs_outcome:
  assumes "runs C qs f" and "f s = (ret, t)"
  shows "for_each (add_req C (ld_start_addr s)) qs (ld_creator s) = (ret, ld_creator t)" "same_frame t s"
  using assms(1) [unfolded runs_def, rule_format, of s] assms(2) by auto

end
