(* ===== verification/Loader_Validate.thy ===== *)
theory Loader_Validate
  imports Sgx_Metadata "HOL-Library.Product_Lexorder" "HOL-Library.Multiset"
begin

text \<open>
  The metadata checks of \<^verbatim>\<open>psw/urts/loader.cpp\<close> (\<^verbatim>\<open>is_metadata_buffer\<close> to
  \<^verbatim>\<open>validate_metadata\<close>) and the traversal of the layout table that the loader's four
  table functions share (\<^verbatim>\<open>build_contexts\<close>, \<^verbatim>\<open>post_init_action\<close>,
  \<^verbatim>\<open>post_init_action_commit\<close>, \<^verbatim>\<open>set_context_protection\<close>). The traversal is shown to be
  a plain loop over the load sequence that \<^verbatim>\<open>metadata.h\<close> describes, and a table that
  passes validation to describe disjoint page ranges inside the enclave.
\<close>

unbundle bit_operations_syntax

section \<open>The traversal of the layout table\<close>

text \<open>
  The steps of a group: \<^verbatim>\<open>step += load_step\<close> before each of its \<^verbatim>\<open>load_times\<close> rounds.
\<close>

definition group_steps :: "layout_group_t \<Rightarrow> u64 list" where
  "group_steps g = map (\<lambda>j. of_nat (Suc j) * lg_load_step g) [0..<unat (lg_load_times g)]"

text \<open>
  \<^verbatim>\<open>for (layout = layout_start; layout < layout_end; layout++)\<close> over the indices
  \<^verbatim>\<open>i ..< e\<close> of the table: an entry is handed to the function of the traversal, a group
  traverses the \<^verbatim>\<open>entry_count\<close> records before it once per step.
\<close>

function layout_walk ::
  "(u64 \<Rightarrow> layout_entry_t \<Rightarrow> 's \<Rightarrow> sgx_status_t \<times> 's) \<Rightarrow> layout_t list \<Rightarrow> nat \<Rightarrow> nat \<Rightarrow> u64 \<Rightarrow> 's
    \<Rightarrow> sgx_status_t \<times> 's" where
  "layout_walk f T i e delta s =
     (if i < e then
        and_then
          (case T ! i of
             LEntry en \<Rightarrow> f delta en s
           | LGroup g \<Rightarrow>
               for_each (\<lambda>step. layout_walk f T (i - unat (lg_entry_count g)) i step) (group_steps g) s)
          (layout_walk f T (Suc i) e delta)
      else (SGX_SUCCESS, s))"
  by pat_completeness auto
termination
  by (relation "measures [\<lambda>(f, T, i, e, d, s). e, \<lambda>(f, T, i, e, d, s). e - i]") auto

declare layout_walk.simps [simp del]

text \<open>The load sequence: every entry with the offset it is loaded at, in order.\<close>

function layout_seq :: "layout_t list \<Rightarrow> nat \<Rightarrow> nat \<Rightarrow> u64 \<Rightarrow> (u64 \<times> layout_entry_t) list" where
  "layout_seq T i e delta =
     (if i < e then
        (case T ! i of
           LEntry en \<Rightarrow> [(delta, en)]
         | LGroup g \<Rightarrow>
             concat (map (\<lambda>step. layout_seq T (i - unat (lg_entry_count g)) i step) (group_steps g)))
        @ layout_seq T (Suc i) e delta
      else [])"
  by pat_completeness auto
termination
  by (relation "measures [\<lambda>(T, i, e, d). e, \<lambda>(T, i, e, d). e - i]") auto

declare layout_seq.simps [simp del]

lemma layout_walk_seq:
  "layout_walk f T i e delta s = for_each (\<lambda>(d, en). f d en) (layout_seq T i e delta) s"
proof (induction f T i e delta s rule: layout_walk.induct)
  case (1 f T i e delta s)
  let ?go = "for_each (\<lambda>(d, en). f d en)"
  show ?case
  proof (cases "i < e")
    case True
    have rest: "layout_walk f T (Suc i) e delta = ?go (layout_seq T (Suc i) e delta)"
      using 1(2) True by blast
    show ?thesis
    proof (cases "T ! i")
      case (LEntry en)
      show ?thesis using True LEntry
        by (subst layout_walk.simps, subst layout_seq.simps) (simp add: rest)
    next
      case (LGroup g)
      have "for_each (\<lambda>step. layout_walk f T (i - unat (lg_entry_count g)) i step) (group_steps g) s
        = ?go (concat (map (layout_seq T (i - unat (lg_entry_count g)) i) (group_steps g))) s"
        unfolding for_each_concat for_each_map
        by (rule for_each_cong) (use 1(1) True LGroup in auto)
      then show ?thesis using True LGroup
        by (subst layout_walk.simps, subst layout_seq.simps) (simp add: rest for_each_append)
    qed
  qed (simp add: layout_walk.simps layout_seq.simps)
qed

section \<open>Buffers\<close>

definition is_metadata_buffer :: "metadata_t \<Rightarrow> u32 \<Rightarrow> u32 \<Rightarrow> bool" where
  "is_metadata_buffer m offset sz =
     (if METADATA_DATA_OFFSET > offset \<or> offset \<ge> md_size m then False
      else let end' = offset + sz in
        if end' < offset \<or> end' < sz \<or> end' > md_size m then False else True)"

definition is_enclave_buffer :: "metadata_t \<Rightarrow> u64 \<Rightarrow> u64 \<Rightarrow> bool" where
  "is_enclave_buffer m offset sz =
     (if offset \<ge> md_enclave_size m then False
      else let end' = offset + sz in
        if end' < offset \<or> end' < sz \<or> end' > md_enclave_size m then False else True)"

lemma end_no_wrap:
  fixes a b c :: "'a::len word"
  shows "\<not> a + b < a \<and> \<not> a + b < b \<and> \<not> c < a + b \<longleftrightarrow> unat a + unat b \<le> unat c"
proof (cases "unat a + unat b < 2 ^ LENGTH('a)")
  case True
  then have "unat (a + b) = unat a + unat b" by (simp add: unat_word_ariths)
  then show ?thesis by (auto simp: word_less_nat_alt)
next
  case False
  have small: "unat a + unat b - 2 ^ LENGTH('a) < 2 ^ LENGTH('a)"
    using unat_less_exp [of a] unat_less_exp [of b] by linarith
  have "unat (a + b) = (unat a + unat b) mod 2 ^ LENGTH('a)" by (simp add: unat_word_ariths)
  also have "\<dots> = unat a + unat b - 2 ^ LENGTH('a)"
    using False small by (simp add: le_mod_geq)
  finally have "a + b < a"
    unfolding word_less_nat_alt using False unat_less_exp [of b] by linarith
  moreover have "\<not> unat a + unat b \<le> unat c" using False unat_less_exp [of c] by linarith
  ultimately show ?thesis by blast
qed

lemma is_enclave_buffer_iff:
  "is_enclave_buffer m off sz \<longleftrightarrow>
     unat off < unat (md_enclave_size m) \<and> unat off + unat sz \<le> unat (md_enclave_size m)"
  using end_no_wrap [of off sz "md_enclave_size m"]
  by (auto simp: is_enclave_buffer_def Let_def word_less_nat_alt word_le_nat_alt)

lemma is_metadata_buffer_iff:
  "is_metadata_buffer m off sz \<longleftrightarrow>
     1888 \<le> unat off \<and> unat off < unat (md_size m) \<and> unat off + unat sz \<le> unat (md_size m)"
  using end_no_wrap [of off sz "md_size m"]
  by (auto simp: is_metadata_buffer_def METADATA_DATA_OFFSET_def Let_def word_less_nat_alt
      word_le_nat_alt)

section \<open>Validation of the layout table\<close>

text \<open>The pair pushed on \<^verbatim>\<open>rva_vector\<close> for an entry at an offset.\<close>

definition entry_range :: "u64 \<Rightarrow> layout_entry_t \<Rightarrow> u64 \<times> u64" where
  "entry_range delta en =
     (le_rva en + delta, push_bit SE_PAGE_SHIFT (ucast (le_page_count en)))"

fun group_entries :: "u64 \<Rightarrow> layout_t list \<Rightarrow> (u64 \<times> u64) list option" where
  "group_entries step [] = Some []"
| "group_entries step (LGroup g # ls) = None"
| "group_entries step (LEntry en # ls) = map_option ((#) (entry_range step en)) (group_entries step ls)"

fun group_rounds :: "u64 \<Rightarrow> u64 \<Rightarrow> layout_t list \<Rightarrow> nat \<Rightarrow> u64 \<Rightarrow> (u64 \<times> u64) list option" where
  "group_rounds encl_size load_step ents 0 acc = Some []"
| "group_rounds encl_size load_step ents (Suc n) acc =
     (let acc' = acc + load_step in
      if acc' > encl_size then None
      else case group_entries acc' ents of
             None \<Rightarrow> None
           | Some r \<Rightarrow> map_option ((@) r) (group_rounds encl_size load_step ents n acc'))"

lemma group_rounds_numeral [simp]:
  "group_rounds encl_size load_step ents (numeral k) acc =
     (let acc' = acc + load_step in
      if acc' > encl_size then None
      else case group_entries acc' ents of
             None \<Rightarrow> None
           | Some r \<Rightarrow> map_option ((@) r) (group_rounds encl_size load_step ents (pred_numeral k) acc'))"
  by (simp add: numeral_eq_Suc)

text \<open>
  The first loop of \<^verbatim>\<open>validate_layout_table\<close>, with the records before the current one and
  those from it on; \<^const>\<open>None\<close> is \<^verbatim>\<open>SGX_ERROR_INVALID_METADATA\<close>.
\<close>

fun rva_vector :: "metadata_t \<Rightarrow> layout_t list \<Rightarrow> layout_t list \<Rightarrow> (u64 \<times> u64) list option" where
  "rva_vector m pre [] = Some []"
| "rva_vector m pre (LEntry en # ls) =
     (if le_content_offset en \<noteq> 0 \<and> \<not> is_metadata_buffer m (le_content_offset en) (le_content_size en)
      then None
      else map_option ((#) (entry_range 0 en)) (rva_vector m (pre @ [LEntry en]) ls))"
| "rva_vector m pre (LGroup g # ls) =
     (if unat (lg_entry_count g) > length pre then None
      else case group_rounds (md_enclave_size m) (lg_load_step g)
                  (drop (length pre - unat (lg_entry_count g)) pre) (unat (lg_load_times g)) 0 of
             None \<Rightarrow> None
           | Some r \<Rightarrow> map_option ((@) r) (rva_vector m (pre @ [LGroup g]) ls))"

fun check_rvas :: "metadata_t \<Rightarrow> (u64 \<times> u64) list \<Rightarrow> bool" where
  "check_rvas m [] = True"
| "check_rvas m ((r, n) # rest) =
     (IS_PAGE_ALIGNED r \<and> is_enclave_buffer m r n
      \<and> (case rest of [] \<Rightarrow> True | (r', n') # _ \<Rightarrow> \<not> r + n > r')
      \<and> check_rvas m rest)"

definition validate_layout_table :: "metadata_t \<Rightarrow> sgx_status_t" where
  "validate_layout_table m =
     (case rva_vector m [] (layout_table m) of
        None \<Rightarrow> SGX_ERROR_INVALID_METADATA
      | Some v \<Rightarrow> if check_rvas m (sort v) then SGX_SUCCESS else SGX_ERROR_INVALID_METADATA)"

definition validate_patch_table :: "metadata_t \<Rightarrow> sgx_status_t" where
  "validate_patch_table m =
     (if \<forall>p \<in> set (patch_table m).
           is_metadata_buffer m (pe_src p) (pe_size p) \<and> is_enclave_buffer m (pe_dst p) (ucast (pe_size p))
      then SGX_SUCCESS else SGX_ERROR_INVALID_METADATA)"

text \<open>The loop that shifts the trailing zeros out of the enclave size.\<close>

function shift_out :: "u64 \<Rightarrow> u64" where
  "shift_out sz = (if sz \<noteq> 0 \<and> sz AND 1 \<noteq> 1 then shift_out (drop_bit 1 sz) else sz)"
  by pat_completeness auto
termination
proof (relation "measure unat")
  fix sz :: u64
  assume "sz \<noteq> 0 \<and> sz AND 1 \<noteq> 1"
  then have "0 < unat sz" using unat_eq_0 [of sz] by linarith
  then show "(drop_bit 1 sz, sz) \<in> measure unat"
    by (simp add: drop_bit_eq_div unat_div)
qed simp

declare shift_out.simps [simp del]

definition validate_metadata :: "u64 \<Rightarrow> metadata_t option \<Rightarrow> sgx_status_t" where
  "validate_metadata enclave_max_size md =
     (case md of
        None \<Rightarrow> SGX_ERROR_INVALID_METADATA
      | Some m \<Rightarrow>
         if MAJOR_VERSION_OF_METADATA (META_DATA_MAKE_VERSION MAJOR_VERSION MINOR_VERSION)
              < MAJOR_VERSION_OF_METADATA (md_version m) then SGX_ERROR_INVALID_VERSION
         else if md_tcs_policy m > TCS_POLICY_UNBIND then SGX_ERROR_INVALID_METADATA
         else if md_ssa_frame_size m < SSA_FRAME_SIZE_MIN \<or> md_ssa_frame_size m > SSA_FRAME_SIZE_MAX
           then SGX_ERROR_INVALID_METADATA
         else if md_enclave_size m > enclave_max_size then SGX_ERROR_INVALID_METADATA
         else if shift_out (md_enclave_size m) \<noteq> 1 then SGX_ERROR_INVALID_METADATA
         else if \<exists>d \<in> {md_dir_patch m, md_dir_layout m}.
                   \<not> is_metadata_buffer m (dd_offset d) (dd_size d) then SGX_ERROR_INVALID_METADATA
         else let status = validate_layout_table m in
           if status \<noteq> SGX_SUCCESS then status else validate_patch_table m)"

section \<open>What validation guarantees\<close>

lemma layout_seq_entries:
  "group_entries step (map ((!) T) [i..<e]) = Some r \<Longrightarrow>
     map (case_prod entry_range) (layout_seq T i e step) = r"
proof (induction "e - i" arbitrary: i r)
  case 0
  then show ?case by (simp add: layout_seq.simps)
next
  case (Suc n)
  then have i: "i < e" by simp
  then have "group_entries step (T ! i # map ((!) T) [Suc i..<e]) = Some r"
    using Suc.prems by (simp add: upt_conv_Cons)
  then obtain en r' where "T ! i = LEntry en" "r = entry_range step en # r'"
      "group_entries step (map ((!) T) [Suc i..<e]) = Some r'"
    by (cases "T ! i") auto
  then show ?case using Suc.hyps i by (subst layout_seq.simps) simp
qed

lemma group_rounds_steps:
  "group_rounds encl step ents n acc = Some r \<Longrightarrow>
     (\<And>d q. group_entries d ents = Some q \<Longrightarrow> map (case_prod entry_range) (f d) = q) \<Longrightarrow>
     r = concat (map (\<lambda>j. map (case_prod entry_range) (f (acc + of_nat (Suc j) * step))) [0..<n])"
proof (induction n arbitrary: acc r)
  case (Suc n)
  obtain q r' where q: "group_entries (acc + step) ents = Some q" and r: "r = q @ r'"
    and r': "group_rounds encl step ents n (acc + step) = Some r'"
    using Suc.prems(1) by (auto simp: Let_def split: if_splits option.splits)
  have "r' = concat (map (\<lambda>j. map (case_prod entry_range) (f (acc + step + of_nat (Suc j) * step))) [0..<n])"
    using Suc.IH r' Suc.prems(2) by blast
  moreover have "[0..<Suc n] = 0 # map Suc [0..<n]" by (simp add: upt_conv_Cons map_Suc_upt del: upt_Suc)
  ultimately show ?case
    using q r Suc.prems(2) by (simp add: algebra_simps comp_def del: upt_Suc)
qed simp

lemma drop_as_nths: "drop (length pre - k) pre = map ((!) (pre @ ls)) [length pre - k..<length pre]"
  by (rule nth_equalityI) (auto simp: nth_append)

lemma rva_vector_seq:
  "rva_vector m pre ls = Some v \<Longrightarrow>
     v = map (case_prod entry_range) (layout_seq (pre @ ls) (length pre) (length (pre @ ls)) 0)"
proof (induction m pre ls arbitrary: v rule: rva_vector.induct)
  case (1 m pre)
  then show ?case by (simp add: layout_seq.simps)
next
  case (2 m pre en ls)
  then show ?case
    by (subst layout_seq.simps) (auto split: if_splits simp: case_prod_unfold)
next
  case (3 m pre g ls)
  let ?T = "pre @ LGroup g # ls" and ?i = "length pre - unat (lg_entry_count g)"
  obtain r v' where r: "group_rounds (md_enclave_size m) (lg_load_step g) (drop ?i pre)
        (unat (lg_load_times g)) 0 = Some r"
      and v: "v = r @ v'" and v': "rva_vector m (pre @ [LGroup g]) ls = Some v'"
      and le: "\<not> length pre < unat (lg_entry_count g)"
    using "3.prems" by (auto split: if_splits option.splits)
  have "r = concat (map (\<lambda>j. map (case_prod entry_range)
          (layout_seq ?T ?i (length pre) (0 + of_nat (Suc j) * lg_load_step g))) [0..<unat (lg_load_times g)])"
    by (rule group_rounds_steps [OF r]) (simp add: drop_as_nths [of pre _ "LGroup g # ls"] layout_seq_entries)
  then have "r = map (case_prod entry_range) (concat (map (layout_seq ?T ?i (length pre)) (group_steps g)))"
    by (simp add: group_steps_def map_concat comp_def)
  moreover have "v' = map (case_prod entry_range) (layout_seq ?T (Suc (length pre)) (length ?T) 0)"
    using "3.IH" [OF le r v'] by simp
  ultimately show ?case using v by (subst layout_seq.simps) simp
qed

text \<open>Address ranges as sets of byte offsets.\<close>

definition byte_range :: "u64 \<times> u64 \<Rightarrow> nat set" where
  "byte_range p = {unat (fst p) ..< unat (fst p) + unat (snd p)}"

lemma check_rvas_all:
  "check_rvas m v \<Longrightarrow> p \<in> set v \<Longrightarrow> IS_PAGE_ALIGNED (fst p) \<and> is_enclave_buffer m (fst p) (snd p)"
  by (induction m v rule: check_rvas.induct) auto

lemma check_rvas_chain:
  "check_rvas m v \<Longrightarrow> sorted_wrt (\<lambda>p q. unat (fst p) + unat (snd p) \<le> unat (fst q)) v"
proof (induction m v rule: check_rvas.induct)
  case (2 m r n rest)
  show ?case
  proof (cases rest)
    case (Cons q qs)
    obtain r' n' where q: "q = (r', n')" by (cases q)
    have "is_enclave_buffer m r n" using 2 by simp
    then have "unat (r + n) = unat r + unat n"
      using unat_less_exp [of "md_enclave_size m"]
      by (simp add: is_enclave_buffer_iff unat_word_ariths)
    moreover have "\<not> r' < r + n" using 2 Cons q by simp
    ultimately have "unat r + unat n \<le> unat r'" by (simp add: word_less_nat_alt)
    moreover have "sorted_wrt (\<lambda>p q. unat (fst p) + unat (snd p) \<le> unat (fst q)) rest" using 2 by simp
    ultimately show ?thesis using Cons q by fastforce
  qed simp
qed simp

lemma sorted_wrt_perm:
  assumes "symp R" shows "mset xs = mset ys \<Longrightarrow> sorted_wrt R xs \<longleftrightarrow> sorted_wrt R ys"
proof (induction xs arbitrary: ys)
  case (Cons x xs)
  then have "x \<in> set ys" by (metis list.set_intros(1) set_mset_mset)
  then obtain a b where ys: "ys = a @ x # b" by (meson split_list)
  then have m: "mset xs = mset (a @ b)" using Cons.prems by simp
  then have set: "set xs = set a \<union> set b" by (metis set_append set_mset_mset)
  have "sorted_wrt R ys \<longleftrightarrow> sorted_wrt R (a @ b) \<and> (\<forall>y \<in> set a \<union> set b. R x y)"
    using assms by (auto simp: ys sorted_wrt_append dest: sympD)
  then show ?case using Cons.IH [OF m] set by auto
qed simp

lemma validate_layout_table_ok:
  assumes "validate_layout_table m = SGX_SUCCESS"
  obtains v where "v = map (case_prod entry_range) (layout_seq (layout_table m) 0 (length (layout_table m)) 0)"
    and "\<And>p. p \<in> set v \<Longrightarrow> IS_PAGE_ALIGNED (fst p) \<and> is_enclave_buffer m (fst p) (snd p)"
    and "sorted_wrt (\<lambda>p q. byte_range p \<inter> byte_range q = {}) v"
proof -
  obtain v where v: "rva_vector m [] (layout_table m) = Some v" and c: "check_rvas m (sort v)"
    using assms by (auto simp: validate_layout_table_def split: option.splits if_splits)
  have "sorted_wrt (\<lambda>p q. byte_range p \<inter> byte_range q = {}) (sort v)"
    by (rule sorted_wrt_mono_rel [OF _ check_rvas_chain [OF c]]) (auto simp: byte_range_def)
  moreover have "symp (\<lambda>p q. byte_range p \<inter> byte_range q = {})" by (auto simp: symp_def)
  ultimately have "sorted_wrt (\<lambda>p q. byte_range p \<inter> byte_range q = {}) v"
    using sorted_wrt_perm [of _ "sort v" v] by simp
  then show ?thesis
    using that [of v] rva_vector_seq [OF v] check_rvas_all [OF c] by simp
qed

lemma unat_page_bytes:
  "unat (push_bit SE_PAGE_SHIFT (ucast (n :: u32) :: u64)) = 4096 * unat n"
  using unat_less_exp [of n]
  by (simp add: SE_PAGE_SHIFT_def push_bit_eq_mult unat_word_ariths unsigned_ucast_eq take_bit_eq_mod)

lemma entry_range_pages:
  "byte_range (entry_range d en)
     = {unat (le_rva en + d) ..< unat (le_rva en + d) + 4096 * unat (le_page_count en)}"
  by (simp add: byte_range_def entry_range_def unat_page_bytes)

section \<open>The enclave size\<close>

lemma shift_out_even:
  assumes "(w :: u64) \<noteq> 0" "w AND 1 \<noteq> 1"
  shows "unat w = 2 * unat (drop_bit 1 w)"
proof -
  have "unat (w AND 1) = unat w mod 2" by (simp add: and_one_eq unat_mod)
  moreover have "unat (w AND 1) \<noteq> 1" using assms(2) by (metis unat_1 word_unat_eq_iff)
  ultimately have "even (unat w)" by presburger
  then show ?thesis by (simp add: drop_bit_eq_div unat_div)
qed

lemma shift_out_pow2: "shift_out w = 1 \<Longrightarrow> \<exists>k<64. unat w = 2 ^ k"
proof (induction w rule: shift_out.induct)
  case (1 w)
  show ?case
  proof (cases "w \<noteq> 0 \<and> w AND 1 \<noteq> 1")
    case True
    then have "shift_out (drop_bit 1 w) = 1" using "1.prems" by (subst (asm) shift_out.simps) simp
    then obtain k where "unat (drop_bit 1 w) = 2 ^ k" using "1.IH" True by blast
    then have w: "unat w = 2 ^ Suc k" using shift_out_even [of w] True by simp
    then have "(2::nat) ^ Suc k < 2 ^ 64" using unat_less_exp [of w] by simp
    then have "Suc k < 64" by (rule power_less_imp_less_exp [rotated]) simp
    then show ?thesis using w by blast
  next
    case False
    then have "w = 1" using "1.prems" by (subst (asm) shift_out.simps) auto
    then show ?thesis by (intro exI [of _ 0]) simp
  qed
qed

lemma shift_out_of_pow2: "k < 64 \<Longrightarrow> shift_out (2 ^ k) = 1"
proof (induction k)
  case 0
  then show ?case by (subst shift_out.simps) simp
next
  case (Suc k)
  have "(2 :: u64) ^ Suc k \<noteq> 0" using Suc.prems by (simp del: power_Suc)
  moreover have "(2 :: u64) ^ Suc k AND 1 = 0"
    by (rule bit_eqI) (auto simp: bit_simps simp del: power_Suc)
  moreover have "drop_bit 1 ((2 :: u64) ^ Suc k) = 2 ^ k"
    using Suc.prems by (intro bit_eqI) (auto simp: bit_simps simp del: power_Suc)
  ultimately show ?case using Suc by (subst shift_out.simps) simp
qed

section \<open>A concrete image\<close>

text \<open>
  A metadata buffer with a layout table of three records (a two-page heap, a TCS page, and
  a group that loads the TCS page two more times) and one patch entry.
\<close>

definition mem_of :: "nat \<Rightarrow> bytes \<Rightarrow> memory" where
  "mem_of base bs = (\<lambda>a. if base \<le> a \<and> a < base + length bs then bs ! (a - base) else 0)"

definition example_layout_entry :: "u16 \<Rightarrow> u16 \<Rightarrow> u32 \<Rightarrow> u64 \<Rightarrow> u64 \<Rightarrow> bytes" where
  "example_layout_entry i attrs pages rva flags =
     le_bytes 2 i @ le_bytes 2 attrs @ le_bytes 4 pages @ le_bytes 8 rva @ replicate 8 0 @ le_bytes 8 flags"

definition example_metadata :: metadata_t where
  "example_metadata = \<lparr>
     md_magic_num = 0x86A80294635D0E4C, md_version = 0x200000004, md_size = 0x5000, md_tcs_policy = 1,
     md_ssa_frame_size = 1, md_max_save_buffer_size = 2632, md_desired_misc_select = 0,
     md_tcs_min_pool = 1, md_enclave_size = 0x8000, md_attributes = \<lparr>attr_flags = 4, attr_xfrm = 3\<rparr>,
     md_enclave_css = zero_css,
     md_dir_patch = \<lparr>dd_offset = 1888, dd_size = 32\<rparr>,
     md_dir_layout = \<lparr>dd_offset = 1920, dd_size = 96\<rparr>,
     md_mem = mem_of 1888
       ((le_bytes 8 (0x10 :: u64) @ le_bytes 4 (2000 :: u32) @ le_bytes 4 (8 :: u32) @ replicate 16 0)
        @ example_layout_entry 1 3 2 0x2000 0x203 @ example_layout_entry 4 3 1 0x4000 0x100
        @ (le_bytes 2 (0x1009 :: u16) @ le_bytes 2 (1 :: u16) @ le_bytes 4 (2 :: u32)
           @ le_bytes 8 (0x1000 :: u64) @ replicate 16 0))\<rparr>"

lemma rd_mem_of:
  "base \<le> off \<Longrightarrow> off + n \<le> base + length bs \<Longrightarrow> rd (mem_of base bs) off n = take n (drop (off - base) bs)"
  by (rule nth_equalityI) (auto simp: mem_of_def)

lemma example_layout_table:
  "layout_table example_metadata =
     [LEntry \<lparr>le_id = 1, le_attributes = 3, le_page_count = 2, le_rva = 0x2000, le_content_size = 0,
        le_content_offset = 0, le_si_flags = 0x203\<rparr>,
      LEntry \<lparr>le_id = 4, le_attributes = 3, le_page_count = 1, le_rva = 0x4000, le_content_size = 0,
        le_content_offset = 0, le_si_flags = 0x100\<rparr>,
      LGroup \<lparr>lg_id = 0x1009, lg_entry_count = 1, lg_load_times = 2, lg_load_step = 0x1000\<rparr>]"
  by (simp add: layout_table_def table_of_def example_metadata_def decode_layout_def
      decode_layout_entry_def decode_layout_group_def rd_word_def rd_mem_of example_layout_entry_def
      IS_GROUP_ID_def GROUP_FLAG_def upt_rec of_le_le_bytes)

lemma example_layout_length: "length (layout_table example_metadata) = 3"
  by (simp add: example_layout_table)

lemma example_patch_table:
  "patch_table example_metadata = [\<lparr>pe_dst = 0x10, pe_src = 2000, pe_size = 8\<rparr>]"
  by (simp add: patch_table_def table_of_def example_metadata_def decode_patch_def rd_word_def
      rd_mem_of example_layout_entry_def of_le_le_bytes)

lemma example_fields [simp]:
  "md_version example_metadata = 0x200000004" "md_tcs_policy example_metadata = 1"
  "md_ssa_frame_size example_metadata = 1" "md_enclave_size example_metadata = 0x8000"
  "md_size example_metadata = 0x5000"
  "md_dir_patch example_metadata = \<lparr>dd_offset = 1888, dd_size = 32\<rparr>"
  "md_dir_layout example_metadata = \<lparr>dd_offset = 1920, dd_size = 96\<rparr>"
  by (simp_all add: example_metadata_def)

lemma example_layout_valid: "validate_layout_table example_metadata = SGX_SUCCESS"
  by (simp add: validate_layout_table_def example_layout_table entry_range_def is_enclave_buffer_iff
      IS_PAGE_ALIGNED_def PAGE_OFFSET_def SE_PAGE_SIZE_def SE_PAGE_SHIFT_def Let_def less_eq_prod_def)

lemma example_metadata_valid: "validate_metadata 0x10000 (Some example_metadata) = SGX_SUCCESS"
  using shift_out_of_pow2 [of 15]
  by (simp add: validate_metadata_def example_layout_valid validate_patch_table_def
      example_patch_table is_enclave_buffer_iff is_metadata_buffer_iff MAJOR_VERSION_OF_METADATA_def
      META_DATA_MAKE_VERSION_def MAJOR_VERSION_def MINOR_VERSION_def TCS_POLICY_UNBIND_def
      SSA_FRAME_SIZE_MIN_def SSA_FRAME_SIZE_MAX_def)

lemma example_layout_seq:
  "layout_seq (layout_table example_metadata) 0 3 0 =
     (let T = layout_table example_metadata;
          en = (\<lambda>i. case T ! i of LEntry e \<Rightarrow> e) in
      [(0, en 0), (0, en 1), (0x1000, en 1), (0x2000, en 1)])"
  by (simp add: example_layout_table layout_seq.simps group_steps_def upt_rec Let_def)

section \<open>Properties\<close>

text \<open>
  C8: the two bounds checks are exact. Although they add 32-bit and 64-bit offsets and sizes
  that may wrap around, a range is accepted if and only if, over the natural numbers, it starts
  inside its object (and, for metadata, behind the fixed header) and ends no later than it.
\<close>
theorem buffer_checks_exact:
  "(is_metadata_buffer m moff msize \<longleftrightarrow>
      1888 \<le> unat moff \<and> unat moff < unat (md_size m) \<and> unat moff + unat msize \<le> unat (md_size m))
   \<and> (is_enclave_buffer m off sz \<longleftrightarrow>
      unat off < unat (md_enclave_size m) \<and> unat off + unat sz \<le> unat (md_enclave_size m))"
  by (simp add: is_metadata_buffer_iff is_enclave_buffer_iff)

text \<open>
  \<open>layout_safe m\<close>: in the load sequence (the one that the traversals of the loader follow, groups
  unrolled) every entry starts at a page boundary, lies inside the enclave without wrapping
  around, and shares no byte with any other entry.
\<close>

definition layout_safe :: "metadata_t \<Rightarrow> bool" where
  "layout_safe m \<longleftrightarrow> (let L = layout_seq (layout_table m) 0 (length (layout_table m)) 0 in
     (\<forall>(d, en) \<in> set L. IS_PAGE_ALIGNED (le_rva en + d)
        \<and> unat (le_rva en + d) + 4096 * unat (le_page_count en) \<le> unat (md_enclave_size m))
     \<and> (\<forall>i j. i < j \<longrightarrow> j < length L \<longrightarrow>
          byte_range (case_prod entry_range (L ! i)) \<inter> byte_range (case_prod entry_range (L ! j)) = {}))"

lemma layout_table_safe:
  assumes "validate_layout_table m = SGX_SUCCESS"
  shows "layout_safe m"
proof -
  define L where "L = layout_seq (layout_table m) 0 (length (layout_table m)) 0"
  obtain v where v: "v = map (case_prod entry_range) L"
    and ok: "\<And>p. p \<in> set v \<Longrightarrow> IS_PAGE_ALIGNED (fst p) \<and> is_enclave_buffer m (fst p) (snd p)"
    and dis: "sorted_wrt (\<lambda>p q. byte_range p \<inter> byte_range q = {}) v"
    using validate_layout_table_ok [OF assms] unfolding L_def by blast
  have "IS_PAGE_ALIGNED (le_rva en + d)
      \<and> unat (le_rva en + d) + 4096 * unat (le_page_count en) \<le> unat (md_enclave_size m)"
    if "(d, en) \<in> set L" for d en
  proof -
    have "entry_range d en \<in> set v" using that v by force
    then show ?thesis using ok [of "entry_range d en"]
      by (simp add: is_enclave_buffer_iff entry_range_def unat_page_bytes)
  qed
  then show ?thesis
    using dis v unfolding layout_safe_def L_def [symmetric] Let_def by (auto simp: sorted_wrt_iff_nth_less)
qed

text \<open>
  C7: a layout table that \<^verbatim>\<open>validate_layout_table\<close> accepts describes a load sequence (the one
  that the traversals of the loader follow, groups unrolled) in which every entry starts at a
  page boundary, lies inside the enclave without wrapping around, and shares no byte with any
  other entry of the sequence.
\<close>
theorem validated_layout_safe:
  assumes "validate_layout_table m = SGX_SUCCESS"
  defines "L \<equiv> layout_seq (layout_table m) 0 (length (layout_table m)) 0"
  shows "(\<forall>(d, en) \<in> set L. IS_PAGE_ALIGNED (le_rva en + d)
            \<and> unat (le_rva en + d) + 4096 * unat (le_page_count en) \<le> unat (md_enclave_size m))
       \<and> (\<forall>i j. i < j \<longrightarrow> j < length L \<longrightarrow>
            byte_range (case_prod entry_range (L ! i)) \<inter> byte_range (case_prod entry_range (L ! j)) = {})"
  using layout_table_safe [OF assms(1)] unfolding layout_safe_def L_def [symmetric] Let_def .

theorem validated_layout_safe_witness:
  "validate_layout_table example_metadata = SGX_SUCCESS
   \<and> (let L = layout_seq (layout_table example_metadata) 0 3 0 in
        length L = 4 \<and> IS_PAGE_ALIGNED (le_rva (snd (L ! 3)) + fst (L ! 3))
        \<and> byte_range (case_prod entry_range (L ! 1)) \<inter> byte_range (case_prod entry_range (L ! 3)) = {})"
proof -
  let ?L = "layout_seq (layout_table example_metadata) 0 3 0"
  have len: "length ?L = 4" by (simp add: example_layout_seq Let_def)
  note safe = validated_layout_safe [OF example_layout_valid, unfolded example_layout_length]
  have "?L ! 3 \<in> set ?L" using len by (intro nth_mem) simp
  then have "IS_PAGE_ALIGNED (le_rva (snd (?L ! 3)) + fst (?L ! 3))"
    using safe unfolding case_prod_unfold by blast
  moreover have "byte_range (case_prod entry_range (?L ! 1)) \<inter> byte_range (case_prod entry_range (?L ! 3)) = {}"
    by (rule conjunct2 [OF safe, rule_format]) (simp, simp add: len)
  ultimately show ?thesis unfolding Let_def using len example_layout_valid by blast
qed

text \<open>
  C6: metadata that \<^verbatim>\<open>validate_metadata\<close> accepts has a supported major version, TCS policy
  and SSA frame size, an enclave size that is a power of two within the parser's maximum,
  both directories inside the metadata buffer, patch entries whose source lies in the
  metadata and whose destination lies within the enclave size, and a safe layout: page
  aligned ranges inside the enclave that do not overlap.
\<close>
theorem validate_metadata_sound:
  assumes "validate_metadata max_size (Some m) = SGX_SUCCESS"
  shows "(\<exists>k<64. unat (md_enclave_size m) = 2 ^ k) \<and> md_enclave_size m \<le> max_size
    \<and> drop_bit 32 (md_version m) \<le> 2 \<and> md_tcs_policy m \<le> 1 \<and> md_ssa_frame_size m \<in> {1, 2}
    \<and> (\<forall>d \<in> {md_dir_patch m, md_dir_layout m}.
          1888 \<le> unat (dd_offset d) \<and> unat (dd_offset d) + unat (dd_size d) \<le> unat (md_size m))
    \<and> (\<forall>p \<in> set (patch_table m).
          1888 \<le> unat (pe_src p) \<and> unat (pe_src p) + unat (pe_size p) \<le> unat (md_size m)
          \<and> unat (pe_dst p) + unat (pe_size p) \<le> unat (md_enclave_size m))
    \<and> layout_safe m"
proof -
  have v: "drop_bit 32 (META_DATA_MAKE_VERSION MAJOR_VERSION MINOR_VERSION) = 2"
    by (simp add: META_DATA_MAKE_VERSION_def MAJOR_VERSION_def MINOR_VERSION_def)
  have ssa: "w \<in> {1, 2}" if "\<not> (w < 1 \<or> w > 2)" for w :: u32
  proof -
    have "unat w = 1 \<or> unat w = 2" using that by (auto simp: word_less_nat_alt)
    then show ?thesis by (auto simp: word_unat_eq_iff)
  qed
  have size: "unat (ucast (pe_size p) :: u64) = unat (pe_size p)" for p
    using unat_less_exp [of "pe_size p"] by (simp add: unsigned_ucast_eq take_bit_eq_mod)
  have "validate_layout_table m = SGX_SUCCESS"
    using assms by (auto simp: validate_metadata_def Let_def split: if_splits)
  from layout_table_safe [OF this] show ?thesis
    using assms shift_out_pow2 [of "md_enclave_size m"] ssa [of "md_ssa_frame_size m"]
    by (auto simp: validate_metadata_def validate_patch_table_def v Let_def is_metadata_buffer_iff
        is_enclave_buffer_iff TCS_POLICY_UNBIND_def SSA_FRAME_SIZE_MIN_def SSA_FRAME_SIZE_MAX_def
        MAJOR_VERSION_OF_METADATA_def size split: if_splits)
qed

theorem validate_metadata_sound_witness:
  "validate_metadata 0x10000 (Some example_metadata) = SGX_SUCCESS
   \<and> (\<exists>k<64. unat (md_enclave_size example_metadata) = 2 ^ k) \<and> layout_safe example_metadata
   \<and> length (layout_seq (layout_table example_metadata) 0 (length (layout_table example_metadata)) 0) = 4"
  using validate_metadata_sound [OF example_metadata_valid] example_metadata_valid
  by (simp add: example_layout_length example_layout_seq Let_def)

end
