(* ===== verification/Enclave_Loader.thy ===== *)
theory Enclave_Loader
  imports Enclave_Creator Loader_Validate
begin

text \<open>
  The class \<^verbatim>\<open>CLoader\<close> of \<^verbatim>\<open>psw/urts/loader.cpp\<close>: it walks the sections of the parsed enclave
  file, the layout table of the metadata and the MAGE section, and hands one page after
  another to the enclave creator. The theory models every operation of the class; it also
  computes the list of page requests of an image (\<open>image_pages\<close>) and shows that
  \<^verbatim>\<open>build_image\<close> hands exactly these to a creator that runs no hardware enclave.
\<close>

unbundle bit_operations_syntax

section \<open>The parser's view of the enclave file\<close>

text \<open>
  A \<^verbatim>\<open>Section\<close> (\<^verbatim>\<open>psw/urts/parser/section.h\<close>): its raw data starts at \<open>sec_offset\<close> of the
  mapped file.
\<close>

record section_t =
  sec_offset :: u64
  sec_raw_data_size :: u64
  sec_virtual_size :: u64
  sec_rva :: u64
  sec_si_flags :: u64

text \<open>
  What the loader asks of a \<^verbatim>\<open>BinParser\<close>. The relocation bitmap is computed from the mapped
  file; \<^verbatim>\<open>set_memory_protection\<close> of the parser calls \<^verbatim>\<open>mprotect\<close> and so acts on the creator's side.
\<close>

record 'c bin_parser =
  bp_sections :: "section_t list"
  bp_mage_section :: "section_t option"
  bp_for_sign :: bool
  bp_enclave_max_size :: u64
  bp_get_reloc_bitmap :: "memory \<Rightarrow> u8 list option"
  bp_set_memory_protection :: "u64 \<Rightarrow> bool \<Rightarrow> 'c \<Rightarrow> bool \<times> 'c"
  bp_get_pages_to_protect :: "u64 \<Rightarrow> (u64 \<times> u64 \<times> u32) list"

definition get_mage_section :: "'c bin_parser \<Rightarrow> section_t option" where
  "get_mage_section P = bp_mage_section P"

definition get_mage_section_ex :: "'c bin_parser \<Rightarrow> section_t option" where
  "get_mage_section_ex P = (if bp_for_sign P then None else bp_mage_section P)"

section \<open>Pages\<close>

definition is_relocation_page :: "u64 \<Rightarrow> u8 list option \<Rightarrow> bool" where
  "is_relocation_page rva bitmap =
     (let page_frame = drop_bit SE_PAGE_SHIFT rva;
          index = unat (page_frame div 8) in
      case bitmap of
        None \<Rightarrow> False
      | Some bm \<Rightarrow>
          if index < length bm then bm ! index AND push_bit (unat (page_frame mod 8)) 1 \<noteq> 0
          else False)"

text \<open>\<^verbatim>\<open>build_pages\<close> leaves out the pages of the MAGE section.\<close>

definition skip_range :: "'c bin_parser \<Rightarrow> u64 \<times> u64" where
  "skip_range P = (case get_mage_section P of
     None \<Rightarrow> (0, 0) | Some sec \<Rightarrow> (sec_rva sec, sec_virtual_size sec))"

definition not_skipped :: "'c bin_parser \<Rightarrow> u64 \<Rightarrow> bool" where
  "not_skipped P rva \<longleftrightarrow> (case skip_range P of (skip_rva, skip_size) \<Rightarrow>
     rva \<ge> skip_rva + skip_size \<or> rva + SE_PAGE_SIZE \<le> skip_rva)"

text \<open>
  The loop over the pages, with the number of pages left; the source pointer does not move.
\<close>

primrec build_pages_loop ::
  "'c enclave_creator \<Rightarrow> 'c bin_parser \<Rightarrow> nat \<Rightarrow> u64 \<Rightarrow> bytes option \<Rightarrow> sec_info_t \<Rightarrow> u32
    \<Rightarrow> 'c loader \<Rightarrow> sgx_status_t \<times> 'c loader" where
  "build_pages_loop C P 0 rva src sinfo attr s = (SGX_SUCCESS, s)"
| "build_pages_loop C P (Suc n) rva src sinfo attr s =
     and_then
       (if not_skipped P rva then add_page C src rva sinfo attr s else (SGX_SUCCESS, s))
       (build_pages_loop C P n (rva + SE_PAGE_SIZE) src sinfo attr)"

text \<open>The number of iterations of \<^verbatim>\<open>while(offset < size) ... offset += SE_PAGE_SIZE\<close>.\<close>

definition page_count_of :: "u64 \<Rightarrow> nat" where
  "page_count_of sz = (unat sz + 4095) div 4096"

definition build_pages ::
  "'c enclave_creator \<Rightarrow> 'c bin_parser \<Rightarrow> u64 \<Rightarrow> u64 \<Rightarrow> bytes option \<Rightarrow> sec_info_t \<Rightarrow> u32
    \<Rightarrow> 'c loader \<Rightarrow> sgx_status_t \<times> 'c loader" where
  "build_pages C P start_rva sz src sinfo attr =
     build_pages_loop C P (page_count_of sz) start_rva src sinfo attr"

text \<open>The page that \<^verbatim>\<open>build_partial_page\<close> assembles: zeros around the raw data.\<close>

definition partial_page :: "u64 \<Rightarrow> bytes \<Rightarrow> bytes" where
  "partial_page rva data = put_at (replicate 4096 0) (unat (PAGE_OFFSET rva)) data"

definition build_partial_page ::
  "'c enclave_creator \<Rightarrow> 'c bin_parser \<Rightarrow> u64 \<Rightarrow> bytes \<Rightarrow> sec_info_t \<Rightarrow> u32
    \<Rightarrow> 'c loader \<Rightarrow> sgx_status_t \<times> 'c loader" where
  "build_partial_page C P rva data sinfo attr =
     build_pages C P (TRIM_TO_PAGE rva) SE_PAGE_SIZE (Some (partial_page rva data)) sinfo attr"

section \<open>Memory regions and sections\<close>

record section_info_t =
  rg_mem :: memory
  rg_raw_data :: nat
  rg_raw_data_size :: u64
  rg_rva :: u64
  rg_virtual_size :: u64
  rg_flag :: u64
  rg_bitmap :: "u8 list option"

text \<open>The flags of the page at an offset of the region: a relocation page becomes writable.\<close>

definition made_writable :: "section_info_t \<Rightarrow> u64 \<Rightarrow> bool" where
  "made_writable si rva \<longleftrightarrow> is_relocation_page rva (rg_bitmap si) \<and> rg_flag si AND SI_FLAG_W = 0"

definition region_flags :: "section_info_t \<Rightarrow> u64 \<Rightarrow> u64" where
  "region_flags si rva = (if made_writable si rva then rg_flag si OR SI_FLAG_W else rg_flag si)"

definition protect_reloc_page ::
  "'c enclave_creator \<Rightarrow> section_info_t \<Rightarrow> u64 \<Rightarrow> 'c loader \<Rightarrow> sgx_status_t \<times> 'c loader" where
  "protect_reloc_page C si rva s =
     (if made_writable si rva \<and> use_se_hw C then
        (case mprotect C (TRIM_TO_PAGE rva + ld_start_addr s) SE_PAGE_SIZE
                (region_flags si rva AND SI_MASK_MEM_ATTRIBUTE) (ld_creator s) of
           (ret, c) \<Rightarrow> (if ret \<noteq> 0 then SGX_ERROR_UNEXPECTED else SGX_SUCCESS, s\<lparr>ld_creator := c\<rparr>))
      else (SGX_SUCCESS, s))"

text \<open>
  \<^verbatim>\<open>build_mem_region\<close> from an offset on: one page per iteration for the initialised data, then
  the zero-filled rest. The offset stays below the size of the raw data plus one page, so it
  is kept as a natural number. This differs from the 64 bit offset of the code only for raw data of more
  than \<open>2 ^ 64 - 4096\<close> bytes, where the offset of the code would wrap around: no such region is in memory.
\<close>

function build_mem_region_from ::
  "'c enclave_creator \<Rightarrow> 'c bin_parser \<Rightarrow> section_info_t \<Rightarrow> nat \<Rightarrow> 'c loader \<Rightarrow> sgx_status_t \<times> 'c loader" where
  "build_mem_region_from C P si offset s =
     (let rva = rg_rva si + of_nat offset in
      if offset < unat (rg_raw_data_size si) then
        let room = 4096 - unat (PAGE_OFFSET rva);
            sz = min room (unat (rg_raw_data_size si) - offset);
            data = rd (rg_mem si) (rg_raw_data si + offset) sz;
            sinfo = sec_info (region_flags si rva)
        in and_then (protect_reloc_page C si rva s)
             (\<lambda>s. and_then
                (if sz = 4096 then build_pages C P rva SE_PAGE_SIZE (Some data) sinfo ADD_EXTEND_PAGE s
                 else build_partial_page C P rva data sinfo ADD_EXTEND_PAGE s)
                (build_mem_region_from C P si (offset + room)))
      else if unat (rg_virtual_size si) > offset then
        build_pages C P (TRIM_TO_PAGE rva)
          (ROUND_TO_PAGE (rg_virtual_size si - of_nat offset + PAGE_OFFSET rva)) None
          (sec_info (rg_flag si)) ADD_EXTEND_PAGE s
      else (SGX_SUCCESS, s))"
  by pat_completeness auto
termination
proof (relation "measure (\<lambda>(C, P, si, offset, s). unat (rg_raw_data_size si) - offset)", goal_cases)
  case (2 C P si offset s rva room)
  then show ?case using unat_PAGE_OFFSET_less [of rva] by simp
qed simp

declare build_mem_region_from.simps [simp del]

definition build_mem_region ::
  "'c enclave_creator \<Rightarrow> 'c bin_parser \<Rightarrow> section_info_t \<Rightarrow> 'c loader \<Rightarrow> sgx_status_t \<times> 'c loader" where
  "build_mem_region C P si = build_mem_region_from C P si 0"

definition section_region :: "memory \<Rightarrow> u8 list option \<Rightarrow> section_t \<Rightarrow> section_info_t" where
  "section_region file bitmap sec = \<lparr>
     rg_mem = file, rg_raw_data = unat (sec_offset sec), rg_raw_data_size = sec_raw_data_size sec,
     rg_rva = sec_rva sec, rg_virtual_size = sec_virtual_size sec, rg_flag = sec_si_flags sec,
     rg_bitmap = bitmap\<rparr>"

text \<open>
  Enclaves signed by version 1.5 of the SDK get one more page behind a section whose rounded
  size reaches into the next page.
\<close>

definition needs_gap_page :: "metadata_t \<Rightarrow> section_t option \<Rightarrow> bool" where
  "needs_gap_page m last_sec =
     (META_DATA_MAKE_VERSION SGX_1_5_MAJOR_VERSION SGX_1_5_MINOR_VERSION = md_version m
      \<and> (case last_sec of None \<Rightarrow> False
         | Some l \<Rightarrow> ROUND_TO_PAGE (sec_virtual_size l + sec_rva l)
             < ROUND_TO_PAGE (ROUND_TO_PAGE (sec_virtual_size l) + sec_rva l)))"

definition gap_rva :: "section_t \<Rightarrow> u64" where
  "gap_rva l = ROUND_TO_PAGE (sec_rva l + sec_virtual_size l)"

definition build_gap_page ::
  "'c enclave_creator \<Rightarrow> 'c bin_parser \<Rightarrow> section_t option \<Rightarrow> 'c loader \<Rightarrow> sgx_status_t \<times> 'c loader" where
  "build_gap_page C P last_sec s = (case last_sec of
     None \<Rightarrow> (SGX_SUCCESS, s)
   | Some l \<Rightarrow> build_pages C P (gap_rva l) SE_PAGE_SIZE None (sec_info (sec_si_flags l)) ADD_EXTEND_PAGE s)"

definition gap_before :: "metadata_t \<Rightarrow> section_t option \<Rightarrow> section_t \<Rightarrow> bool" where
  "gap_before m last_sec sec \<longleftrightarrow> needs_gap_page m last_sec
     \<and> (case last_sec of None \<Rightarrow> False | Some l \<Rightarrow> gap_rva l < TRIM_TO_PAGE (sec_rva sec))"

text \<open>The loop of \<^verbatim>\<open>build_sections\<close>, with the greatest rva so far and the section that has it.\<close>

fun build_sections_from ::
  "'c enclave_creator \<Rightarrow> 'c bin_parser \<Rightarrow> metadata_t \<Rightarrow> memory \<Rightarrow> u8 list option
    \<Rightarrow> u64 \<Rightarrow> section_t option \<Rightarrow> section_t list \<Rightarrow> 'c loader \<Rightarrow> sgx_status_t \<times> 'c loader" where
  "build_sections_from C P m file bitmap max_rva last_sec [] s =
     (if needs_gap_page m last_sec then build_gap_page C P last_sec s else (SGX_SUCCESS, s))"
| "build_sections_from C P m file bitmap max_rva last_sec (sec # secs) s =
     and_then
       (and_then
          (if gap_before m last_sec sec then build_gap_page C P last_sec s else (SGX_SUCCESS, s))
          (build_mem_region C P (section_region file bitmap sec)))
       (if sec_rva sec > max_rva
        then build_sections_from C P m file bitmap (sec_rva sec) (Some sec) secs
        else build_sections_from C P m file bitmap max_rva last_sec secs)"

definition build_sections ::
  "'c enclave_creator \<Rightarrow> 'c bin_parser \<Rightarrow> metadata_t \<Rightarrow> u8 list \<Rightarrow> 'c loader \<Rightarrow> sgx_status_t \<times> 'c loader" where
  "build_sections C P m bitmap s =
     build_sections_from C P m (ld_file s) (Some bitmap) 0 None (bp_sections P) s"

section \<open>Heap, stack and thread contexts\<close>

text \<open>
  The TCS page: the template from the metadata with the addresses relocated by the rva of
  the page. \<^verbatim>\<open>memcpy_s\<close> copies nothing when the template is longer than the page.
\<close>

definition bump_u64 :: "nat \<Rightarrow> u64 \<Rightarrow> bytes \<Rightarrow> bytes" where
  "bump_u64 off d page = put_at page off (le_bytes 8 (of_le (take 8 (drop off page)) + d))"

definition tcs_page :: "metadata_t \<Rightarrow> layout_entry_t \<Rightarrow> u64 \<Rightarrow> bytes" where
  "tcs_page m en rva =
     (let n = unat (le_content_size en);
          zero = replicate 4096 0;
          page = (if n \<le> 4096 then put_at zero 0 (rd (md_mem m) (unat (le_content_offset en)) n) else zero)
      in bump_u64 56 rva (bump_u64 48 rva (bump_u64 16 rva page)))"

definition fill_page :: "u32 \<Rightarrow> bytes" where
  "fill_page w = concat (replicate 1024 (le_bytes 4 w))"

definition context_size :: "layout_entry_t \<Rightarrow> u64" where
  "context_size en = push_bit SE_PAGE_SHIFT (ucast (le_page_count en))"

definition context_region :: "metadata_t \<Rightarrow> layout_entry_t \<Rightarrow> u64 \<Rightarrow> section_info_t" where
  "context_region m en rva = \<lparr>
     rg_mem = md_mem m, rg_raw_data = unat (le_content_offset en),
     rg_raw_data_size = ucast (le_content_size en), rg_rva = rva, rg_virtual_size = context_size en,
     rg_flag = le_si_flags en, rg_bitmap = None\<rparr>"

definition has_attr :: "layout_entry_t \<Rightarrow> u32 \<Rightarrow> bool" where
  "has_attr en a \<longleftrightarrow> ucast (le_attributes en) AND a \<noteq> 0"

definition push_tcs :: "bool \<Rightarrow> u64 \<Rightarrow> bool \<Rightarrow> 'c loader \<Rightarrow> 'c loader" where
  "push_tcs cond rva dyn s =
     s\<lparr>ld_tcs_list := (if cond then ld_tcs_list s @ [(ld_start_addr s + rva, dyn)] else ld_tcs_list s)\<rparr>"

definition build_context ::
  "'c enclave_creator \<Rightarrow> 'c bin_parser \<Rightarrow> metadata_t \<Rightarrow> u64 \<Rightarrow> layout_entry_t
    \<Rightarrow> 'c loader \<Rightarrow> sgx_status_t \<times> 'c loader" where
  "build_context C P m start_rva en s =
     (let rva = start_rva + le_rva en in
      and_then
        (if has_attr en PAGE_ATTR_EADD then
           if le_content_offset en \<noteq> 0 then
             if le_si_flags en = SI_FLAGS_TCS then
               build_pages C P rva (context_size en) (Some (tcs_page m en rva))
                 (sec_info (le_si_flags en)) (ucast (le_attributes en))
                 (push_tcs (\<not> has_attr en PAGE_ATTR_EREMOVE) rva False s)
             else build_mem_region C P (context_region m en rva) s
           else if le_si_flags en \<noteq> SI_FLAG_NONE then
             build_pages C P rva (context_size en)
               (if le_content_size en \<noteq> 0 then Some (fill_page (le_content_size en)) else None)
               (sec_info (le_si_flags en)) (ucast (le_attributes en)) s
           else (SGX_SUCCESS, s)
         else (SGX_SUCCESS, s))
        (\<lambda>s. (SGX_SUCCESS,
           push_tcs (has_attr en PAGE_ATTR_POST_ADD \<and> le_id en = LAYOUT_ID_TCS_DYN) rva True s)))"

definition build_contexts ::
  "'c enclave_creator \<Rightarrow> 'c bin_parser \<Rightarrow> metadata_t \<Rightarrow> layout_t list \<Rightarrow> nat \<Rightarrow> nat \<Rightarrow> u64
    \<Rightarrow> 'c loader \<Rightarrow> sgx_status_t \<times> 'c loader" where
  "build_contexts C P m = layout_walk (build_context C P m)"

text \<open>A function of the creator, run on the loader's state.\<close>

definition on_creator :: "('c \<Rightarrow> sgx_status_t \<times> 'c) \<Rightarrow> 'c loader \<Rightarrow> sgx_status_t \<times> 'c loader" where
  "on_creator f s = (case f (ld_creator s) of (ret, c) \<Rightarrow> (ret, s\<lparr>ld_creator := c\<rparr>))"

definition post_init_entry ::
  "'c enclave_creator \<Rightarrow> u64 \<Rightarrow> layout_entry_t \<Rightarrow> 'c loader \<Rightarrow> sgx_status_t \<times> 'c loader" where
  "post_init_entry C delta en s =
     (if has_attr en PAGE_ATTR_POST_REMOVE then
        let start_addr = le_rva en + delta + ld_start_addr s in
        on_creator (trim_range C start_addr (start_addr + context_size en)) s
      else (SGX_SUCCESS, s))"

definition post_init_action ::
  "'c enclave_creator \<Rightarrow> layout_t list \<Rightarrow> nat \<Rightarrow> nat \<Rightarrow> u64 \<Rightarrow> 'c loader \<Rightarrow> sgx_status_t \<times> 'c loader" where
  "post_init_action C = layout_walk (post_init_entry C)"

definition post_init_commit_entry ::
  "'c enclave_creator \<Rightarrow> u64 \<Rightarrow> layout_entry_t \<Rightarrow> 'c loader \<Rightarrow> sgx_status_t \<times> 'c loader" where
  "post_init_commit_entry C delta en s =
     (if has_attr en PAGE_ATTR_POST_REMOVE then
        let start_addr = le_rva en + delta + ld_start_addr s in
        for_each (\<lambda>i. on_creator (trim_accept C (start_addr + push_bit SE_PAGE_SHIFT (of_nat i))))
          [0..<unat (le_page_count en)] s
      else (SGX_SUCCESS, s))"

definition post_init_action_commit ::
  "'c enclave_creator \<Rightarrow> layout_t list \<Rightarrow> nat \<Rightarrow> nat \<Rightarrow> u64 \<Rightarrow> 'c loader \<Rightarrow> sgx_status_t \<times> 'c loader" where
  "post_init_action_commit C = layout_walk (post_init_commit_entry C)"

definition context_prot :: "layout_entry_t \<Rightarrow> u64" where
  "context_prot en =
     (if le_si_flags en = SI_FLAG_NONE then SI_FLAG_NONE AND SI_MASK_MEM_ATTRIBUTE
      else if has_attr en PAGE_ATTR_EADD \<and> has_attr en PAGE_ATTR_EREMOVE
        then SI_FLAG_NONE AND SI_MASK_MEM_ATTRIBUTE
      else SI_FLAGS_RW AND SI_MASK_MEM_ATTRIBUTE)"

definition protect_entry ::
  "'c enclave_creator \<Rightarrow> u64 \<Rightarrow> layout_entry_t \<Rightarrow> 'c loader \<Rightarrow> sgx_status_t \<times> 'c loader" where
  "protect_entry C delta en s =
     (case mprotect C (ld_start_addr s + (le_rva en + delta)) (context_size en) (context_prot en)
             (ld_creator s) of
        (ret, c) \<Rightarrow> (if ret \<noteq> 0 then SGX_ERROR_UNEXPECTED else SGX_SUCCESS, s\<lparr>ld_creator := c\<rparr>))"

definition set_context_protection ::
  "'c enclave_creator \<Rightarrow> layout_t list \<Rightarrow> nat \<Rightarrow> nat \<Rightarrow> u64 \<Rightarrow> 'c loader \<Rightarrow> sgx_status_t \<times> 'c loader" where
  "set_context_protection C = layout_walk (protect_entry C)"

definition set_memory_protection ::
  "'c enclave_creator \<Rightarrow> 'c bin_parser \<Rightarrow> metadata_t \<Rightarrow> bool \<Rightarrow> 'c loader \<Rightarrow> sgx_status_t \<times> 'c loader" where
  "set_memory_protection C P m is_after_initialization s =
     (case bp_set_memory_protection P (ld_start_addr s) is_after_initialization (ld_creator s) of
        (ok, c) \<Rightarrow>
          let s = s\<lparr>ld_creator := c\<rparr> in
          if \<not> ok then (SGX_ERROR_UNEXPECTED, s)
          else and_then
            (if is_after_initialization
                \<and> META_DATA_MAKE_VERSION MAJOR_VERSION MINOR_VERSION \<le> md_version m
                \<and> is_EDMM_supported C (ld_enclave_id s)
             then for_each
               (\<lambda>(start, len, perm) s.
                  case emodpr C start len (ucast perm) (ld_creator s) of (ret, c) \<Rightarrow>
                    (if ret \<noteq> SGX_SUCCESS then SGX_ERROR_UNEXPECTED else SGX_SUCCESS, s\<lparr>ld_creator := c\<rparr>))
               (bp_get_pages_to_protect P (ld_start_addr s)) s
             else (SGX_SUCCESS, s))
            (set_context_protection C (layout_table m) 0 (length (layout_table m)) 0))"

section \<open>The MAGE section\<close>

primrec build_mage_pages_loop ::
  "'c enclave_creator \<Rightarrow> nat \<Rightarrow> u64 \<Rightarrow> bytes \<Rightarrow> 'c loader \<Rightarrow> sgx_status_t \<times> 'c loader" where
  "build_mage_pages_loop C 0 rva src s = (SGX_SUCCESS, s)"
| "build_mage_pages_loop C (Suc n) rva src s =
     and_then (add_page C (Some src) rva (sec_info 0x201) 3 s)
       (build_mage_pages_loop C n (rva + SE_PAGE_SIZE) src)"

definition build_mage_pages ::
  "'c enclave_creator \<Rightarrow> 'c bin_parser \<Rightarrow> 'c loader \<Rightarrow> sgx_status_t \<times> 'c loader" where
  "build_mage_pages C P s =
     (case get_mage_section_ex P of
        None \<Rightarrow> (SGX_SUCCESS, s)
      | Some sec \<Rightarrow>
          build_mage_pages_loop C (page_count_of (sec_virtual_size sec)) (sec_rva sec)
            (rd (ld_file s) (unat (sec_offset sec)) 4096) s)"

section \<open>Building and loading the image\<close>

definition INTEL_VENDOR_ID :: u32 where "INTEL_VENDOR_ID = 0x8086"
definition AE_PRODUCT_ID :: u16 where "AE_PRODUCT_ID = 1"

definition is_ae :: "enclave_css_t \<Rightarrow> bool" where
  "is_ae css \<longleftrightarrow> INTEL_VENDOR_ID = css_module_vendor css \<and> AE_PRODUCT_ID = css_isv_prod_id css"

definition zero_secs :: secs_t where
  "zero_secs = \<lparr>secs_size = 0, secs_base = 0, secs_ssa_frame_size = 0, secs_misc_select = 0,
     secs_attributes = \<lparr>attr_flags = 0, attr_xfrm = 0\<rparr>, secs_mr_enclave = replicate 32 0,
     secs_mr_signer = replicate 32 0, secs_config_id = replicate 64 0, secs_isv_prod_id = 0,
     secs_isv_svn = 0, secs_config_svn = 0\<rparr>"

definition secs_of ::
  "metadata_t \<Rightarrow> sgx_attributes_t \<Rightarrow> bytes option \<Rightarrow> u16 \<Rightarrow> sgx_misc_attribute_t \<Rightarrow> secs_t" where
  "secs_of m attrs config_id config_svn misc_attr = zero_secs\<lparr>
     secs_base := 0, secs_size := md_enclave_size m, secs_misc_select := misc_select misc_attr,
     secs_attributes := attrs, secs_ssa_frame_size := md_ssa_frame_size m,
     secs_config_id := (case config_id of None \<Rightarrow> secs_config_id zero_secs | Some c \<Rightarrow> c),
     secs_config_svn := config_svn\<rparr>"

definition build_secs ::
  "'c enclave_creator \<Rightarrow> metadata_t \<Rightarrow> sgx_attributes_t \<Rightarrow> bytes option \<Rightarrow> u16 \<Rightarrow> sgx_misc_attribute_t
    \<Rightarrow> 'c loader \<Rightarrow> sgx_status_t \<times> 'c loader" where
  "build_secs C m attrs config_id config_svn misc_attr s =
     (case create_enclave C (secs_of m attrs config_id config_svn misc_attr)
             (is_ae (md_enclave_css m)) (ld_creator s) of
        (ret, secs, out, c) \<Rightarrow>
          (ret, s\<lparr>ld_secs := secs\<lparr>secs_mr_enclave := css_enclave_hash (md_enclave_css m)\<rparr>,
                 ld_enclave_id := (case out of None \<Rightarrow> ld_enclave_id s | Some (i, a) \<Rightarrow> i),
                 ld_start_addr := (case out of None \<Rightarrow> ld_start_addr s | Some (i, a) \<Rightarrow> a),
                 ld_creator := c\<rparr>))"

definition apply_patch :: "metadata_t \<Rightarrow> patch_entry_t \<Rightarrow> memory \<Rightarrow> memory" where
  "apply_patch m p file =
     wr file (unat (pe_dst p)) (rd (md_mem m) (unat (pe_src p)) (unat (pe_size p)))"

definition patch_file :: "metadata_t \<Rightarrow> memory \<Rightarrow> memory" where
  "patch_file m file = fold (apply_patch m) (patch_table m) file"

text \<open>The part of \<^verbatim>\<open>build_image\<close> between the patch step and the \<^verbatim>\<open>fail\<close> label.\<close>

definition build_body ::
  "'c enclave_creator \<Rightarrow> 'c bin_parser \<Rightarrow> metadata_t \<Rightarrow> u8 list \<Rightarrow> 'c loader \<Rightarrow> sgx_status_t \<times> 'c loader" where
  "build_body C P m bitmap s =
     and_then (build_sections C P m bitmap s)
       (\<lambda>s. and_then (build_contexts C P m (layout_table m) 0 (length (layout_table m)) 0 s)
         (build_mage_pages C P))"

definition build_image ::
  "'c enclave_creator \<Rightarrow> 'c bin_parser \<Rightarrow> metadata_t \<Rightarrow> sgx_attributes_t \<Rightarrow> bytes option \<Rightarrow> u16
    \<Rightarrow> sgx_misc_attribute_t \<Rightarrow> 'c loader \<Rightarrow> sgx_status_t \<times> 'c loader" where
  "build_image C P m attrs config_id config_svn misc_attr s =
     and_then (build_secs C m attrs config_id config_svn misc_attr s)
       (\<lambda>s. case bp_get_reloc_bitmap P (ld_file s) of
          None \<Rightarrow> (SGX_ERROR_INVALID_ENCLAVE, s)
        | Some bitmap \<Rightarrow>
            let s = s\<lparr>ld_file := patch_file m (ld_file s)\<rparr> in
            (case and_then (build_body C P m bitmap s)
                    (\<lambda>s. on_creator (init_enclave C (ld_start_addr s) (md_enclave_css m)) s) of
               (ret, s) \<Rightarrow>
                 if ret = SGX_SUCCESS then
                   (SGX_SUCCESS, if use_se_hw C then snd (set_memory_protection C P m False s) else s)
                 else (ret, snd (on_creator (destroy_enclave C (ld_start_addr s) (secs_size (ld_secs s))) s))))"

definition load_enclave ::
  "'c enclave_creator \<Rightarrow> 'c bin_parser \<Rightarrow> u32 \<Rightarrow> metadata_t option \<Rightarrow> bytes option \<Rightarrow> u16
    \<Rightarrow> 'c loader \<Rightarrow> sgx_status_t \<times> 'c loader" where
  "load_enclave C P debug md config_id config_svn s =
     (let ret = validate_metadata (bp_enclave_max_size P) md in
      case md of
        None \<Rightarrow> (ret, s)
      | Some m \<Rightarrow>
          if ret \<noteq> SGX_SUCCESS then (ret, s)
          else (case get_misc_attr C m debug (ld_creator s) of
            (ret, attr, c) \<Rightarrow>
              let s = s\<lparr>ld_creator := c\<rparr> in
              if ret \<noteq> SGX_SUCCESS then (ret, s)
              else (case build_image C P m (secs_attr attr) config_id config_svn attr s of
                (ret, s) \<Rightarrow>
                  if ret = SGX_SUCCESS then
                    (ret, s\<lparr>ld_secs := (ld_secs s)\<lparr>secs_attributes :=
                       (secs_attr attr)\<lparr>attr_flags := attr_flags (secs_attr attr) OR SGX_FLAGS_INITTED\<rparr>\<rparr>\<rparr>)
                  else (ret, s))))"

text \<open>
  The retry loop: an enclave lost to a power transition is loaded again without a bound, a
  memory map conflict at most three more times. A loop that never ends has the value \<^const>\<open>None\<close>.
\<close>

partial_function (option) load_enclave_retry ::
  "('s \<Rightarrow> sgx_status_t \<times> 's) \<Rightarrow> nat \<Rightarrow> 's \<Rightarrow> (sgx_status_t \<times> 's) option" where
  "load_enclave_retry load map_conflict_count s =
     (case load s of (ret, s') \<Rightarrow>
        if ret = SGX_ERROR_ENCLAVE_LOST then load_enclave_retry load map_conflict_count s'
        else if ret = SGX_ERROR_MEMORY_MAP_CONFLICT then
          if map_conflict_count = 0 then Some (ret, s')
          else load_enclave_retry load (map_conflict_count - 1) s'
        else Some (ret, s'))"

definition load_enclave_ex ::
  "'c enclave_creator \<Rightarrow> 'c bin_parser \<Rightarrow> u32 \<Rightarrow> metadata_t option \<Rightarrow> bytes option \<Rightarrow> u16
    \<Rightarrow> 'c loader \<Rightarrow> (sgx_status_t \<times> 'c loader) option" where
  "load_enclave_ex C P debug md config_id config_svn =
     load_enclave_retry (load_enclave C P debug md config_id config_svn) 3"

definition CLoader_destroy_enclave :: "'c enclave_creator \<Rightarrow> 'c loader \<Rightarrow> sgx_status_t \<times> 'c loader" where
  "CLoader_destroy_enclave C s = on_creator (destroy_enclave C (ld_start_addr s) (secs_size (ld_secs s))) s"

text \<open>The constructor.\<close>

definition CLoader :: "memory \<Rightarrow> 'c \<Rightarrow> 'c loader" where
  "CLoader file c = \<lparr>ld_enclave_id = 0, ld_start_addr = 0, ld_secs = zero_secs, ld_tcs_list = [],
     ld_file = file, ld_creator = c\<rparr>"

section \<open>The pages of an image\<close>

text \<open>The requests that each builder stands for, computed without a creator.\<close>

primrec page_reqs :: "'c bin_parser \<Rightarrow> nat \<Rightarrow> u64 \<Rightarrow> bytes option \<Rightarrow> sec_info_t \<Rightarrow> u32 \<Rightarrow> page_req list" where
  "page_reqs P 0 rva src sinfo attr = []"
| "page_reqs P (Suc n) rva src sinfo attr =
     (if not_skipped P rva then [\<lparr>pq_source = src, pq_rva = rva, pq_sinfo = sinfo, pq_attr = attr\<rparr>] else [])
     @ page_reqs P n (rva + SE_PAGE_SIZE) src sinfo attr"

function region_reqs :: "'c bin_parser \<Rightarrow> section_info_t \<Rightarrow> nat \<Rightarrow> page_req list" where
  "region_reqs P si offset =
     (let rva = rg_rva si + of_nat offset in
      if offset < unat (rg_raw_data_size si) then
        let room = 4096 - unat (PAGE_OFFSET rva);
            sz = min room (unat (rg_raw_data_size si) - offset);
            data = rd (rg_mem si) (rg_raw_data si + offset) sz;
            sinfo = sec_info (region_flags si rva)
        in (if sz = 4096 then page_reqs P 1 rva (Some data) sinfo ADD_EXTEND_PAGE
            else page_reqs P 1 (TRIM_TO_PAGE rva) (Some (partial_page rva data)) sinfo ADD_EXTEND_PAGE)
           @ region_reqs P si (offset + room)
      else if unat (rg_virtual_size si) > offset then
        page_reqs P (page_count_of (ROUND_TO_PAGE (rg_virtual_size si - of_nat offset + PAGE_OFFSET rva)))
          (TRIM_TO_PAGE rva) None (sec_info (rg_flag si)) ADD_EXTEND_PAGE
      else [])"
  by pat_completeness auto
termination
proof (relation "measure (\<lambda>(P, si, offset). unat (rg_raw_data_size si) - offset)", goal_cases)
  case (2 P si offset rva room)
  then show ?case using unat_PAGE_OFFSET_less [of rva] by simp
qed simp

declare region_reqs.simps [simp del]

definition gap_reqs :: "'c bin_parser \<Rightarrow> section_t option \<Rightarrow> page_req list" where
  "gap_reqs P last_sec = (case last_sec of None \<Rightarrow> []
     | Some l \<Rightarrow> page_reqs P 1 (gap_rva l) None (sec_info (sec_si_flags l)) ADD_EXTEND_PAGE)"

fun section_reqs ::
  "'c bin_parser \<Rightarrow> metadata_t \<Rightarrow> memory \<Rightarrow> u8 list option \<Rightarrow> u64 \<Rightarrow> section_t option \<Rightarrow> section_t list
    \<Rightarrow> page_req list" where
  "section_reqs P m file bitmap max_rva last_sec [] =
     (if needs_gap_page m last_sec then gap_reqs P last_sec else [])"
| "section_reqs P m file bitmap max_rva last_sec (sec # secs) =
     (if gap_before m last_sec sec then gap_reqs P last_sec else [])
     @ region_reqs P (section_region file bitmap sec) 0
     @ (if sec_rva sec > max_rva then section_reqs P m file bitmap (sec_rva sec) (Some sec) secs
        else section_reqs P m file bitmap max_rva last_sec secs)"

definition context_reqs :: "'c bin_parser \<Rightarrow> metadata_t \<Rightarrow> u64 \<Rightarrow> layout_entry_t \<Rightarrow> page_req list" where
  "context_reqs P m start_rva en =
     (let rva = start_rva + le_rva en; n = page_count_of (context_size en) in
      if has_attr en PAGE_ATTR_EADD then
        if le_content_offset en \<noteq> 0 then
          if le_si_flags en = SI_FLAGS_TCS then
            page_reqs P n rva (Some (tcs_page m en rva)) (sec_info (le_si_flags en)) (ucast (le_attributes en))
          else region_reqs P (context_region m en rva) 0
        else if le_si_flags en \<noteq> SI_FLAG_NONE then
          page_reqs P n rva (if le_content_size en \<noteq> 0 then Some (fill_page (le_content_size en)) else None)
            (sec_info (le_si_flags en)) (ucast (le_attributes en))
        else []
      else [])"

definition contexts_reqs :: "'c bin_parser \<Rightarrow> metadata_t \<Rightarrow> page_req list" where
  "contexts_reqs P m = concat (map (\<lambda>(d, en). context_reqs P m d en)
     (layout_seq (layout_table m) 0 (length (layout_table m)) 0))"

primrec mage_page_reqs :: "nat \<Rightarrow> u64 \<Rightarrow> bytes \<Rightarrow> page_req list" where
  "mage_page_reqs 0 rva src = []"
| "mage_page_reqs (Suc n) rva src =
     \<lparr>pq_source = Some src, pq_rva = rva, pq_sinfo = sec_info 0x201, pq_attr = 3\<rparr>
     # mage_page_reqs n (rva + SE_PAGE_SIZE) src"

definition mage_reqs :: "'c bin_parser \<Rightarrow> memory \<Rightarrow> page_req list" where
  "mage_reqs P file = (case get_mage_section_ex P of None \<Rightarrow> []
     | Some sec \<Rightarrow> mage_page_reqs (page_count_of (sec_virtual_size sec)) (sec_rva sec)
         (rd file (unat (sec_offset sec)) 4096))"

definition image_pages :: "'c bin_parser \<Rightarrow> metadata_t \<Rightarrow> u8 list \<Rightarrow> memory \<Rightarrow> page_req list" where
  "image_pages P m bitmap file =
     section_reqs P m file (Some bitmap) 0 None (bp_sections P) @ contexts_reqs P m @ mage_reqs P file"

section \<open>Refinement: the loader hands over the pages of the image\<close>

lemma runs_build_pages_loop:
  "runs C (page_reqs P n rva src sinfo attr) (build_pages_loop C P n rva src sinfo attr)"
proof (induction n arbitrary: rva)
  case 0
  show ?case by (simp add: runs_def)
next
  case (Suc n)
  have "runs C (if not_skipped P rva
        then [\<lparr>pq_source = src, pq_rva = rva, pq_sinfo = sinfo, pq_attr = attr\<rparr>] else [])
      (\<lambda>s. if not_skipped P rva then add_page C src rva sinfo attr s else (SGX_SUCCESS, s))"
    by (rule runs_if) (simp_all add: runs_add_page)
  from runs_and_then [OF this Suc.IH] show ?case by (simp add: runs_def)
qed

lemma runs_build_pages:
  "runs C (page_reqs P (page_count_of sz) rva src sinfo attr) (build_pages C P rva sz src sinfo attr)"
  unfolding build_pages_def by (rule runs_build_pages_loop)

lemma page_count_page [simp]: "page_count_of SE_PAGE_SIZE = 1"
  by (simp add: page_count_of_def SE_PAGE_SIZE_def)

lemma runs_build_page:
  "runs C (page_reqs P 1 rva src sinfo attr) (build_pages C P rva SE_PAGE_SIZE src sinfo attr)"
  using runs_build_pages [of C P SE_PAGE_SIZE rva src sinfo attr] by simp

lemma runs_build_gap_page: "runs C (gap_reqs P last_sec) (build_gap_page C P last_sec)"
proof (cases last_sec)
  case None
  show ?thesis unfolding gap_reqs_def None option.case
    by (rule runs_eq [OF runs_skip]) (simp add: build_gap_page_def)
next
  case (Some l)
  show ?thesis unfolding gap_reqs_def Some option.case
    by (rule runs_eq [OF runs_build_page]) (simp add: build_gap_page_def)
qed

lemma runs_build_mage_pages_loop:
  "runs C (mage_page_reqs n rva src) (build_mage_pages_loop C n rva src)"
proof (induction n arbitrary: rva)
  case 0
  show ?case by (simp add: runs_def)
next
  case (Suc n)
  show ?case using runs_and_then [OF runs_add_page Suc.IH] by (simp add: runs_def)
qed

text \<open>
  The contract of a creator that runs no hardware enclave: relocation pages need no
  \<^verbatim>\<open>mprotect\<close>, and no protection is set after initialisation.
\<close>

locale software_creator =
  fixes C :: "'c enclave_creator"
  assumes no_hw: "\<not> use_se_hw C"
begin

lemma protect_reloc_page_skip [simp]: "protect_reloc_page C si rva s = (SGX_SUCCESS, s)"
  by (simp add: protect_reloc_page_def no_hw)

lemma runs_build_mem_region_from:
  "runs C (region_reqs P si offset) (build_mem_region_from C P si offset)"
proof (induction P si offset rule: region_reqs.induct)
  case (1 P si offset)
  define rva where "rva = rg_rva si + of_nat offset"
  define room where "room = 4096 - unat (PAGE_OFFSET rva)"
  define sz where "sz = min room (unat (rg_raw_data_size si) - offset)"
  define data where "data = rd (rg_mem si) (rg_raw_data si + offset) sz"
  let ?sinfo = "sec_info (region_flags si rva)"
  show ?case
  proof (cases "offset < unat (rg_raw_data_size si)")
    case True
    have IH: "runs C (region_reqs P si (offset + room)) (build_mem_region_from C P si (offset + room))"
      by (rule 1 [OF rva_def True room_def sz_def data_def refl])
    have page: "runs C
        (if sz = 4096 then page_reqs P 1 rva (Some data) ?sinfo ADD_EXTEND_PAGE
         else page_reqs P 1 (TRIM_TO_PAGE rva) (Some (partial_page rva data)) ?sinfo ADD_EXTEND_PAGE)
        (\<lambda>s. if sz = 4096 then build_pages C P rva SE_PAGE_SIZE (Some data) ?sinfo ADD_EXTEND_PAGE s
             else build_partial_page C P rva data ?sinfo ADD_EXTEND_PAGE s)"
      by (rule runs_if) (simp_all only: runs_build_page build_partial_page_def)
    show ?thesis
      by (subst region_reqs.simps)
        (use True in \<open>simp only: Let_def if_True rva_def [symmetric] room_def [symmetric]
            sz_def [symmetric] data_def [symmetric]\<close>,
          rule runs_eq [OF runs_and_then [OF page IH]],
          subst build_mem_region_from.simps,
          use True in \<open>simp only: Let_def if_True rva_def [symmetric] room_def [symmetric]
            sz_def [symmetric] data_def [symmetric] protect_reloc_page_skip and_then_Success\<close>)
  next
    case False
    show ?thesis
    proof (cases "unat (rg_virtual_size si) > offset")
      case True
      show ?thesis using False True
        by (subst region_reqs.simps, simp only: Let_def if_True if_False)
          (rule runs_eq [OF runs_build_pages], subst build_mem_region_from.simps,
            simp only: Let_def if_True if_False)
    next
      case novirt: False
      show ?thesis using False novirt
        by (subst region_reqs.simps, simp only: Let_def if_False)
          (rule runs_eq [OF runs_skip], subst build_mem_region_from.simps,
            simp only: Let_def if_False)
    qed
  qed
qed

lemma runs_build_mem_region: "runs C (region_reqs P si 0) (build_mem_region C P si)"
  unfolding build_mem_region_def by (rule runs_build_mem_region_from)

lemma runs_build_sections_from:
  "runs C (section_reqs P m file bitmap max_rva last_sec secs)
     (build_sections_from C P m file bitmap max_rva last_sec secs)"
proof (induction secs arbitrary: max_rva last_sec)
  case Nil
  have "runs C (if needs_gap_page m last_sec then gap_reqs P last_sec else [])
      (\<lambda>s. if needs_gap_page m last_sec then build_gap_page C P last_sec s else (SGX_SUCCESS, s))"
    by (rule runs_if) (simp_all add: runs_build_gap_page)
  then show ?case by (simp add: runs_def)
next
  case (Cons sec secs)
  have gap: "runs C (if gap_before m last_sec sec then gap_reqs P last_sec else [])
      (\<lambda>s. if gap_before m last_sec sec then build_gap_page C P last_sec s else (SGX_SUCCESS, s))"
    by (rule runs_if) (simp_all add: runs_build_gap_page)
  note region = runs_and_then [OF gap runs_build_mem_region [of P "section_region file bitmap sec"]]
  have rest: "runs C (if sec_rva sec > max_rva then section_reqs P m file bitmap (sec_rva sec) (Some sec) secs
        else section_reqs P m file bitmap max_rva last_sec secs)
      (if sec_rva sec > max_rva then build_sections_from C P m file bitmap (sec_rva sec) (Some sec) secs
        else build_sections_from C P m file bitmap max_rva last_sec secs)"
    using Cons.IH by auto
  show ?case unfolding section_reqs.simps append_assoc [symmetric]
    by (rule runs_eq [OF runs_and_then [OF region rest]]) (simp only: build_sections_from.simps)
qed

lemma runs_build_context: "runs C (context_reqs P m d en) (build_context C P m d en)"
proof -
  let ?rva = "d + le_rva en"
  let ?main = "\<lambda>s. if has_attr en PAGE_ATTR_EADD then
           if le_content_offset en \<noteq> 0 then
             if le_si_flags en = SI_FLAGS_TCS then
               build_pages C P ?rva (context_size en) (Some (tcs_page m en ?rva))
                 (sec_info (le_si_flags en)) (ucast (le_attributes en))
                 (push_tcs (\<not> has_attr en PAGE_ATTR_EREMOVE) ?rva False s)
             else build_mem_region C P (context_region m en ?rva) s
           else if le_si_flags en \<noteq> SI_FLAG_NONE then
             build_pages C P ?rva (context_size en)
               (if le_content_size en \<noteq> 0 then Some (fill_page (le_content_size en)) else None)
               (sec_info (le_si_flags en)) (ucast (le_attributes en)) s
           else (SGX_SUCCESS, s)
         else (SGX_SUCCESS, s)"
  have main: "runs C (context_reqs P m d en) ?main"
    unfolding context_reqs_def Let_def push_tcs_def
    by (intro runs_if runs_tcs runs_build_pages runs_build_mem_region runs_success)
  have post: "runs C [] (\<lambda>s. (SGX_SUCCESS, push_tcs b ?rva True s))" for b
    unfolding push_tcs_def by (rule runs_tcs [OF runs_success])
  show ?thesis
    using runs_and_then [OF main post] by (simp add: runs_def build_context_def Let_def)
qed

lemma runs_build_contexts:
  "runs C (contexts_reqs P m) (build_contexts C P m (layout_table m) 0 (length (layout_table m)) 0)"
  unfolding contexts_reqs_def build_contexts_def
  by (rule runs_eq [OF runs_for_each, OF _ layout_walk_seq])
    (simp add: runs_build_context case_prod_unfold)

text \<open>The body of \<^verbatim>\<open>build_image\<close>, on the file as it is after the patch step.\<close>

lemma build_body_pages:
  assumes "build_body C P m bitmap s = (ret, t)"
  shows "for_each (add_req C (ld_start_addr s)) (image_pages P m bitmap (ld_file s)) (ld_creator s)
      = (ret, ld_creator t)"
    and "same_frame t s"
proof -
  define img where "img = ld_file s"
  let ?secs = "build_sections_from C P m img (Some bitmap) 0 None (bp_sections P)"
  let ?ctx = "build_contexts C P m (layout_table m) 0 (length (layout_table m)) 0"
  let ?mage = "\<lambda>s. case get_mage_section_ex P of None \<Rightarrow> (SGX_SUCCESS, s)
      | Some sec \<Rightarrow> build_mage_pages_loop C (page_count_of (sec_virtual_size sec)) (sec_rva sec)
            (rd img (unat (sec_offset sec)) 4096) s"
  have "runs C (mage_reqs P img) ?mage"
    unfolding mage_reqs_def
    by (cases "get_mage_section_ex P") (simp_all add: runs_build_mage_pages_loop [unfolded runs_def] runs_def)
  then have r: "runs C (image_pages P m bitmap img) (\<lambda>s. and_then (?secs s) (\<lambda>s. and_then (?ctx s) ?mage))"
    unfolding image_pages_def by (intro runs_and_then runs_build_sections_from runs_build_contexts)
  have "build_body C P m bitmap s = and_then (?secs s) (\<lambda>s. and_then (?ctx s) ?mage)"
  proof -
    obtain r1 t1 where 1: "?secs s = (r1, t1)" by fastforce
    obtain r2 t2 where 2: "?ctx t1 = (r2, t2)" by fastforce
    have "ld_file t2 = img"
      using runs_outcome(2) [OF runs_build_sections_from 1] runs_outcome(2) [OF runs_build_contexts 2]
      by (simp add: same_frame_def img_def)
    then show ?thesis
      by (simp add: build_body_def build_sections_def img_def [symmetric] 1 2 and_then_def
          build_mage_pages_def split: option.split)
  qed
  with assms r show "for_each (add_req C (ld_start_addr s)) (image_pages P m bitmap (ld_file s)) (ld_creator s)
      = (ret, ld_creator t)" and "same_frame t s"
    using runs_outcome [OF r, of s ret t] by (simp_all add: img_def)
qed

end

section \<open>Retrying\<close>

text \<open>The loop ends at once when the outcome is neither of the two that are retried.\<close>

lemma load_enclave_retry_once:
  "load s = (ret, t) \<Longrightarrow> ret \<notin> {SGX_ERROR_ENCLAVE_LOST, SGX_ERROR_MEMORY_MAP_CONFLICT} \<Longrightarrow>
     load_enclave_retry load n s = Some (ret, t)"
  by (subst load_enclave_retry.simps) simp

lemma load_enclave_retry_conflicts:
  assumes "\<And>k. k \<le> n \<Longrightarrow> fst (load (((\<lambda>s. snd (load s)) ^^ k) s)) = SGX_ERROR_MEMORY_MAP_CONFLICT"
  shows "load_enclave_retry load n s
     = Some (SGX_ERROR_MEMORY_MAP_CONFLICT, ((\<lambda>s. snd (load s)) ^^ Suc n) s)"
  using assms
proof (induction n arbitrary: s)
  case 0
  then show ?case using "0" [of 0] by (subst load_enclave_retry.simps) (auto split: prod.split)
next
  case (Suc n)
  obtain t where t: "load s = (SGX_ERROR_MEMORY_MAP_CONFLICT, t)"
    using Suc.prems [of 0] by (cases "load s") simp
  have "load_enclave_retry load n t
      = Some (SGX_ERROR_MEMORY_MAP_CONFLICT, ((\<lambda>s. snd (load s)) ^^ Suc n) t)"
    by (rule Suc.IH) (use Suc.prems [of "Suc k" for k] in \<open>simp add: t funpow_Suc_right del: funpow.simps\<close>)
  then show ?case by (subst load_enclave_retry.simps) (simp add: t funpow_Suc_right del: funpow.simps)
qed

end
