(* ===== verification/Pcl_Sha256.thy ===== *)
theory Pcl_Sha256
  imports Complex_Main Sgx_Prelude
begin

text \<open>
  The SHA-256 implementation the repository carries for the protected code loader:
  \<^verbatim>\<open>sdk/protected_code_loader/crypto/pcl_sha256.c\<close> and
  \<^verbatim>\<open>pcl_md32_common.h\<close>, with the wrapper \<^verbatim>\<open>pcl_sha256\<close> of \<^verbatim>\<open>pcl_crypto.cpp\<close>.
  The second half states SHA-256 as FIPS 180-4 does (padding, an unrolled message
  schedule, right rotations) and proves that the implementation, with its sixteen-word
  circular schedule, left rotations and split length counters, computes it.
\<close>

unbundle bit_operations_syntax

section \<open>The implementation\<close>

text \<open>\<^verbatim>\<open>SHA256_CTX\<close> of OpenSSL's \<^verbatim>\<open>sha.h\<close>: the data block is kept as its 64 bytes.\<close>

record SHA256_CTX =
  sha_h :: "u32 list"
  sha_Nl :: u32
  sha_Nh :: u32
  sha_data :: bytes
  sha_num :: u32
  sha_md_len :: u32

definition SHA_CBLOCK :: nat where
  "SHA_CBLOCK = 64"

definition pcl_SHA256_Init :: SHA256_CTX where
  "pcl_SHA256_Init = \<lparr>
     sha_h = [0x6a09e667, 0xbb67ae85, 0x3c6ef372, 0xa54ff53a,
              0x510e527f, 0x9b05688c, 0x1f83d9ab, 0x5be0cd19],
     sha_Nl = 0, sha_Nh = 0, sha_data = replicate SHA_CBLOCK 0, sha_num = 0, sha_md_len = 32\<rparr>"

definition pcl_K256 :: "u32 list" where
  "pcl_K256 = concat [
     [0x428a2f98, 0x71374491, 0xb5c0fbcf, 0xe9b5dba5],
     [0x3956c25b, 0x59f111f1, 0x923f82a4, 0xab1c5ed5],
     [0xd807aa98, 0x12835b01, 0x243185be, 0x550c7dc3],
     [0x72be5d74, 0x80deb1fe, 0x9bdc06a7, 0xc19bf174],
     [0xe49b69c1, 0xefbe4786, 0x0fc19dc6, 0x240ca1cc],
     [0x2de92c6f, 0x4a7484aa, 0x5cb0a9dc, 0x76f988da],
     [0x983e5152, 0xa831c66d, 0xb00327c8, 0xbf597fc7],
     [0xc6e00bf3, 0xd5a79147, 0x06ca6351, 0x14292967],
     [0x27b70a85, 0x2e1b2138, 0x4d2c6dfc, 0x53380d13],
     [0x650a7354, 0x766a0abb, 0x81c2c92e, 0x92722c85],
     [0xa2bfe8a1, 0xa81a664b, 0xc24b8b70, 0xc76c51a3],
     [0xd192e819, 0xd6990624, 0xf40e3585, 0x106aa070],
     [0x19a4c116, 0x1e376c08, 0x2748774c, 0x34b0bcb5],
     [0x391c0cb3, 0x4ed8aa4a, 0x5b9cca4f, 0x682e6ff3],
     [0x748f82ee, 0x78a5636f, 0x84c87814, 0x8cc70208],
     [0x90befffa, 0xa4506ceb, 0xbef9a3f7, 0xc67178f2]]"

text \<open>\<^verbatim>\<open>ROTATE\<close> is the x86 instruction \<^verbatim>\<open>roll\<close>; \<^verbatim>\<open>HOST_c2l\<close> and \<^verbatim>\<open>HOST_l2c\<close> load and
  store with \<^verbatim>\<open>bswapl\<close>, that is, big-endian.\<close>

definition ROTATE :: "u32 \<Rightarrow> nat \<Rightarrow> u32" where
  "ROTATE a n = word_rotl n a"

definition HOST_c2l :: "bytes \<Rightarrow> u32" where
  "HOST_c2l c = of_be (take 4 c)"

definition HOST_l2c :: "u32 \<Rightarrow> bytes" where
  "HOST_l2c l = be_bytes 4 l"

definition Sigma0 :: "u32 \<Rightarrow> u32" where
  "Sigma0 x = ROTATE x 30 XOR ROTATE x 19 XOR ROTATE x 10"

definition Sigma1 :: "u32 \<Rightarrow> u32" where
  "Sigma1 x = ROTATE x 26 XOR ROTATE x 21 XOR ROTATE x 7"

definition sigma0 :: "u32 \<Rightarrow> u32" where
  "sigma0 x = ROTATE x 25 XOR ROTATE x 14 XOR drop_bit 3 x"

definition sigma1 :: "u32 \<Rightarrow> u32" where
  "sigma1 x = ROTATE x 15 XOR ROTATE x 13 XOR drop_bit 10 x"

definition Ch :: "u32 \<Rightarrow> u32 \<Rightarrow> u32 \<Rightarrow> u32" where
  "Ch x y z = (x AND y) XOR (NOT x AND z)"

definition Maj :: "u32 \<Rightarrow> u32 \<Rightarrow> u32 \<Rightarrow> u32" where
  "Maj x y z = (x AND y) XOR (x AND z) XOR (y AND z)"

text \<open>The eight working registers \<open>a\<close> to \<open>h\<close> and the tail of both loop bodies, from
  \<^verbatim>\<open>T1 += h + ...\<close> to \<^verbatim>\<open>a = T1 + T2\<close>.\<close>

type_synonym regs = "u32 \<times> u32 \<times> u32 \<times> u32 \<times> u32 \<times> u32 \<times> u32 \<times> u32"

fun sha_round :: "nat \<Rightarrow> u32 \<Rightarrow> regs \<Rightarrow> regs" where
  "sha_round i w (a, b, c, d, e, f, g, h) =
     (let T1 = w + (h + Sigma1 e + Ch e f g + pcl_K256 ! i);
          T2 = Sigma0 a + Maj a b c
      in (T1 + T2, a, b, c, d + T1, e, f, g))"

text \<open>The body of the first loop (\<open>i < 16\<close>) and of the second (\<open>16 \<le> i < 64\<close>).\<close>

fun sha_load_round :: "bytes \<Rightarrow> nat \<Rightarrow> u32 list \<times> regs \<Rightarrow> u32 list \<times> regs" where
  "sha_load_round data i (X, r) =
     (let l = HOST_c2l (drop (4 * i) data)
      in (X[i := l], sha_round i l r))"

fun sha_expand_round :: "nat \<Rightarrow> u32 list \<times> regs \<Rightarrow> u32 list \<times> regs" where
  "sha_expand_round i (X, r) =
     (let s0 = sigma0 (X ! ((i + 1) mod 16));
          s1 = sigma1 (X ! ((i + 14) mod 16));
          T1 = X ! (i mod 16) + (s0 + s1 + X ! ((i + 9) mod 16))
      in (X[i mod 16 := T1], sha_round i T1 r))"

fun regs_of :: "u32 list \<Rightarrow> regs" where
  "regs_of hs = (hs ! 0, hs ! 1, hs ! 2, hs ! 3, hs ! 4, hs ! 5, hs ! 6, hs ! 7)"

fun add_regs :: "u32 list \<Rightarrow> regs \<Rightarrow> u32 list" where
  "add_regs hs (a, b, c, d, e, f, g, h) =
     [hs ! 0 + a, hs ! 1 + b, hs ! 2 + c, hs ! 3 + d,
      hs ! 4 + e, hs ! 5 + f, hs ! 6 + g, hs ! 7 + h]"

text \<open>One iteration of \<^verbatim>\<open>while (num--)\<close>: the local array \<^verbatim>\<open>X\<close> starts uninitialised and is
  filled before it is read.\<close>

definition sha_one_block :: "bytes \<Rightarrow> u32 list \<Rightarrow> u32 list" where
  "sha_one_block data hs =
     add_regs hs (snd (fold sha_expand_round [16..<64]
       (fold (sha_load_round data) [0..<16] (replicate 16 0, regs_of hs))))"

primrec sha_blocks :: "nat \<Rightarrow> bytes \<Rightarrow> u32 list \<Rightarrow> u32 list" where
  "sha_blocks 0 data hs = hs"
| "sha_blocks (Suc num) data hs = sha_blocks num (drop 64 data) (sha_one_block data hs)"

definition pcl_sha256_block_data_order :: "SHA256_CTX \<Rightarrow> bytes \<Rightarrow> nat \<Rightarrow> SHA256_CTX" where
  "pcl_sha256_block_data_order ctx data num = ctx\<lparr>sha_h := sha_blocks num data (sha_h ctx)\<rparr>"

definition pcl_SHA256_Update :: "SHA256_CTX \<Rightarrow> bytes \<Rightarrow> SHA256_CTX" where
  "pcl_SHA256_Update c data =
     (if length data = 0 then c
      else let len = of_nat (length data) :: u64;
               l = sha_Nl c + push_bit 3 (ucast len);
               c = (if l < sha_Nl c then c\<lparr>sha_Nh := sha_Nh c + 1\<rparr> else c);
               c = c\<lparr>sha_Nh := sha_Nh c + ucast (drop_bit 29 len)\<rparr>;
               c = c\<lparr>sha_Nl := l\<rparr>;
               n = length data div SHA_CBLOCK;
               c = (if n > 0 then pcl_sha256_block_data_order c data n else c);
               rest = drop (n * SHA_CBLOCK) data
           in if length rest \<noteq> 0
              then c\<lparr>sha_num := of_nat (length rest), sha_data := put_at (sha_data c) 0 rest\<rparr>
              else c)"

definition pcl_SHA256_Final :: "SHA256_CTX \<Rightarrow> bytes \<times> SHA256_CTX" where
  "pcl_SHA256_Final c =
     (let n = unat (sha_num c);
          c = c\<lparr>sha_data := (sha_data c)[n := 0x80]\<rparr>;
          n = n + 1;
          (n, c) =
            (if n > SHA_CBLOCK - 8
             then let c = c\<lparr>sha_data := put_at (sha_data c) n (replicate (SHA_CBLOCK - n) 0)\<rparr>
                  in (0, pcl_sha256_block_data_order c (sha_data c) 1)
             else (n, c));
          c = c\<lparr>sha_data := put_at (sha_data c) n (replicate (SHA_CBLOCK - 8 - n) 0)\<rparr>;
          c = c\<lparr>sha_data := put_at (sha_data c) (SHA_CBLOCK - 8)
                              (HOST_l2c (sha_Nh c) @ HOST_l2c (sha_Nl c))\<rparr>;
          c = pcl_sha256_block_data_order c (sha_data c) 1;
          c = c\<lparr>sha_num := 0, sha_data := replicate SHA_CBLOCK 0\<rparr>
      in (concat (map HOST_l2c (sha_h c)), c))"

text \<open>\<^verbatim>\<open>pcl_sha256\<close>: a null \<^verbatim>\<open>buf\<close> or \<^verbatim>\<open>hash\<close> is \<open>None\<close> or \<open>False\<close>.\<close>

definition pcl_sha256 :: "bytes option \<Rightarrow> bool \<Rightarrow> sgx_status_t \<times> bytes option" where
  "pcl_sha256 buf hash_nonnull =
     (case buf of
        None \<Rightarrow> (SGX_ERROR_INVALID_PARAMETER, None)
      | Some b \<Rightarrow>
          if \<not> hash_nonnull then (SGX_ERROR_INVALID_PARAMETER, None)
          else (SGX_SUCCESS, Some (fst (pcl_SHA256_Final (pcl_SHA256_Update pcl_SHA256_Init b)))))"

section \<open>SHA-256 as FIPS 180-4 states it\<close>

definition fips_big_sigma0 :: "u32 \<Rightarrow> u32" where
  "fips_big_sigma0 x = word_rotr 2 x XOR word_rotr 13 x XOR word_rotr 22 x"

definition fips_big_sigma1 :: "u32 \<Rightarrow> u32" where
  "fips_big_sigma1 x = word_rotr 6 x XOR word_rotr 11 x XOR word_rotr 25 x"

definition fips_sigma0 :: "u32 \<Rightarrow> u32" where
  "fips_sigma0 x = word_rotr 7 x XOR word_rotr 18 x XOR drop_bit 3 x"

definition fips_sigma1 :: "u32 \<Rightarrow> u32" where
  "fips_sigma1 x = word_rotr 17 x XOR word_rotr 19 x XOR drop_bit 10 x"

text \<open>The message schedule: all 64 words, each from the words 2, 7, 15 and 16 places back.\<close>

definition fips_extend :: "u32 list \<Rightarrow> u32 list" where
  "fips_extend W =
     (let t = length W
      in W @ [fips_sigma1 (W ! (t - 2)) + W ! (t - 7) + fips_sigma0 (W ! (t - 15)) + W ! (t - 16)])"

definition fips_words :: "bytes \<Rightarrow> u32 list" where
  "fips_words block = map (\<lambda>i. of_be (take 4 (drop (4 * i) block))) [0..<16]"

definition fips_schedule :: "bytes \<Rightarrow> u32 list" where
  "fips_schedule block = (fips_extend ^^ 48) (fips_words block)"

text \<open>
  The constants of FIPS 180-4, sections 4.2.2 and 5.3.3: the first 32 bits of the fractional
  parts of the cube roots of the first 64 primes, and of the square roots of the first 8.
\<close>

definition fips_primes :: "nat list" where
  "fips_primes = [
     2, 3, 5, 7, 11, 13, 17, 19, 23, 29, 31, 37, 41, 43, 47, 53,
     59, 61, 67, 71, 73, 79, 83, 89, 97, 101, 103, 107, 109, 113, 127, 131,
     137, 139, 149, 151, 157, 163, 167, 173, 179, 181, 191, 193, 197, 199, 211, 223,
     227, 229, 233, 239, 241, 251, 257, 263, 269, 271, 277, 281, 283, 293, 307, 311]"

definition root_frac_bits :: "nat \<Rightarrow> nat \<Rightarrow> u32" where
  "root_frac_bits k p = word_of_int \<lfloor>frac (root k (real p)) * 2 ^ 32\<rfloor>"

definition fips_K :: "u32 list" where
  "fips_K = map (root_frac_bits 3) fips_primes"

fun fips_round :: "nat \<Rightarrow> u32 \<Rightarrow> regs \<Rightarrow> regs" where
  "fips_round t w (a, b, c, d, e, f, g, h) =
     (let T1 = h + fips_big_sigma1 e + ((e AND f) XOR (NOT e AND g)) + fips_K ! t + w;
          T2 = fips_big_sigma0 a + ((a AND b) XOR (a AND c) XOR (b AND c))
      in (T1 + T2, a, b, c, d + T1, e, f, g))"

definition fips_compress :: "bytes \<Rightarrow> u32 list \<Rightarrow> u32 list" where
  "fips_compress block hs =
     add_regs hs (fold (\<lambda>t. fips_round t (fips_schedule block ! t)) [0..<64] (regs_of hs))"

definition fips_IV :: "u32 list" where
  "fips_IV = map (root_frac_bits 2) (take 8 fips_primes)"

definition fips_pad :: "bytes \<Rightarrow> bytes" where
  "fips_pad m = m @ 0x80 # replicate ((119 - length m mod 64) mod 64) 0
                  @ be_bytes 8 (of_nat (8 * length m) :: u64)"

text \<open>\<open>fips_absorb\<close> runs the compression function over the whole blocks of a message;
  its value on a prefix is the chaining value reached there.\<close>

primrec fips_absorb_n :: "nat \<Rightarrow> bytes \<Rightarrow> u32 list \<Rightarrow> u32 list" where
  "fips_absorb_n 0 m hs = hs"
| "fips_absorb_n (Suc n) m hs = fips_absorb_n n (drop 64 m) (fips_compress (take 64 m) hs)"

definition fips_absorb :: "bytes \<Rightarrow> u32 list \<Rightarrow> u32 list" where
  "fips_absorb m hs = fips_absorb_n (length m div 64) m hs"

definition fips_SHA256 :: "bytes \<Rightarrow> bytes" where
  "fips_SHA256 m = concat (map (be_bytes 4) (fips_absorb (fips_pad m) fips_IV))"


section \<open>One block: the circular schedule is the unrolled one\<close>

lemmas fips_sigma_defs =
  fips_big_sigma0_def fips_big_sigma1_def fips_sigma0_def fips_sigma1_def

lemma sigma_fips:
  "Sigma0 x = fips_big_sigma0 x" "Sigma1 x = fips_big_sigma1 x"
  "sigma0 x = fips_sigma0 x" "sigma1 x = fips_sigma1 x"
  by (simp_all add: Sigma0_def Sigma1_def sigma0_def sigma1_def fips_sigma_defs ROTATE_def
      word_rotl_eq_word_rotr)

lemma regs_exhaust:
  obtains a b c d e f g h where "(r :: regs) = (a, b, c, d, e, f, g, h)"
  by (metis surj_pair)

text \<open>
  A fixed-point root is checked by its power: \<open>w\<close> is the fraction of a \<open>k\<close>-th root of \<open>p\<close> with
  integral part \<open>j\<close> when the power of \<open>j * 2 ^ 32 + w\<close> is the last one not above \<open>p * 2 ^ (32 * k)\<close>.
\<close>

definition root_ok :: "nat \<Rightarrow> nat \<Rightarrow> nat \<Rightarrow> nat \<Rightarrow> bool" where
  "root_ok k p j w \<longleftrightarrow> w < 2 ^ 32 \<and> (j * 2 ^ 32 + w) ^ k \<le> p * 2 ^ (32 * k) \<and> p * 2 ^ (32 * k) < (j * 2 ^ 32 + w + 1) ^ k"

lemma root_frac_bits_eq:
  assumes "0 < k" and "root_ok k p j w"
  shows "root_frac_bits k p = of_nat w"
proof -
  let ?r = "root k (real p)" and ?n = "j * 2 ^ 32 + w"
  have pow: "(?r * 2 ^ 32) ^ k = real (p * 2 ^ (32 * k))"
    using assms(1) by (simp add: power_mult_distrib power_mult)
  have "real ?n ^ k \<le> (?r * 2 ^ 32) ^ k"
    unfolding pow of_nat_power [symmetric] using assms(2) by (simp only: root_ok_def of_nat_le_iff)
  then have lo: "real ?n \<le> ?r * 2 ^ 32"
    using assms(1) power_le_imp_le_base by (metis Suc_pred' mult_nonneg_nonneg of_nat_0_le_iff real_root_ge_zero zero_le_numeral zero_le_power)
  have "(?r * 2 ^ 32) ^ k < real (?n + 1) ^ k"
    unfolding pow of_nat_power [symmetric] using assms(2) by (simp only: root_ok_def of_nat_less_iff)
  then have hi: "?r * 2 ^ 32 < real (?n + 1)"
    by (rule power_less_imp_less_base) simp
  have w: "real w < 2 ^ 32" using assms(2) unfolding root_ok_def by (metis of_nat_less_iff of_nat_numeral of_nat_power)
  have "\<lfloor>?r\<rfloor> = int j" using lo hi w by (intro floor_unique) auto
  then have "frac ?r * 2 ^ 32 = ?r * 2 ^ 32 - real j * 2 ^ 32" by (simp add: frac_def algebra_simps)
  then have "\<lfloor>frac ?r * 2 ^ 32\<rfloor> = int w" using lo hi by (intro floor_unique) auto
  then show ?thesis by (simp add: root_frac_bits_def)
qed

lemma root_frac_bits_map:
  assumes "0 < k" and "list_all2 (\<lambda>p w. root_ok k p (j p) (unat w)) ps ws"
  shows "map (root_frac_bits k) ps = ws"
  using assms(2) by (induction rule: list_all2_induct) (auto simp: root_frac_bits_eq [OF assms(1)])

lemma fips_K_eq: "fips_K = pcl_K256"
  unfolding fips_K_def
  by (rule root_frac_bits_map [where j = "\<lambda>p. if p < 8 then 1 else if p < 27 then 2 else if p < 64 then 3
        else if p < 125 then 4 else if p < 216 then 5 else 6"])
    (simp_all add: fips_primes_def pcl_K256_def root_ok_def)

lemma fips_IV_eq: "fips_IV = sha_h pcl_SHA256_Init"
  unfolding fips_IV_def
  by (rule root_frac_bits_map [where j = "\<lambda>p. if p < 4 then 1 else if p < 9 then 2 else if p < 16 then 3 else 4"])
    (simp_all add: fips_primes_def pcl_SHA256_Init_def root_ok_def)

lemma sha_round_fips: "sha_round t w r = fips_round t w r"
  by (rule regs_exhaust [of r]) (simp add: sigma_fips Ch_def Maj_def Let_def fips_K_eq ac_simps)

lemma length_fips_extend_pow [simp]: "length ((fips_extend ^^ n) W) = length W + n"
  by (induction n) (simp_all add: fips_extend_def Let_def)

lemma fips_extend_pow_nth: "t < length W \<Longrightarrow> (fips_extend ^^ n) W ! t = W ! t"
  by (induction n) (simp_all add: fips_extend_def Let_def nth_append)

lemma length_fips_words [simp]: "length (fips_words b) = 16"
  by (simp add: fips_words_def)

lemma fips_schedule_split:
  assumes "n \<le> 48"
  shows "fips_schedule b = (fips_extend ^^ (48 - n)) ((fips_extend ^^ n) (fips_words b))"
proof -
  have "48 = (48 - n) + n" using assms by simp
  then show ?thesis
    unfolding fips_schedule_def by (metis comp_apply funpow_add)
qed

lemma fips_schedule_low: "t < 16 \<Longrightarrow> fips_schedule b ! t = fips_words b ! t"
  by (simp add: fips_schedule_def fips_extend_pow_nth)

lemma fips_schedule_rec:
  assumes "16 \<le> t" "t < 64"
  shows "fips_schedule b ! t =
     fips_sigma1 (fips_schedule b ! (t - 2)) + fips_schedule b ! (t - 7)
     + fips_sigma0 (fips_schedule b ! (t - 15)) + fips_schedule b ! (t - 16)"
proof -
  define W where "W = (fips_extend ^^ (t - 16)) (fips_words b)"
  have len: "length W = t" using assms by (simp add: W_def)
  have "t - 15 = Suc (t - 16)" using assms by simp
  then have S: "fips_schedule b = (fips_extend ^^ (48 - (t - 15))) (fips_extend W)"
    using assms fips_schedule_split [of "t - 15" b] by (simp add: W_def)
  have low: "fips_schedule b ! i = W ! i" if "i < t" for i
    unfolding S using that by (subst fips_extend_pow_nth) (simp_all add: fips_extend_def len nth_append Let_def)
  have "fips_schedule b ! t = fips_extend W ! t"
    unfolding S by (rule fips_extend_pow_nth) (simp add: fips_extend_def len Let_def)
  then show ?thesis
    using assms by (simp add: low) (simp add: fips_extend_def len nth_append Let_def)
qed


lemma HOST_c2l_schedule:
  "i < 16 \<Longrightarrow> HOST_c2l (drop (4 * i) data) = fips_schedule (take 64 data) ! i"
  by (simp add: fips_schedule_low fips_words_def HOST_c2l_def drop_take min_def)

text \<open>After \<open>k\<close> iterations of the first loop the first \<open>k\<close> schedule words are loaded.\<close>

lemma sha_load_loop:
  assumes "length X = 16" and "k \<le> 16"
  shows "fold (sha_load_round data) [0..<k] (X, r) =
    (map ((!) (fips_schedule (take 64 data))) [0..<k] @ drop k X,
     fold (\<lambda>t. fips_round t (fips_schedule (take 64 data) ! t)) [0..<k] r)"
  using assms(2)
proof (induction k)
  case 0
  then show ?case by simp
next
  case (Suc k)
  then have "drop k X = X ! k # drop (Suc k) X"
    using assms(1) by (simp add: Cons_nth_drop_Suc)
  with Suc show ?case
    by (simp add: Let_def HOST_c2l_schedule sha_round_fips list_update_append)
qed

text \<open>
  The invariant of the second loop: the sixteen-word buffer holds the last sixteen
  schedule words, word \<open>t\<close> at index \<open>t mod 16\<close>.
\<close>

definition circ :: "u32 list \<Rightarrow> u32 list \<Rightarrow> nat \<Rightarrow> bool" where
  "circ S X k \<longleftrightarrow> length X = 16 \<and> (\<forall>t. k \<le> t + 16 \<and> t < k \<longrightarrow> X ! (t mod 16) = S ! t)"

lemma circ_step:
  assumes c: "circ (fips_schedule b) X k" and k: "16 \<le> k" "k < 64"
  shows "X ! (k mod 16) + (sigma0 (X ! ((k + 1) mod 16)) + sigma1 (X ! ((k + 14) mod 16))
           + X ! ((k + 9) mod 16)) = fips_schedule b ! k"
    and "circ (fips_schedule b) (X[k mod 16 := fips_schedule b ! k]) (Suc k)"
proof -
  have wrap: "(k - i) mod 16 = (k + j) mod 16" if "i + j = 16" for i j
  proof -
    have "k + j = (k - i) + 16" using that k by simp
    then show ?thesis by (simp only: mod_add_self2)
  qed
  have m: "(k - 16) mod 16 = k mod 16" "(k - 15) mod 16 = (k + 1) mod 16"
    "(k - 2) mod 16 = (k + 14) mod 16" "(k - 7) mod 16 = (k + 9) mod 16"
    using wrap [of 16 0] wrap [of 15 1] wrap [of 2 14] wrap [of 7 9]
    by (simp_all only: add_0_right)
  have X: "X ! (t mod 16) = fips_schedule b ! t" if "k \<le> t + 16" "t < k" for t
    using c that by (simp add: circ_def)
  have "k \<le> k - 16 + 16" "k \<le> k - 15 + 16" "k \<le> k - 2 + 16" "k \<le> k - 7 + 16"
    "k - 16 < k" "k - 15 < k" "k - 2 < k" "k - 7 < k"
    using k by simp_all
  then have "X ! (k mod 16) = fips_schedule b ! (k - 16)"
    "X ! ((k + 1) mod 16) = fips_schedule b ! (k - 15)"
    "X ! ((k + 14) mod 16) = fips_schedule b ! (k - 2)"
    "X ! ((k + 9) mod 16) = fips_schedule b ! (k - 7)"
    using X unfolding m [symmetric] by blast+
  then show "X ! (k mod 16) + (sigma0 (X ! ((k + 1) mod 16)) + sigma1 (X ! ((k + 14) mod 16))
           + X ! ((k + 9) mod 16)) = fips_schedule b ! k"
    using fips_schedule_rec [of k b] k by (simp add: sigma_fips ac_simps)
  have False if "k mod 16 = t mod 16" "k \<le> 15 + t" "t < k" for t
  proof -
    have "16 dvd k - t"
      using that mod_eq_dvd_iff_nat [of t k 16] by simp
    then show False using that by (auto dest: dvd_imp_le)
  qed
  then show "circ (fips_schedule b) (X[k mod 16 := fips_schedule b ! k]) (Suc k)"
    using c by (fastforce simp: circ_def less_Suc_eq nth_list_update)
qed

lemma sha_expand_loop:
  assumes "circ (fips_schedule b) X 16" and "16 \<le> k" "k \<le> 64"
  shows "\<exists>X'. circ (fips_schedule b) X' k \<and>
     fold sha_expand_round [16..<k] (X, r) =
       (X', fold (\<lambda>t. fips_round t (fips_schedule b ! t)) [16..<k] r)"
  using assms(2,3)
proof (induction k rule: dec_induct)
  case base
  then show ?case using assms(1) by simp
next
  case (step k)
  then obtain X' where X': "circ (fips_schedule b) X' k"
    and eq: "fold sha_expand_round [16..<k] (X, r) =
       (X', fold (\<lambda>t. fips_round t (fips_schedule b ! t)) [16..<k] r)"
    by auto
  show ?case
    using circ_step [OF X'] step eq by (simp add: Let_def sha_round_fips)
qed

text \<open>Both loops together; the bounds are variables so that no interval is unrolled.\<close>

lemma sha_both_loops:
  assumes k: "k = 16" and n: "n = 64" and X: "length X = 16"
  shows "snd (fold sha_expand_round [k..<n] (fold (sha_load_round data) [0..<k] (X, r))) =
    fold (\<lambda>t. fips_round t (fips_schedule (take 64 data) ! t)) [0..<n] r"
proof -
  let ?S = "fips_schedule (take 64 data)"
  let ?f = "\<lambda>t. fips_round t (?S ! t)"
  have load: "fold (sha_load_round data) [0..<k] (X, r) = (map ((!) ?S) [0..<k], fold ?f [0..<k] r)"
    using sha_load_loop [of X k data r] X k by simp
  have "circ ?S (map ((!) ?S) [0..<k]) k"
    using k by (simp add: circ_def)
  moreover have "k \<le> n" "n \<le> 64"
    using k n by simp_all
  ultimately obtain X' where
    "fold sha_expand_round [k..<n] (map ((!) ?S) [0..<k], fold ?f [0..<k] r) =
       (X', fold ?f [k..<n] (fold ?f [0..<k] r))"
    using sha_expand_loop [of "take 64 data" "map ((!) ?S) [0..<k]" n "fold ?f [0..<k] r",
        folded k] by blast
  moreover have "[0..<n] = [0..<k] @ [k..<n]"
    using k n upt_add_eq_append [of 0 k 48] by simp
  ultimately show ?thesis
    by (simp only: load fold_append comp_apply snd_conv)
qed

lemma sha_one_block_fips: "sha_one_block data hs = fips_compress (take 64 data) hs"
  unfolding sha_one_block_def fips_compress_def
  by (rule arg_cong [where f = "add_regs hs"], rule sha_both_loops) (rule refl length_replicate)+

lemma sha_blocks_fips: "sha_blocks n data hs = fips_absorb_n n data hs"
  by (induction n arbitrary: data hs) (simp_all add: sha_one_block_fips)


section \<open>Absorbing a message\<close>

lemma fips_absorb_n_append:
  "64 * n \<le> length m \<Longrightarrow> fips_absorb_n n (m @ m') hs = fips_absorb_n n m hs"
  by (induction n arbitrary: m hs) simp_all

lemma fips_absorb_n_add:
  "fips_absorb_n (n + k) m hs = fips_absorb_n k (drop (64 * n) m) (fips_absorb_n n m hs)"
  by (induction n arbitrary: m hs) (simp_all add: add.commute)

lemma fips_absorb_Nil [simp]: "fips_absorb [] hs = hs"
  by (simp add: fips_absorb_def)

text \<open>Whole blocks are absorbed once and for all: the chaining value stands for them.\<close>

lemma fips_absorb_append:
  assumes "64 dvd length m"
  shows "fips_absorb (m @ m') hs = fips_absorb m' (fips_absorb m hs)"
proof -
  obtain n where n: "length m = 64 * n" using assms by (auto elim: dvdE)
  have "length (m @ m') div 64 = n + length m' div 64"
    using n by simp
  then show ?thesis
    using n by (simp add: fips_absorb_def fips_absorb_n_add fips_absorb_n_append)
qed

lemma fips_absorb_block:
  "length b = 64 \<Longrightarrow> fips_absorb b hs = fips_compress b hs"
  by (simp add: fips_absorb_def)

text \<open>The unfinished last block does not count.\<close>

lemma fips_absorb_tail:
  assumes "64 dvd length m" and "length r < 64"
  shows "fips_absorb (m @ r) hs = fips_absorb m hs"
  using fips_absorb_append [OF assms(1), of r hs] assms(2)
  by (simp add: fips_absorb_def [of r])

text \<open>The 64-bit length counter that \<^verbatim>\<open>Nh\<close> and \<^verbatim>\<open>Nl\<close> hold together.\<close>

definition bit_count :: "SHA256_CTX \<Rightarrow> nat" where
  "bit_count c = unat (sha_Nh c) * 2 ^ 32 + unat (sha_Nl c)"

text \<open>The carry between two words: \<^verbatim>\<open>l < Nl\<close> detects it.\<close>

lemma carry_add:
  fixes l d :: u32
  shows "unat (l + d) + (if l + d < l then 2 ^ 32 else 0) = unat l + unat d"
proof (cases "unat l + unat d < 2 ^ 32")
  case True
  then have "unat (l + d) = unat l + unat d"
    by (simp add: unat_word_ariths)
  then show ?thesis by (simp add: word_less_nat_alt)
next
  case False
  then have "unat (l + d) = unat l + unat d - 2 ^ 32"
    using unat_less_exp [of l] unat_less_exp [of d]
    by (simp add: unat_word_ariths le_mod_geq not_less)
  then show ?thesis
    using False unat_less_exp [of d] by (auto simp: word_less_nat_alt)
qed



text \<open>The two halves of \<^verbatim>\<open>len * 8\<close>: the low word and the part added to \<^verbatim>\<open>Nh\<close>.\<close>

lemma unat_len_low:
  fixes x :: u64
  shows "unat (push_bit 3 (ucast x) :: u32) = 8 * (unat x mod 2 ^ 29)"
proof -
  have "unat (push_bit 3 (ucast x) :: u32) = 8 * (unat x mod 2 ^ 32) mod (8 * 2 ^ 29)"
    by (simp add: unsigned_ucast_eq push_bit_eq_mult take_bit_eq_mod unat_word_ariths mult.commute)
  also have "\<dots> = 8 * (unat x mod 2 ^ 32 mod 2 ^ 29)"
    by (rule mult_mod_right [symmetric])
  also have "unat x mod 2 ^ 32 mod 2 ^ 29 = unat x mod 2 ^ 29"
    by (rule mod_mod_cancel) simp
  finally show ?thesis .
qed

lemma unat_len_high:
  fixes x :: u64
  shows "unat (ucast (drop_bit 29 x) :: u32) = (unat x div 2 ^ 29) mod 2 ^ 32"
  by (simp add: unsigned_ucast_eq take_bit_eq_mod drop_bit_eq_div unat_div)

lemma bit_count_update:
  assumes "data \<noteq> []"
  shows "bit_count (pcl_SHA256_Update c data) mod 2 ^ 64
     = (bit_count c + 8 * length data) mod 2 ^ 64"
proof -
  let ?len = "of_nat (length data) :: u64"
  define d :: u32 where "d = push_bit 3 (ucast ?len)"
  define hi :: u32 where "hi = ucast (drop_bit 29 ?len)"
  define L where "L = unat ?len"
  define k where "k = (if sha_Nl c + d < sha_Nl c then (1::nat) else 0)"
  have L: "L mod 2 ^ 64 = length data mod 2 ^ 64"
    by (simp add: L_def unat_of_nat)
  have d: "unat d = 8 * (L mod 2 ^ 29)"
    by (simp only: d_def L_def unat_len_low)
  have hi: "unat hi = (L div 2 ^ 29) mod 2 ^ 32"
    by (simp only: hi_def L_def unat_len_high)
  have Nl: "sha_Nl (pcl_SHA256_Update c data) = sha_Nl c + d"
    and Nh: "sha_Nh (pcl_SHA256_Update c data) = sha_Nh c + of_nat k + hi"
    using assms
    by (simp_all add: pcl_SHA256_Update_def Let_def d_def hi_def k_def pcl_sha256_block_data_order_def)
  have "unat (sha_Nh c + of_nat k + hi) = (unat (sha_Nh c) + k + L div 2 ^ 29) mod 2 ^ 32"
    by (simp add: unat_word_ariths hi k_def mod_simps)
  then have "bit_count (pcl_SHA256_Update c data) mod 2 ^ 64 =
     ((unat (sha_Nh c) + k + L div 2 ^ 29) mod 2 ^ 32 * 2 ^ 32 + unat (sha_Nl c + d)) mod 2 ^ 64"
    by (simp add: bit_count_def Nl Nh)
  also have "(unat (sha_Nh c) + k + L div 2 ^ 29) mod 2 ^ 32 * 2 ^ 32
      = ((unat (sha_Nh c) + k + L div 2 ^ 29) * 2 ^ 32) mod 2 ^ 64"
    by (simp add: mult_mod_left)
  also have "(((unat (sha_Nh c) + k + L div 2 ^ 29) * 2 ^ 32) mod 2 ^ 64 + unat (sha_Nl c + d)) mod 2 ^ 64
     = ((unat (sha_Nh c) + k + L div 2 ^ 29) * 2 ^ 32 + unat (sha_Nl c + d)) mod 2 ^ 64"
    by (rule mod_add_left_eq)
  also have "(unat (sha_Nh c) + k + L div 2 ^ 29) * 2 ^ 32 + unat (sha_Nl c + d)
     = unat (sha_Nh c) * 2 ^ 32 + (L div 2 ^ 29) * 2 ^ 32 + (unat (sha_Nl c) + unat d)"
    using carry_add [of "sha_Nl c" d] by (simp add: algebra_simps k_def split: if_splits)
  also have "\<dots> = bit_count c + 8 * L"
  proof -
    have gen: "8 * (q * 2 ^ 29 + r) = q * 2 ^ 32 + 8 * r" for q r :: nat
      by simp
    have "8 * L = 8 * (L div 2 ^ 29 * 2 ^ 29 + L mod 2 ^ 29)"
      by (simp only: div_mult_mod_eq)
    also have "\<dots> = L div 2 ^ 29 * 2 ^ 32 + 8 * (L mod 2 ^ 29)"
      by (rule gen)
    finally show ?thesis by (simp only: bit_count_def d add.assoc add.commute add.left_commute)
  qed
  finally show ?thesis
    using L by (metis mod_add_right_eq mod_mult_right_eq)
qed


text \<open>The two counters stored big-endian are the 64-bit length field of the padding.\<close>

lemma be_bytes_counters:
  fixes hi lo :: u32
  shows "be_bytes 4 hi @ be_bytes 4 lo = be_bytes 8 (of_nat (unat hi * 2 ^ 32 + unat lo) :: u64)"
proof -
  let ?N = "push_bit 32 (ucast hi) OR ucast lo :: u64"
  have "push_bit 32 (ucast hi) + ucast lo = ?N"
    by (rule disjunctive_add_eq_or) (rule bit_word_eqI, auto simp: bit_simps dest: bit_imp_le_length)
  then have N: "(of_nat (unat hi * 2 ^ 32 + unat lo) :: u64) = ?N"
    by (simp add: push_bit_eq_mult)
  have "le_bytes 8 ?N = le_bytes 4 lo @ le_bytes 4 hi"
  proof (rule nth_equalityI)
    fix i assume "i < length (le_bytes 8 ?N)"
    then have i: "i < 8" by simp
    show "le_bytes 8 ?N ! i = (le_bytes 4 lo @ le_bytes 4 hi) ! i"
    proof (rule bit_word_eqI)
      fix k assume "k < LENGTH(8)"
      then have k: "k < 8" by simp
      show "bit (le_bytes 8 ?N ! i) k = bit ((le_bytes 4 lo @ le_bytes 4 hi) ! i) k"
      proof (cases "i < 4")
        case True
        then show ?thesis using k
          by (simp add: le_bytes_def nth_append bit_simps)
      next
        case False
        then obtain j where j: "i = 4 + j" "j < 4"
          using i by (metis add_less_cancel_left le_Suc_ex not_less numeral_Bit0)
        have "\<not> bit lo (8 * i + k)"
          using j bit_imp_le_length [of lo "8 * i + k"] by auto
        then show ?thesis using k j
          by (simp add: le_bytes_def nth_append bit_simps)
      qed
    qed
  qed simp
  then show ?thesis
    unfolding N be_bytes_def by simp
qed


section \<open>Init, Update, Final\<close>

text \<open>
  \<open>sha_rep c m\<close>: the context \<open>c\<close> stands for the message \<open>m\<close>. The chaining value has
  absorbed the whole blocks of \<open>m\<close>, the counters hold its length in bits, and the data
  block begins with the unfinished rest.
\<close>

definition sha_rep :: "SHA256_CTX \<Rightarrow> bytes \<Rightarrow> bool" where
  "sha_rep c m \<longleftrightarrow>
     sha_h c = fips_absorb m fips_IV \<and>
     bit_count c mod 2 ^ 64 = 8 * length m mod 2 ^ 64 \<and>
     length (sha_data c) = 64 \<and>
     unat (sha_num c) = length m mod 64 \<and>
     take (length m mod 64) (sha_data c) = drop (64 * (length m div 64)) m"

lemma sha_rep_init: "sha_rep pcl_SHA256_Init []"
  by (simp add: sha_rep_def bit_count_def)
    (simp add: fips_IV_eq pcl_SHA256_Init_def SHA_CBLOCK_def)

text \<open>
  \<^verbatim>\<open>pcl_SHA256_Update\<close> drops the code that completes a pending block, so it is correct
  from a context with no pending bytes.
\<close>

lemma sha_h_update:
  "sha_h (pcl_SHA256_Update c d) = fips_absorb d (sha_h c)"
  by (auto simp: pcl_SHA256_Update_def Let_def pcl_sha256_block_data_order_def sha_blocks_fips
      fips_absorb_def SHA_CBLOCK_def)

lemma sha_buffer_update:
  assumes "length (sha_data c) = 64" and "sha_num c = 0"
  shows "unat (sha_num (pcl_SHA256_Update c d)) = length d mod 64"
    and "length (sha_data (pcl_SHA256_Update c d)) = 64"
    and "take (length d mod 64) (sha_data (pcl_SHA256_Update c d)) = drop (64 * (length d div 64)) d"
proof -
  define r where "r = drop (length d div 64 * 64) d"
  have len: "length r = length d mod 64"
    by (simp add: r_def minus_div_mult_eq_mod)
  have lt: "length r < 64" by (simp add: len)
  have num: "sha_num (pcl_SHA256_Update c d) = (if r = [] then 0 else of_nat (length r))"
    and data: "sha_data (pcl_SHA256_Update c d)
       = (if r = [] then sha_data c else r @ drop (length r) (sha_data c))"
    using assms
    by (auto simp: pcl_SHA256_Update_def Let_def pcl_sha256_block_data_order_def
        SHA_CBLOCK_def put_at_def r_def)
  show "unat (sha_num (pcl_SHA256_Update c d)) = length d mod 64"
    using lt by (simp add: num len [symmetric] unat_of_nat)
  show "length (sha_data (pcl_SHA256_Update c d)) = 64"
    using lt assms by (simp add: data)
  have "drop (64 * (length d div 64)) d = r"
    by (simp add: r_def mult.commute)
  then show "take (length d mod 64) (sha_data (pcl_SHA256_Update c d)) = drop (64 * (length d div 64)) d"
    by (simp add: data len [symmetric])
qed

lemma sha_rep_update:
  assumes "sha_rep c m" and "64 dvd length m"
  shows "sha_rep (pcl_SHA256_Update c d) (m @ d)"
proof -
  obtain n where n: "length m = 64 * n" using assms(2) by (auto elim: dvdE)
  have c: "sha_h c = fips_absorb m fips_IV" "length (sha_data c) = 64" "sha_num c = 0"
    "bit_count c mod 2 ^ 64 = 8 * length m mod 2 ^ 64"
    using assms n by (auto simp: sha_rep_def unat_eq_0)
  have b: "bit_count (pcl_SHA256_Update c d) mod 2 ^ 64 = 8 * length (m @ d) mod 2 ^ 64"
  proof (cases "d = []")
    case True
    then show ?thesis using c by (simp add: pcl_SHA256_Update_def)
  next
    case False
    then show ?thesis
      using bit_count_update [OF False, of c] c(4)
      by (simp only: length_append distrib_left) (metis mod_add_left_eq)
  qed
  show ?thesis
    using b c sha_buffer_update [OF c(2,3), of d] n
    by (simp add: sha_rep_def sha_h_update fips_absorb_append assms(2))
qed



text \<open>The last block or two blocks, as \<^verbatim>\<open>pcl_SHA256_Final\<close> lays them out.\<close>

definition final_blocks :: "bytes \<Rightarrow> bytes \<Rightarrow> bytes" where
  "final_blocks r len =
     r @ 0x80 # replicate (if length r < 56 then 55 - length r else 119 - length r) 0 @ len"

lemma fips_pad_final_blocks:
  assumes "m = m0 @ r" and "64 dvd length m0" and "length r < 64"
  shows "fips_pad m = m0 @ final_blocks r (be_bytes 8 (of_nat (8 * length m) :: u64))"
proof -
  have "length m mod 64 = length r"
    using assms by (auto elim!: dvdE)
  moreover have "(119 - length r) mod 64 = (if length r < 56 then 55 - length r else 119 - length r)"
    using assms(3) by (auto simp: le_mod_geq)
  ultimately show ?thesis
    by (simp add: fips_pad_def final_blocks_def assms(1))
qed

lemma absorb_two_blocks:
  assumes "length a = 64" and "length b = 64"
  shows "fips_absorb (a @ b) hs = fips_compress b (fips_compress a hs)"
  using fips_absorb_append [of a b hs] assms by (simp add: fips_absorb_block)

lemma HOST_l2c_eq: "HOST_l2c = be_bytes 4"
  by (rule ext) (simp add: HOST_l2c_def)

lemma sha_final_h:
  assumes d: "length (sha_data c) = 64" and r: "length r < 64"
    and num: "unat (sha_num c) = length r" and tk: "take (length r) (sha_data c) = r"
  shows "fst (pcl_SHA256_Final c) = concat (map (be_bytes 4)
     (fips_absorb (final_blocks r (be_bytes 4 (sha_Nh c) @ be_bytes 4 (sha_Nl c))) (sha_h c)))"
proof -
  let ?len = "be_bytes 4 (sha_Nh c) @ be_bytes 4 (sha_Nl c)"
  have split: "sha_data c = r @ drop (length r) (sha_data c)"
    using tk by (metis append_take_drop_id)
  have upd: "(sha_data c)[length r := 0x80] = r @ 0x80 # drop (Suc (length r)) (sha_data c)"
    using d r tk by (metis upd_conv_take_nth_drop)
  show ?thesis
  proof (cases "length r < 56")
    case True
    then show ?thesis
      using d r
      by (simp add: pcl_SHA256_Final_def Let_def num upd SHA_CBLOCK_def put_at_def
          pcl_sha256_block_data_order_def sha_one_block_fips HOST_l2c_eq final_blocks_def
          fips_absorb_block)
  next
    case False
    let ?a = "r @ 0x80 # replicate (63 - length r) 0"
    let ?b = "replicate 56 0 @ ?len"
    have "final_blocks r ?len = ?a @ ?b"
      using False r by (simp add: final_blocks_def replicate_add [symmetric])
    moreover have "length ?a = 64" "length ?b = 64"
      using r False by simp_all
    ultimately have "fips_absorb (final_blocks r ?len) (sha_h c)
        = fips_compress ?b (fips_compress ?a (sha_h c))"
      by (simp only: absorb_two_blocks)
    then show ?thesis
      using False d r
      by (simp add: pcl_SHA256_Final_def Let_def num upd SHA_CBLOCK_def put_at_def
          pcl_sha256_block_data_order_def sha_one_block_fips HOST_l2c_eq)
  qed
qed


lemma sha_rep_final:
  assumes "sha_rep c m"
  shows "fst (pcl_SHA256_Final c) = fips_SHA256 m"
proof -
  define m0 where "m0 = take (64 * (length m div 64)) m"
  define r where "r = drop (64 * (length m div 64)) m"
  have m: "m = m0 @ r" by (simp add: m0_def r_def)
  have "length m0 = 64 * (length m div 64)"
    by (simp add: m0_def min_absorb2)
  then have m0: "64 dvd length m0" by simp
  have r: "length r = length m mod 64"
    by (simp add: r_def minus_mult_div_eq_mod)
  have rep: "sha_h c = fips_absorb m fips_IV" "length (sha_data c) = 64"
    "unat (sha_num c) = length r" "take (length r) (sha_data c) = r"
    and cnt: "bit_count c mod 2 ^ 64 = 8 * length m mod 2 ^ 64"
    using assms by (simp_all add: sha_rep_def r r_def [symmetric])
  have "(of_nat (bit_count c) :: u64) = of_nat (8 * length m)"
    unfolding word_of_nat_eq_iff take_bit_eq_mod using cnt by simp
  then have len: "be_bytes 4 (sha_Nh c) @ be_bytes 4 (sha_Nl c) = be_bytes 8 (of_nat (8 * length m) :: u64)"
    by (simp only: be_bytes_counters bit_count_def)
  have r64: "length r < 64" by (simp add: r)
  have h: "sha_h c = fips_absorb m0 fips_IV"
    using rep(1) fips_absorb_tail [OF m0 r64, of fips_IV] m by metis
  show ?thesis
    unfolding fips_SHA256_def fips_pad_final_blocks [OF m m0 r64] fips_absorb_append [OF m0]
      h [symmetric] len [symmetric]
    by (rule sha_final_h [OF rep(2) r64 rep(3,4)])
qed

lemma pcl_sha256_digest:
  "fst (pcl_SHA256_Final (pcl_SHA256_Update pcl_SHA256_Init m)) = fips_SHA256 m"
  using sha_rep_final [OF sha_rep_update [OF sha_rep_init, of m]] by simp


text \<open>Chaining values have eight words and digests 32 bytes.\<close>

lemma length_add_regs: "length (add_regs hs r) = 8"
  by (rule regs_exhaust [of r]) simp

lemma length_fips_absorb: "length hs = 8 \<Longrightarrow> length (fips_absorb m hs) = 8"
proof -
  have "length hs = 8 \<Longrightarrow> length (fips_absorb_n n m hs) = 8" for n
    by (induction n arbitrary: m hs) (simp_all add: fips_compress_def length_add_regs)
  then show "length hs = 8 \<Longrightarrow> ?thesis" by (simp add: fips_absorb_def)
qed

lemma length_fips_IV: "length fips_IV = 8"
  by (simp add: fips_IV_eq pcl_SHA256_Init_def)

lemma length_fips_SHA256: "length (fips_SHA256 m) = 32"
proof -
  have "length (concat (map (be_bytes 4) ws)) = 4 * length ws" for ws :: "u32 list"
    by (induction ws) (simp_all add: be_bytes_def)
  then show ?thesis by (simp add: fips_SHA256_def length_fips_absorb length_fips_IV)
qed

section \<open>Properties\<close>

text \<open>
  C5: \<^verbatim>\<open>pcl_sha256\<close>, the hash that the protected code loader computes over its key and that
  the enclave trusts, is SHA-256: on every buffer, whatever its length, it returns success and
  the digest that FIPS 180-4 defines, although it expands the message schedule in a circular
  array of 16 words, keeps the bit length in two 32-bit counters and pads in place.
\<close>
theorem pcl_sha256_is_FIPS:
  "pcl_sha256 (Some msg) True = (SGX_SUCCESS, Some (fips_SHA256 msg))"
  by (simp add: pcl_sha256_def pcl_sha256_digest)

end
