(* ===== verification/Creator_Sign.thy ===== *)
theory Creator_Sign
  imports Enclave_Loader Pcl_Sha256
begin

text \<open>
  \<^verbatim>\<open>EnclaveCreatorST\<close> of \<^verbatim>\<open>sdk/sign_tool/SignTool/enclave_creator_sign.cpp\<close>: the creator that
  the signing tool gives to the loader. It builds no enclave but hashes what the
  instructions ECREATE, EADD and EEXTEND would measure; for MAGE it also keeps the number
  of hashed bytes and the internal state of SHA-256. The digest routines of OpenSSL are a
  parameter with a contract (the locale \<open>evp_sha256\<close>).
\<close>

unbundle bit_operations_syntax

section \<open>The digest interface\<close>

text \<open>
  The EVP calls: \<^const>\<open>None\<close> is a null context or a return value other than 1.
  \<open>evp_md_data\<close> is what \<^verbatim>\<open>m_ctx->md_data\<close> points to, the first 32 bytes of it.
\<close>

record 'h evp =
  EVP_MD_CTX_create :: "'h option"
  EVP_DigestInit_ex :: "'h \<Rightarrow> 'h option"
  EVP_DigestUpdate :: "'h \<Rightarrow> bytes \<Rightarrow> 'h option"
  EVP_DigestFinal_ex :: "'h \<Rightarrow> (bytes \<times> 'h) option"
  evp_md_data :: "'h \<Rightarrow> bytes"

text \<open>The internal state of SHA-256 after whole blocks, as eight little-endian words.\<close>

definition chain_bytes :: "bytes \<Rightarrow> bytes" where
  "chain_bytes m = concat (map (le_bytes 4) (fips_absorb m fips_IV))"

text \<open>
  The contract. \<open>rep h m\<close>: the context \<open>h\<close> has been fed the message \<open>m\<close>. The routines compute
  SHA-256, and \<^verbatim>\<open>md_data\<close> begins with the chaining value (\<^verbatim>\<open>SHA256_CTX.h\<close>).
\<close>

locale evp_sha256 =
  fixes E :: "'h evp" and rep :: "'h \<Rightarrow> bytes \<Rightarrow> bool"
  assumes init: "EVP_MD_CTX_create E = Some h \<Longrightarrow> EVP_DigestInit_ex E h = Some h' \<Longrightarrow> rep h' []"
    and update: "rep h m \<Longrightarrow> 64 dvd length m \<Longrightarrow> EVP_DigestUpdate E h bs = Some h' \<Longrightarrow> rep h' (m @ bs)"
    and final: "rep h m \<Longrightarrow> EVP_DigestFinal_ex E h = Some (d, h') \<Longrightarrow> d = fips_SHA256 m"
    and md_data: "rep h m \<Longrightarrow> 64 dvd length m \<Longrightarrow> evp_md_data E h = chain_bytes m"

section \<open>The creator\<close>

record 'h creator_st =
  m_enclave_hash :: bytes
  m_ctx :: "'h option"
  m_hash_valid_flag :: bool
  m_eid :: u64
  m_quota :: u64
  m_mage :: sgx_mage_entry_t

definition EnclaveCreatorST :: "'h creator_st" where
  "EnclaveCreatorST = \<lparr>m_enclave_hash = replicate 32 0, m_ctx = None, m_hash_valid_flag = False,
     m_eid = 0x44444444, m_quota = 0,
     m_mage = \<lparr>me_size = 0, me_offset = 0, me_digest = replicate 32 0\<rparr>\<rparr>"

definition ecreat_val :: bytes where "ecreat_val = [0x45, 0x43, 0x52, 0x45, 0x41, 0x54, 0x45, 0]"
definition eadd_val :: bytes where "eadd_val = [0x45, 0x41, 0x44, 0x44, 0, 0, 0, 0]"
definition eextend_val :: bytes where "eextend_val = [0x45, 0x45, 0x58, 0x54, 0x45, 0x4E, 0x44, 0]"

text \<open>The 64-byte data blocks.\<close>

definition ecreate_block :: "u32 \<Rightarrow> u64 \<Rightarrow> bytes" where
  "ecreate_block ssa_frame_size sz = ecreat_val @ le_bytes 4 ssa_frame_size @ le_bytes 8 sz @ replicate 44 0"

definition sec_info_bytes :: "sec_info_t \<Rightarrow> bytes" where
  "sec_info_bytes sinfo = le_bytes 8 (si_flags sinfo) @ concat (map (le_bytes 8) (si_reserved sinfo))"

definition eadd_block :: "u64 \<Rightarrow> sec_info_t \<Rightarrow> bytes" where
  "eadd_block page_offset sinfo = eadd_val @ le_bytes 8 page_offset @ take 48 (sec_info_bytes sinfo)"

definition eextend_block :: "u64 \<Rightarrow> bytes" where
  "eextend_block page_offset = eextend_val @ le_bytes 8 page_offset @ replicate 48 0"

text \<open>One \<^verbatim>\<open>EVP_DigestUpdate\<close> of a data block, and \<^verbatim>\<open>m_mage.size += DATA_BLOCK_SIZE\<close>.\<close>

definition hash_block :: "'h evp \<Rightarrow> bytes \<Rightarrow> 'h creator_st \<Rightarrow> sgx_status_t \<times> 'h creator_st" where
  "hash_block E blk c =
     (case m_ctx c of
        None \<Rightarrow> (SGX_ERROR_UNEXPECTED, c)
      | Some h \<Rightarrow>
          (case EVP_DigestUpdate E h blk of
             None \<Rightarrow> (SGX_ERROR_UNEXPECTED, c)
           | Some h' \<Rightarrow> (SGX_SUCCESS, c\<lparr>m_ctx := Some h', m_mage := (m_mage c)\<lparr>me_size := me_size (m_mage c) + 64\<rparr>\<rparr>)))"

definition st_create_enclave ::
  "'h evp \<Rightarrow> secs_t \<Rightarrow> bool \<Rightarrow> 'h creator_st \<Rightarrow> sgx_status_t \<times> secs_t \<times> (u64 \<times> u64) option \<times> 'h creator_st" where
  "st_create_enclave E secs ae c =
     (let c = c\<lparr>m_enclave_hash := replicate 32 0, m_ctx := EVP_MD_CTX_create E\<rparr> in
      case m_ctx c of
        None \<Rightarrow> (SGX_ERROR_UNEXPECTED, secs, None, c)
      | Some h \<Rightarrow>
          (case EVP_DigestInit_ex E h of
             None \<Rightarrow> (SGX_ERROR_UNEXPECTED, secs, None, c)
           | Some h' \<Rightarrow>
               (case hash_block E (ecreate_block (secs_ssa_frame_size secs) (secs_size secs))
                       (c\<lparr>m_ctx := Some h'\<rparr>) of
                  (ret, c) \<Rightarrow>
                    if ret \<noteq> SGX_SUCCESS then (SGX_ERROR_UNEXPECTED, secs, None, c)
                    else (SGX_SUCCESS, secs, Some (m_eid c, secs_base secs), c))))"

text \<open>The sixteen rounds of EEXTEND over a page, four data blocks each.\<close>

definition data_blocks :: "nat \<Rightarrow> bytes \<Rightarrow> bytes list" where
  "data_blocks n data = map (\<lambda>j. take 64 (drop (64 * j) data)) [0..<n]"

primrec eextend_loop ::
  "(bytes \<Rightarrow> 's \<Rightarrow> sgx_status_t \<times> 's) \<Rightarrow> nat \<Rightarrow> u64 \<Rightarrow> bytes \<Rightarrow> 's \<Rightarrow> sgx_status_t \<times> 's" where
  "eextend_loop upd 0 page_offset pdata s = (SGX_SUCCESS, s)"
| "eextend_loop upd (Suc n) page_offset pdata s =
     and_then (upd (eextend_block page_offset) s)
       (\<lambda>s. and_then (for_each upd (data_blocks 4 pdata) s)
          (eextend_loop upd n (page_offset + 256) (drop 256 pdata)))"

definition st_add_enclave_page ::
  "'h evp \<Rightarrow> u64 \<Rightarrow> bytes option \<Rightarrow> u64 \<Rightarrow> sec_info_t \<Rightarrow> u32 \<Rightarrow> 'h creator_st \<Rightarrow> sgx_status_t \<times> 'h creator_st" where
  "st_add_enclave_page E enclave_id src offset sinfo attr c =
     (let source = (case src of None \<Rightarrow> replicate 4096 0 | Some s \<Rightarrow> s) in
      if \<exists>r \<in> set (si_reserved sinfo). r \<noteq> 0 then (SGX_ERROR_UNEXPECTED, c)
      else if si_flags sinfo AND NOT SI_FLAGS_EXTERNAL \<noteq> 0 then (SGX_ERROR_UNEXPECTED, c)
      else if attr AND PAGE_ATTR_EADD = 0 then (SGX_SUCCESS, c)
      else and_then (hash_block E (eadd_block offset sinfo) c)
        (\<lambda>c. and_then
           (if attr AND ADD_EXTEND_PAGE = ADD_EXTEND_PAGE
            then eextend_loop (hash_block E) 16 offset source c else (SGX_SUCCESS, c))
           (\<lambda>c. (SGX_SUCCESS, c\<lparr>m_quota := m_quota c + SE_PAGE_SIZE\<rparr>))))"

definition st_init_enclave ::
  "'h evp \<Rightarrow> u64 \<Rightarrow> enclave_css_t \<Rightarrow> 'h creator_st \<Rightarrow> sgx_status_t \<times> 'h creator_st" where
  "st_init_enclave E enclave_id css c =
     (case m_ctx c of
        None \<Rightarrow> (SGX_ERROR_UNEXPECTED, c)
      | Some h \<Rightarrow>
          let c = c\<lparr>m_mage := (m_mage c)\<lparr>me_digest := take 32 (evp_md_data E h)\<rparr>\<rparr> in
          (case EVP_DigestFinal_ex E h of
             None \<Rightarrow> (SGX_ERROR_UNEXPECTED, c)
           | Some (temp_hash, h') \<Rightarrow>
               (SGX_SUCCESS, c\<lparr>m_ctx := Some h', m_enclave_hash := take 32 temp_hash, m_hash_valid_flag := True\<rparr>)))"

definition st_get_misc_attr ::
  "metadata_t \<Rightarrow> u32 \<Rightarrow> 'h creator_st \<Rightarrow> sgx_status_t \<times> sgx_misc_attribute_t \<times> 'h creator_st" where
  "st_get_misc_attr m flag c =
     (SGX_SUCCESS, \<lparr>secs_attr = \<lparr>attr_flags = 0, attr_xfrm = 0\<rparr>, misc_select = 0\<rparr>, c)"

definition st_destroy_enclave :: "u64 \<Rightarrow> u64 \<Rightarrow> 'h creator_st \<Rightarrow> sgx_status_t \<times> 'h creator_st" where
  "st_destroy_enclave enclave_id enclave_size c = (SGX_SUCCESS, c\<lparr>m_ctx := None\<rparr>)"

definition st_get_enclave_info ::
  "nat \<Rightarrow> 'h creator_st \<Rightarrow> sgx_status_t \<times> (bytes \<times> u64 \<times> sgx_mage_entry_t) option" where
  "st_get_enclave_info sz c =
     (if sz \<noteq> 32 \<or> \<not> m_hash_valid_flag c then (SGX_ERROR_UNEXPECTED, None)
      else (SGX_SUCCESS, Some (m_enclave_hash c, m_quota c, m_mage c)))"

definition st_creator :: "'h evp \<Rightarrow> 'h creator_st enclave_creator" where
  "st_creator E = \<lparr>
     create_enclave = st_create_enclave E,
     add_enclave_page = st_add_enclave_page E,
     init_enclave = st_init_enclave E,
     get_misc_attr = st_get_misc_attr,
     destroy_enclave = st_destroy_enclave,
     use_se_hw = False,
     is_EDMM_supported = (\<lambda>_. False),
     emodpr = (\<lambda>_ _ _ c. (SGX_SUCCESS, c)),
     trim_range = (\<lambda>_ _ c. (SGX_SUCCESS, c)),
     trim_accept = (\<lambda>_ c. (SGX_SUCCESS, c)),
     mprotect = (\<lambda>_ _ _ c. (0, c))\<rparr>"

interpretation st: software_creator "st_creator E"
  by unfold_locales (simp add: st_creator_def)

section \<open>What a page adds to the measurement\<close>

primrec extend_blocks :: "nat \<Rightarrow> u64 \<Rightarrow> bytes \<Rightarrow> bytes list" where
  "extend_blocks 0 page_offset pdata = []"
| "extend_blocks (Suc n) page_offset pdata =
     eextend_block page_offset # data_blocks 4 pdata @ extend_blocks n (page_offset + 256) (drop 256 pdata)"

lemma eextend_loop_blocks:
  "eextend_loop upd n page_offset pdata s = for_each upd (extend_blocks n page_offset pdata) s"
proof (induction n arbitrary: page_offset pdata s)
  case (Suc n)
  then have "eextend_loop upd n (page_offset + 256) (drop 256 pdata)
      = for_each upd (extend_blocks n (page_offset + 256) (drop 256 pdata))" by blast
  then show ?case by (simp add: for_each_append_fun)
qed simp

definition req_source :: "page_req \<Rightarrow> bytes" where
  "req_source q = (case pq_source q of None \<Rightarrow> replicate 4096 0 | Some src \<Rightarrow> src)"

definition page_blocks :: "page_req \<Rightarrow> bytes list" where
  "page_blocks q =
     (if pq_attr q AND PAGE_ATTR_EADD = 0 then []
      else eadd_block (pq_rva q) (pq_sinfo q)
        # (if pq_attr q AND ADD_EXTEND_PAGE = ADD_EXTEND_PAGE
           then extend_blocks 16 (pq_rva q) (req_source q) else []))"

definition valid_sinfo :: "sec_info_t \<Rightarrow> bool" where
  "valid_sinfo sinfo \<longleftrightarrow> (\<forall>r \<in> set (si_reserved sinfo). r = 0) \<and> si_flags sinfo AND NOT SI_FLAGS_EXTERNAL = 0"

lemma st_add_req:
  "add_req (st_creator E) eid q c =
     (if valid_sinfo (pq_sinfo q) then
        and_then (for_each (hash_block E) (page_blocks q) c)
          (\<lambda>c. (SGX_SUCCESS, if pq_attr q AND PAGE_ATTR_EADD = 0 then c
                 else c\<lparr>m_quota := m_quota c + SE_PAGE_SIZE\<rparr>))
      else (SGX_ERROR_UNEXPECTED, c))"
  by (auto simp: add_req_def st_creator_def st_add_enclave_page_def valid_sinfo_def page_blocks_def
      req_source_def eextend_loop_blocks Let_def and_then_assoc split: option.splits)

text \<open>The requests of the loader carry whole pages.\<close>

definition wf_req :: "page_req \<Rightarrow> bool" where
  "wf_req q \<longleftrightarrow> length (req_source q) = 4096 \<and> length (si_reserved (pq_sinfo q)) = 7"

lemma length_concat_words [simp]: "length (concat (map (le_bytes n) ws)) = n * length ws"
  by (induction ws) simp_all

lemma length_extend_blocks:
  "256 * n \<le> length pdata \<Longrightarrow> b \<in> set (extend_blocks n off pdata) \<Longrightarrow> length b = 64"
proof (induction n arbitrary: off pdata)
  case (Suc n)
  then show ?case using Suc.IH [of "drop 256 pdata" "off + 256"]
    by (auto simp: data_blocks_def eextend_block_def eextend_val_def)
qed simp

lemma length_page_blocks: "wf_req q \<Longrightarrow> b \<in> set (page_blocks q) \<Longrightarrow> length b = 64"
  by (auto simp: page_blocks_def wf_req_def eadd_block_def eadd_val_def sec_info_bytes_def
      split: if_splits dest: length_extend_blocks [rotated])

lemma wf_page_reqs:
  "(\<And>s. src = Some s \<Longrightarrow> length s = 4096) \<Longrightarrow> q \<in> set (page_reqs P n rva src (sec_info f) attr) \<Longrightarrow> wf_req q"
  by (induction n arbitrary: rva)
    (auto simp: wf_req_def req_source_def sec_info_def split: if_splits option.splits)

lemma length_partial_page:
  "length d \<le> 4096 - unat (PAGE_OFFSET rva) \<Longrightarrow> length (partial_page rva d) = 4096"
  using unat_PAGE_OFFSET_less [of rva] by (simp add: partial_page_def)

lemma wf_region_reqs: "q \<in> set (region_reqs P si offset) \<Longrightarrow> wf_req q"
proof (induction P si offset rule: region_reqs.induct)
  case (1 P si offset)
  let ?rva = "rg_rva si + of_nat offset"
  let ?room = "4096 - unat (PAGE_OFFSET ?rva)"
  let ?sz = "min ?room (unat (rg_raw_data_size si) - offset)"
  let ?data = "rd (rg_mem si) (rg_raw_data si + offset) ?sz"
  show ?case
  proof (cases "offset < unat (rg_raw_data_size si)")
    case True
    have part: "length (partial_page ?rva ?data) = 4096"
      by (rule length_partial_page) simp
    show ?thesis
      using "1.prems" True part "1.IH" [OF refl True refl refl refl refl]
      by (subst (asm) region_reqs.simps)
        (auto simp: Let_def simp del: page_reqs.simps split: if_splits elim!: wf_page_reqs [rotated])
  next
    case False
    then show ?thesis using "1.prems"
      by (subst (asm) region_reqs.simps) (auto simp: Let_def split: if_splits elim!: wf_page_reqs [rotated])
  qed
qed

lemma wf_section_reqs: "q \<in> set (section_reqs P m file bm max_rva last_sec secs) \<Longrightarrow> wf_req q"
  by (induction secs arbitrary: max_rva last_sec)
    (auto simp: gap_reqs_def simp del: page_reqs.simps split: if_splits option.splits
      elim!: wf_region_reqs wf_page_reqs [rotated])

lemma length_bump_u64: "off + 8 \<le> length page \<Longrightarrow> length (bump_u64 off d page) = length page"
  by (simp add: bump_u64_def)

lemma length_tcs_page: "length (tcs_page m en rva) = 4096"
  by (simp add: tcs_page_def Let_def length_bump_u64)

lemma length_fill_page: "length (fill_page w) = 4096"
  by (simp add: fill_page_def length_concat sum_list_replicate)

lemma wf_context_reqs: "q \<in> set (context_reqs P m d en) \<Longrightarrow> wf_req q"
  by (auto simp: context_reqs_def Let_def length_tcs_page length_fill_page
      split: if_splits elim!: wf_region_reqs wf_page_reqs [rotated])

lemma wf_mage_page_reqs: "length src = 4096 \<Longrightarrow> q \<in> set (mage_page_reqs n rva src) \<Longrightarrow> wf_req q"
  by (induction n arbitrary: rva) (auto simp: wf_req_def req_source_def sec_info_def)

lemma wf_image_pages: "q \<in> set (image_pages P m bm file) \<Longrightarrow> wf_req q"
  by (auto simp: image_pages_def contexts_reqs_def mage_reqs_def split: option.splits
      elim: wf_section_reqs wf_context_reqs wf_mage_page_reqs [rotated])

section \<open>The measurement of an image\<close>

definition image_message :: "page_req list \<Rightarrow> bytes" where
  "image_message qs = concat (map (\<lambda>q. concat (page_blocks q)) qs)"

definition enclave_message :: "'c bin_parser \<Rightarrow> metadata_t \<Rightarrow> u8 list \<Rightarrow> memory \<Rightarrow> bytes" where
  "enclave_message P m bitmap file =
     ecreate_block (md_ssa_frame_size m) (md_enclave_size m) @ image_message (image_pages P m bitmap file)"

text \<open>\<open>hashed rep base msg c\<close>: since \<^verbatim>\<open>m_mage\<close> was \<open>base\<close>, the creator has hashed \<open>msg\<close>.\<close>

definition hashed :: "('h \<Rightarrow> bytes \<Rightarrow> bool) \<Rightarrow> sgx_mage_entry_t \<Rightarrow> bytes \<Rightarrow> 'h creator_st \<Rightarrow> bool" where
  "hashed rep base msg c \<longleftrightarrow> (\<exists>h. m_ctx c = Some h \<and> rep h msg) \<and> 64 dvd length msg
     \<and> me_size (m_mage c) = me_size base + of_nat (length msg) \<and> me_offset (m_mage c) = me_offset base"

lemma length_ecreate_block [simp]: "length (ecreate_block f n) = 64"
  by (simp add: ecreate_block_def ecreat_val_def)

text \<open>The lengths of a digest and of a chaining value.\<close>

lemma length_chain_bytes: "length (chain_bytes m) = 32"
  by (simp add: chain_bytes_def length_fips_absorb length_fips_IV)

lemma dvd_length_blocks: "\<forall>b \<in> set bs. length b = 64 \<Longrightarrow> 64 dvd length (concat bs)"
  by (induction bs) auto

lemma dvd_length_image_message: "\<forall>q \<in> set qs. wf_req q \<Longrightarrow> 64 dvd length (image_message qs)"
proof (induction qs)
  case (Cons q qs)
  then have "64 dvd length (concat (page_blocks q))"
    using length_page_blocks [of q] by (intro dvd_length_blocks) auto
  then show ?case using Cons by (simp add: image_message_def)
qed (simp add: image_message_def)

lemma dvd_length_enclave_message: "64 dvd length (enclave_message P m bm file)"
proof -
  have "64 dvd length (image_message (image_pages P m bm file))"
    by (rule dvd_length_image_message) (blast intro: wf_image_pages)
  then show ?thesis by (simp add: enclave_message_def)
qed

context evp_sha256
begin

lemma hash_block_hashed:
  assumes "hashed rep base msg c" and "length b = 64" and "hash_block E b c = (SGX_SUCCESS, c')"
  shows "hashed rep base (msg @ b) c'"
  using assms update by (auto simp: hashed_def hash_block_def split: option.splits)

lemma hash_blocks_hashed:
  "hashed rep base msg c \<Longrightarrow> \<forall>b \<in> set bs. length b = 64 \<Longrightarrow>
     for_each (hash_block E) bs c = (SGX_SUCCESS, c') \<Longrightarrow> hashed rep base (msg @ concat bs) c'"
proof (induction bs arbitrary: msg c)
  case (Cons b bs)
  obtain c1 where "hash_block E b c = (SGX_SUCCESS, c1)"
      "for_each (hash_block E) bs c1 = (SGX_SUCCESS, c')"
    using Cons.prems(3) by (auto simp: and_then_eq_Success)
  moreover from this have "hashed rep base (msg @ b) c1"
    using Cons.prems by (auto intro: hash_block_hashed)
  ultimately show ?case using Cons.IH [of "msg @ b" c1] Cons.prems(2) by simp
qed simp

lemma add_reqs_hashed:
  "hashed rep base msg c \<Longrightarrow> \<forall>q \<in> set qs. wf_req q \<Longrightarrow>
     for_each (add_req (st_creator E) eid) qs c = (SGX_SUCCESS, c') \<Longrightarrow>
     hashed rep base (msg @ image_message qs) c'"
proof (induction qs arbitrary: msg c)
  case (Cons q qs)
  obtain c1 where 1: "add_req (st_creator E) eid q c = (SGX_SUCCESS, c1)"
      and 2: "for_each (add_req (st_creator E) eid) qs c1 = (SGX_SUCCESS, c')"
    using Cons.prems(3) by (auto simp: and_then_eq_Success)
  obtain c0 where "for_each (hash_block E) (page_blocks q) c = (SGX_SUCCESS, c0)"
      and c1: "m_ctx c1 = m_ctx c0" "m_mage c1 = m_mage c0"
    using 1 by (auto simp: st_add_req and_then_eq_Success split: if_splits)
  then have "hashed rep base (msg @ concat (page_blocks q)) c0"
    using hash_blocks_hashed [OF Cons.prems(1)] length_page_blocks [of q] Cons.prems(2) by auto
  then have "hashed rep base (msg @ concat (page_blocks q)) c1" by (simp add: hashed_def c1)
  from Cons.IH [OF this _ 2] Cons.prems(2) show ?case by (simp add: image_message_def)
qed (simp add: image_message_def)

lemma create_enclave_hashed:
  assumes "st_create_enclave E secs ae c = (SGX_SUCCESS, secs', out, c')"
  shows "hashed rep (m_mage c) (ecreate_block (secs_ssa_frame_size secs) (secs_size secs)) c'"
    and "secs' = secs"
proof -
  let ?blk = "ecreate_block (secs_ssa_frame_size secs) (secs_size secs)"
  let ?c = "\<lambda>h. c\<lparr>m_enclave_hash := replicate 32 0, m_ctx := Some h\<rparr>"
  obtain h where h: "EVP_MD_CTX_create E = Some h"
    using assms by (cases "EVP_MD_CTX_create E") (simp_all add: st_create_enclave_def Let_def)
  obtain h' where h': "EVP_DigestInit_ex E h = Some h'"
    using assms h by (cases "EVP_DigestInit_ex E h") (simp_all add: st_create_enclave_def Let_def)
  obtain ret d where d: "hash_block E ?blk (?c h') = (ret, d)" by (cases "hash_block E ?blk (?c h')")
  have "ret = SGX_SUCCESS" and "d = c'" and secs: "secs' = secs"
    using assms h h' d by (simp_all add: st_create_enclave_def Let_def split: if_splits)
  then have b: "hash_block E ?blk (?c h') = (SGX_SUCCESS, c')" using d by simp
  have "hashed rep (m_mage c) [] (?c h')" using init [OF h h'] by (simp add: hashed_def)
  from hash_block_hashed [OF this _ b] show "hashed rep (m_mage c) ?blk c'" by simp
  show "secs' = secs" by (rule secs)
qed

lemma init_enclave_hashed:
  assumes "hashed rep base msg c" and "st_init_enclave E eid css c = (SGX_SUCCESS, c')"
  shows "m_enclave_hash c' = fips_SHA256 msg \<and> m_hash_valid_flag c'
     \<and> m_mage c' = \<lparr>me_size = me_size base + of_nat (length msg), me_offset = me_offset base,
                   me_digest = chain_bytes msg\<rparr>"
proof -
  obtain h where h: "m_ctx c = Some h" "rep h msg" "64 dvd length msg"
    using assms(1) by (auto simp: hashed_def)
  obtain d h' where d: "EVP_DigestFinal_ex E h = Some (d, h')"
    using assms(2) h by (cases "EVP_DigestFinal_ex E h") (auto simp: st_init_enclave_def Let_def)
  have "c' = c\<lparr>m_mage := (m_mage c)\<lparr>me_digest := take 32 (evp_md_data E h)\<rparr>, m_ctx := Some h',
      m_enclave_hash := take 32 d, m_hash_valid_flag := True\<rparr>"
    using assms(2) h(1) d by (simp add: st_init_enclave_def Let_def)
  then show ?thesis
    using assms(1) final [OF h(2) d] md_data [OF h(2, 3)]
    by (simp add: hashed_def length_fips_SHA256 length_chain_bytes)
qed

lemma build_image_measures:
  assumes "build_image (st_creator E) P m attrs config_id config_svn misc s = (SGX_SUCCESS, t)"
  obtains bm where "bp_get_reloc_bitmap P (ld_file s) = Some bm"
    and "m_enclave_hash (ld_creator t) = fips_SHA256 (enclave_message P m bm (patch_file m (ld_file s)))"
    and "m_hash_valid_flag (ld_creator t)"
    and "m_mage (ld_creator t) =
      \<lparr>me_size = me_size (m_mage (ld_creator s)) + of_nat (length (enclave_message P m bm (patch_file m (ld_file s)))),
       me_offset = me_offset (m_mage (ld_creator s)),
       me_digest = chain_bytes (enclave_message P m bm (patch_file m (ld_file s)))\<rparr>"
proof -
  let ?C = "st_creator E"
  obtain s1 where s1: "build_secs ?C m attrs config_id config_svn misc s = (SGX_SUCCESS, s1)"
    using assms by (auto simp: build_image_def and_then_def split: prod.splits if_splits)
  have file1: "ld_file s1 = ld_file s"
    using s1 by (auto simp: build_secs_def split: prod.splits)
  have h1: "hashed rep (m_mage (ld_creator s)) (ecreate_block (md_ssa_frame_size m) (md_enclave_size m)) (ld_creator s1)"
    using s1 create_enclave_hashed(1)
    by (fastforce simp: build_secs_def st_creator_def secs_of_def split: prod.splits)
  obtain bm where bm: "bp_get_reloc_bitmap P (ld_file s) = Some bm"
    using assms s1 file1 by (auto simp: build_image_def split: option.splits)
  let ?f = "patch_file m (ld_file s)"
  let ?s2 = "s1\<lparr>ld_file := ?f\<rparr>"
  obtain r3 s3 where s3: "build_body ?C P m bm ?s2 = (r3, s3)" by fastforce
  obtain r4 s4 where s4: "on_creator (init_enclave ?C (ld_start_addr s3) (md_enclave_css m)) s3 = (r4, s4)"
    by fastforce
  have ok: "r3 = SGX_SUCCESS" "r4 = SGX_SUCCESS" "t = s4"
    using assms s1 bm file1 s3 s4
    by (auto simp: build_image_def Let_def and_then_def st_creator_def split: if_splits prod.splits)
  have "hashed rep (m_mage (ld_creator s)) (enclave_message P m bm ?f) (ld_creator s3)"
    unfolding enclave_message_def
    by (rule add_reqs_hashed [OF h1])
      (use st.build_body_pages(1) [OF s3] ok wf_image_pages in auto)
  moreover have "st_init_enclave E (ld_start_addr s3) (md_enclave_css m) (ld_creator s3) = (SGX_SUCCESS, ld_creator t)"
    using s4 ok by (auto simp: on_creator_def st_creator_def split: prod.splits)
  ultimately show ?thesis using that bm init_enclave_hashed by blast
qed

lemma load_enclave_measures:
  assumes "load_enclave (st_creator E) P debug (Some m) config_id config_svn s = (SGX_SUCCESS, t)"
  obtains bm where "bp_get_reloc_bitmap P (ld_file s) = Some bm"
    and "m_enclave_hash (ld_creator t) = fips_SHA256 (enclave_message P m bm (patch_file m (ld_file s)))"
    and "m_hash_valid_flag (ld_creator t)"
    and "m_mage (ld_creator t) =
      \<lparr>me_size = me_size (m_mage (ld_creator s)) + of_nat (length (enclave_message P m bm (patch_file m (ld_file s)))),
       me_offset = me_offset (m_mage (ld_creator s)),
       me_digest = chain_bytes (enclave_message P m bm (patch_file m (ld_file s)))\<rparr>"
    and "validate_metadata (bp_enclave_max_size P) (Some m) = SGX_SUCCESS"
proof -
  have v: "validate_metadata (bp_enclave_max_size P) (Some m) = SGX_SUCCESS"
    using assms by (auto simp: load_enclave_def Let_def split: if_splits)
  obtain t' misc attrs where "build_image (st_creator E) P m attrs config_id config_svn misc s = (SGX_SUCCESS, t')"
      and t: "ld_creator t = ld_creator t'"
    using assms v by (auto simp: load_enclave_def Let_def st_creator_def st_get_misc_attr_def
        split: prod.splits if_splits)
  from build_image_measures [OF this(1)] show ?thesis using that v t by metis
qed

end

section \<open>The outcomes of the signing tool's creator\<close>

lemma hash_block_status: "fst (hash_block E b c) \<in> {SGX_SUCCESS, SGX_ERROR_UNEXPECTED}"
  by (simp add: hash_block_def split: option.splits)

lemma st_add_req_status: "fst (add_req (st_creator E) eid q c) \<in> {SGX_SUCCESS, SGX_ERROR_UNEXPECTED}"
proof (cases "valid_sinfo (pq_sinfo q)")
  case True
  then show ?thesis unfolding st_add_req if_P [OF True]
    by (intro and_then_status for_each_status hash_block_status) simp_all
qed (simp add: st_add_req)

lemma st_create_enclave_status: "fst (st_create_enclave E secs ae c) \<in> {SGX_SUCCESS, SGX_ERROR_UNEXPECTED}"
  by (simp add: st_create_enclave_def Let_def split: option.split prod.split)

lemma st_init_enclave_status: "fst (st_init_enclave E eid css c) \<in> {SGX_SUCCESS, SGX_ERROR_UNEXPECTED}"
  by (simp add: st_init_enclave_def Let_def split: option.split prod.split)

definition measure_outcomes :: "sgx_status_t set" where
  "measure_outcomes = {SGX_SUCCESS, SGX_ERROR_UNEXPECTED, SGX_ERROR_INVALID_METADATA,
     SGX_ERROR_INVALID_VERSION, SGX_ERROR_INVALID_ENCLAVE}"

lemma st_build_body_status:
  "fst (build_body (st_creator E) P m bm s) \<in> {SGX_SUCCESS, SGX_ERROR_UNEXPECTED}"
proof -
  obtain r t where r: "build_body (st_creator E) P m bm s = (r, t)" by fastforce
  show ?thesis
    using for_each_status [of "image_pages P m bm (ld_file s)" "add_req (st_creator E) (ld_start_addr s)"
        "{SGX_SUCCESS, SGX_ERROR_UNEXPECTED}" "ld_creator s"] st_add_req_status
      st.build_body_pages(1) [OF r] r by auto
qed

lemma fst_on_creator: "fst (on_creator f s) = fst (f (ld_creator s))"
  by (simp add: on_creator_def split: prod.split)

lemma success_outcome [simp]: "SGX_SUCCESS \<in> measure_outcomes"
  by (simp add: measure_outcomes_def)

lemma st_build_image_status:
  "fst (build_image (st_creator E) P m attrs config_id config_svn misc s) \<in> measure_outcomes"
  unfolding build_image_def
proof (rule and_then_status)
  show "fst (build_secs (st_creator E) m attrs config_id config_svn misc s) \<in> measure_outcomes"
    using st_create_enclave_status [of E "secs_of m attrs config_id config_svn misc" "is_ae (md_enclave_css m)" "ld_creator s"]
    by (auto simp: build_secs_def st_creator_def measure_outcomes_def split: prod.splits)
next
  fix s :: "'a creator_st loader"
  let ?init = "\<lambda>s. on_creator (init_enclave (st_creator E) (ld_start_addr s) (md_enclave_css m)) s"
  let ?finish = "\<lambda>(ret, s). if ret = SGX_SUCCESS
      then (SGX_SUCCESS, if use_se_hw (st_creator E) then snd (set_memory_protection (st_creator E) P m False s) else s)
      else (ret, snd (on_creator (destroy_enclave (st_creator E) (ld_start_addr s) (secs_size (ld_secs s))) s))"
  have fin: "fst (?finish r) = fst r" for r by (cases r) simp
  have "fst (and_then (build_body (st_creator E) P m bm s') ?init) \<in> {SGX_SUCCESS, SGX_ERROR_UNEXPECTED}"
    for bm s'
    by (intro and_then_status st_build_body_status)
      (simp only: fst_on_creator, simp only: st_creator_def enclave_creator.simps st_init_enclave_status)
  then have "fst (?finish (and_then (build_body (st_creator E) P m bm s') ?init)) \<in> measure_outcomes"
    for bm s' unfolding fin measure_outcomes_def by blast
  then show "fst (case bp_get_reloc_bitmap P (ld_file s) of
          None \<Rightarrow> (SGX_ERROR_INVALID_ENCLAVE, s)
        | Some bitmap \<Rightarrow>
            let s = s\<lparr>ld_file := patch_file m (ld_file s)\<rparr> in
            ?finish (and_then (build_body (st_creator E) P m bitmap s) ?init)) \<in> measure_outcomes"
    by (cases "bp_get_reloc_bitmap P (ld_file s)") (simp_all only: option.case Let_def, simp add: measure_outcomes_def)
qed

lemma validate_metadata_status: "validate_metadata sz md \<in> measure_outcomes"
  by (cases md) (simp_all add: validate_metadata_def validate_layout_table_def validate_patch_table_def
      measure_outcomes_def Let_def split: option.split)

lemma st_load_enclave_status:
  "fst (load_enclave (st_creator E) P debug md config_id config_svn s) \<in> measure_outcomes"
proof (cases md)
  case None
  then show ?thesis using validate_metadata_status by (simp add: load_enclave_def)
next
  case (Some m)
  obtain attr where attr: "get_misc_attr (st_creator E) m debug (ld_creator s) = (SGX_SUCCESS, attr, ld_creator s)"
    by (simp add: st_creator_def st_get_misc_attr_def)
  obtain r t where "build_image (st_creator E) P m (secs_attr attr) config_id config_svn attr s = (r, t)"
    by fastforce
  then show ?thesis
    using validate_metadata_status [of "bp_enclave_max_size P" md] Some attr
      st_build_image_status [of E P m "secs_attr attr" config_id config_svn attr s]
    by (simp add: load_enclave_def Let_def)
qed

lemma st_load_enclave_ex:
  "load_enclave_ex (st_creator E) P debug md config_id config_svn s
     = Some (load_enclave (st_creator E) P debug md config_id config_svn s)"
proof -
  obtain ret t where l: "load_enclave (st_creator E) P debug md config_id config_svn s = (ret, t)"
    by fastforce
  then have "ret \<in> measure_outcomes"
    using st_load_enclave_status [of E P debug md config_id config_svn s] by simp
  then show ?thesis
    unfolding load_enclave_ex_def l
    by (intro load_enclave_retry_once [where load = "load_enclave (st_creator E) P debug md config_id config_svn", OF l])
      (auto simp: measure_outcomes_def)
qed

section \<open>The protected code loader's SHA-256 meets the contract\<close>

definition pcl_evp :: "SHA256_CTX evp" where
  "pcl_evp = \<lparr>
     EVP_MD_CTX_create = Some pcl_SHA256_Init,
     EVP_DigestInit_ex = (\<lambda>_. Some pcl_SHA256_Init),
     EVP_DigestUpdate = (\<lambda>h bs. Some (pcl_SHA256_Update h bs)),
     EVP_DigestFinal_ex = (\<lambda>h. Some (pcl_SHA256_Final h)),
     evp_md_data = (\<lambda>h. concat (map (le_bytes 4) (sha_h h)))\<rparr>"

interpretation pcl: evp_sha256 pcl_evp sha_rep
proof unfold_locales
  fix h m d h'
  assume "sha_rep h m" "EVP_DigestFinal_ex pcl_evp h = Some (d, h')"
  then show "d = fips_SHA256 m" using sha_rep_final [of h m] by (simp add: pcl_evp_def)
next
  fix h m
  assume "sha_rep h m"
  then show "evp_md_data pcl_evp h = chain_bytes m" by (simp add: pcl_evp_def chain_bytes_def sha_rep_def)
qed (auto simp: pcl_evp_def sha_rep_init sha_rep_update)

section \<open>When no digest call fails\<close>

definition evp_total :: "'h evp \<Rightarrow> bool" where
  "evp_total E \<longleftrightarrow> EVP_MD_CTX_create E \<noteq> None \<and> (\<forall>h. EVP_DigestInit_ex E h \<noteq> None)
     \<and> (\<forall>h b. EVP_DigestUpdate E h b \<noteq> None) \<and> (\<forall>h. EVP_DigestFinal_ex E h \<noteq> None)"

lemma hash_blocks_total:
  assumes "evp_total E"
  shows "m_ctx c \<noteq> None \<Longrightarrow> \<exists>c'. for_each (hash_block E) bs c = (SGX_SUCCESS, c') \<and> m_ctx c' \<noteq> None"
proof (induction bs arbitrary: c)
  case (Cons b bs)
  then obtain h where h: "m_ctx c = Some h" by blast
  obtain h' where "EVP_DigestUpdate E h b = Some h'" using assms unfolding evp_total_def by blast
  then show ?case using Cons.IH h by (simp add: hash_block_def)
qed auto

lemma add_reqs_total:
  assumes "evp_total E"
  shows "m_ctx c \<noteq> None \<Longrightarrow> \<forall>q \<in> set qs. valid_sinfo (pq_sinfo q) \<Longrightarrow>
    \<exists>c'. for_each (add_req (st_creator E) eid) qs c = (SGX_SUCCESS, c') \<and> m_ctx c' \<noteq> None"
proof (induction qs arbitrary: c)
  case (Cons q qs)
  obtain c1 where "for_each (hash_block E) (page_blocks q) c = (SGX_SUCCESS, c1)" "m_ctx c1 \<noteq> None"
    using hash_blocks_total [OF assms Cons.prems(1)] by blast
  then have "\<exists>c2. add_req (st_creator E) eid q c = (SGX_SUCCESS, c2) \<and> m_ctx c2 \<noteq> None"
    using Cons.prems(2) by (auto simp: st_add_req)
  then show ?case using Cons by fastforce
qed auto

lemma create_enclave_total:
  assumes "evp_total E"
  shows "\<exists>c' out. st_create_enclave E secs ae c = (SGX_SUCCESS, secs, out, c') \<and> m_ctx c' \<noteq> None"
proof -
  obtain h where h: "EVP_MD_CTX_create E = Some h" using assms unfolding evp_total_def by blast
  obtain h' where h': "EVP_DigestInit_ex E h = Some h'" using assms unfolding evp_total_def by blast
  obtain h'' where "EVP_DigestUpdate E h' (ecreate_block (secs_ssa_frame_size secs) (secs_size secs)) = Some h''"
    using assms unfolding evp_total_def by blast
  then show ?thesis using h h' by (simp add: st_create_enclave_def hash_block_def Let_def)
qed

lemma load_enclave_total:
  assumes E: "evp_total E" and v: "validate_metadata (bp_enclave_max_size P) (Some m) = SGX_SUCCESS"
    and bm: "bp_get_reloc_bitmap P (ld_file s) = Some bm"
    and sinfo: "\<forall>q \<in> set (image_pages P m bm (patch_file m (ld_file s))). valid_sinfo (pq_sinfo q)"
  shows "\<exists>t. load_enclave (st_creator E) P debug (Some m) config_id config_svn s = (SGX_SUCCESS, t)"
proof -
  let ?C = "st_creator E"
  let ?attrs = "\<lparr>attr_flags = 0, attr_xfrm = 0\<rparr>"
  let ?misc = "\<lparr>secs_attr = ?attrs, misc_select = 0\<rparr>"
  obtain c1 out where "st_create_enclave E (secs_of m ?attrs config_id config_svn ?misc)
      (is_ae (md_enclave_css m)) (ld_creator s) = (SGX_SUCCESS, secs_of m ?attrs config_id config_svn ?misc, out, c1)"
      and c1: "m_ctx c1 \<noteq> None"
    using create_enclave_total [OF E] by blast
  then obtain s1 where s1: "build_secs ?C m ?attrs config_id config_svn ?misc s = (SGX_SUCCESS, s1)"
      and s1': "ld_creator s1 = c1" "ld_file s1 = ld_file s"
    by (simp add: build_secs_def st_creator_def)
  let ?s2 = "s1\<lparr>ld_file := patch_file m (ld_file s)\<rparr>"
  obtain r3 s3 where s3: "build_body ?C P m bm ?s2 = (r3, s3)" by fastforce
  obtain c3 where "for_each (add_req ?C (ld_start_addr s1)) (image_pages P m bm (patch_file m (ld_file s))) c1
      = (SGX_SUCCESS, c3)" "m_ctx c3 \<noteq> None"
    using add_reqs_total [OF E c1 sinfo] by blast
  with st.build_body_pages(1) [OF s3] s1' have b: "r3 = SGX_SUCCESS" "m_ctx (ld_creator s3) \<noteq> None" by simp_all
  then obtain h where "m_ctx (ld_creator s3) = Some h" by blast
  moreover obtain d h' where "EVP_DigestFinal_ex E h = Some (d, h')"
    using E unfolding evp_total_def by fastforce
  ultimately have "\<exists>c4. st_init_enclave E (ld_start_addr s3) (md_enclave_css m) (ld_creator s3) = (SGX_SUCCESS, c4)"
    by (simp add: st_init_enclave_def Let_def)
  then obtain s4 where "on_creator (init_enclave ?C (ld_start_addr s3) (md_enclave_css m)) s3 = (SGX_SUCCESS, s4)"
    by (auto simp: on_creator_def st_creator_def)
  then have "build_image ?C P m ?attrs config_id config_svn ?misc s = (SGX_SUCCESS, s4)"
    using s1 s1' bm s3 b by (simp add: build_image_def Let_def st_creator_def)
  then show ?thesis
    using v by (simp add: load_enclave_def Let_def st_creator_def st_get_misc_attr_def)
qed

lemma pcl_evp_total: "evp_total pcl_evp"
  by (simp add: evp_total_def pcl_evp_def)

end
