(* ===== verification/Mage_Image.thy ===== *)
theory Mage_Image
  imports Creator_Sign
begin

text \<open>
  What the loader does with the MAGE section (\<^verbatim>\<open>build_pages\<close>, \<^verbatim>\<open>build_mage_pages\<close> of
  \<^verbatim>\<open>psw/urts/loader.cpp\<close>, \<^verbatim>\<open>get_mage_section_ex\<close> of \<^verbatim>\<open>psw/urts/parser/elfparser.cpp\<close>): the pages of
  the section come last and only when the enclave is not measured for \<^verbatim>\<open>genmage\<close>, and no
  other page of the image contains a byte of it.
\<close>

section \<open>The pages before the MAGE section\<close>

definition common_pages :: "'c bin_parser \<Rightarrow> metadata_t \<Rightarrow> u8 list \<Rightarrow> memory \<Rightarrow> page_req list" where
  "common_pages P m bitmap file =
     section_reqs P m file (Some bitmap) 0 None (bp_sections P) @ contexts_reqs P m"

abbreviation set_for_sign :: "bool \<Rightarrow> 'c bin_parser \<Rightarrow> 'c bin_parser" where
  "set_for_sign b P \<equiv> P\<lparr>bp_for_sign := b\<rparr>"

lemma page_reqs_for_sign [simp]: "page_reqs (set_for_sign b P) n rva src sinfo attr = page_reqs P n rva src sinfo attr"
  by (induction n arbitrary: rva) (simp_all add: not_skipped_def skip_range_def get_mage_section_def)

lemma region_reqs_for_sign [simp]: "region_reqs (set_for_sign b P) si offset = region_reqs P si offset"
proof (induction P si offset rule: region_reqs.induct)
  case (1 P si offset)
  show ?case
    using "1.IH" [OF refl _ refl refl refl refl]
    by (subst (1 2) region_reqs.simps) (simp add: Let_def del: page_reqs.simps)
qed

lemma section_reqs_for_sign [simp]:
  "section_reqs (set_for_sign b P) m file bitmap max_rva last_sec secs
     = section_reqs P m file bitmap max_rva last_sec secs"
  by (induction secs arbitrary: max_rva last_sec)
    (simp_all add: gap_reqs_def del: page_reqs.simps cong: option.case_cong)

lemma context_reqs_for_sign [simp]: "context_reqs (set_for_sign b P) m d en = context_reqs P m d en"
  by (simp add: context_reqs_def Let_def)

lemma contexts_reqs_for_sign [simp]: "contexts_reqs (set_for_sign b P) m = contexts_reqs P m"
  by (simp add: contexts_reqs_def)

lemma image_pages_signing: "image_pages (set_for_sign True P) m bitmap file = common_pages P m bitmap file"
  by (simp add: image_pages_def common_pages_def mage_reqs_def get_mage_section_ex_def)

lemma image_pages_loading:
  "bp_mage_section P = Some sec \<Longrightarrow>
   image_pages (set_for_sign False P) m bitmap file = common_pages P m bitmap file
     @ mage_page_reqs (page_count_of (sec_virtual_size sec)) (sec_rva sec) (rd file (unat (sec_offset sec)) 4096)"
  by (simp add: image_pages_def common_pages_def mage_reqs_def get_mage_section_ex_def)

section \<open>The other pages do not depend on the content of the MAGE section\<close>

text \<open>
  A well-formed MAGE section \<open>ms\<close> is page-aligned in the enclave, and a byte of the file
  that lies in it is loaded to its place in the enclave only.
\<close>

definition in_file_range :: "section_t \<Rightarrow> nat \<Rightarrow> bool" where
  "in_file_range ms a \<longleftrightarrow> unat (sec_offset ms) \<le> a \<and> a < unat (sec_offset ms) + unat (sec_virtual_size ms)"

definition in_rva_range :: "section_t \<Rightarrow> nat \<Rightarrow> bool" where
  "in_rva_range ms a \<longleftrightarrow> unat (sec_rva ms) \<le> a \<and> a < unat (sec_rva ms) + unat (sec_virtual_size ms)"

definition maps_only_into :: "section_t \<Rightarrow> section_t \<Rightarrow> bool" where
  "maps_only_into ms sec \<longleftrightarrow>
     unat (sec_rva sec) + unat (sec_raw_data_size sec) \<le> 2 ^ 64 - 4096 \<and>
     (\<forall>k < unat (sec_raw_data_size sec).
        in_file_range ms (unat (sec_offset sec) + k) \<longrightarrow> in_rva_range ms (unat (sec_rva sec) + k))"

definition mage_section_wf :: "'c bin_parser \<Rightarrow> section_t \<Rightarrow> bool" where
  "mage_section_wf P ms \<longleftrightarrow> bp_mage_section P = Some ms
     \<and> unat (sec_rva ms) + unat (sec_virtual_size ms) < 2 ^ 64
     \<and> (\<forall>sec \<in> set (bp_sections P). maps_only_into ms sec)"

definition same_outside :: "section_t \<Rightarrow> memory \<Rightarrow> memory \<Rightarrow> bool" where
  "same_outside ms f g \<longleftrightarrow> (\<forall>a. \<not> in_file_range ms a \<longrightarrow> f a = g a)"

text \<open>A page that is not skipped has no address in common with the section.\<close>

lemma not_skipped_disjoint:
  assumes "bp_mage_section P = Some ms" and "unat (sec_rva ms) + unat (sec_virtual_size ms) < 2 ^ 64"
    and "not_skipped P rva" and "unat rva + 4096 \<le> 2 ^ 64 - 1" and "unat rva \<le> a" and "a < unat rva + 4096"
  shows "\<not> in_rva_range ms a"
proof -
  have "unat (sec_rva ms + sec_virtual_size ms) = unat (sec_rva ms) + unat (sec_virtual_size ms)"
    using assms(2) by (simp add: unat_word_ariths)
  moreover have "unat (rva + SE_PAGE_SIZE) = unat rva + 4096"
    using assms(4) by (simp add: unat_word_ariths SE_PAGE_SIZE_def)
  ultimately show ?thesis
    using assms(1, 3, 5, 6)
    by (auto simp: not_skipped_def skip_range_def get_mage_section_def in_rva_range_def word_le_nat_alt)
qed

text \<open>So the bytes of a page that is not skipped are the same in two such files.\<close>

lemma page_data_same:
  assumes wf: "mage_section_wf P ms" and sec: "maps_only_into ms sec" and same: "same_outside ms f g"
    and off: "offset < unat (sec_raw_data_size sec)"
    and rva: "rva = sec_rva sec + of_nat offset"
    and sz: "sz \<le> 4096 - unat (PAGE_OFFSET rva)" "sz \<le> unat (sec_raw_data_size sec) - offset"
    and ns: "not_skipped P (TRIM_TO_PAGE rva)"
  shows "rd f (unat (sec_offset sec) + offset) sz = rd g (unat (sec_offset sec) + offset) sz"
proof (rule rd_cong)
  fix i assume i: "i < sz"
  have bound: "unat (sec_rva sec) + unat (sec_raw_data_size sec) \<le> 2 ^ 64 - 4096"
    using sec by (simp add: maps_only_into_def)
  have u: "unat rva = unat (sec_rva sec) + offset"
    using bound off unat_less_exp [of "sec_raw_data_size sec"]
    by (simp add: rva unat_word_ariths unat_of_nat)
  have t: "unat (TRIM_TO_PAGE rva) = unat rva - unat rva mod 4096"
    by (rule unat_TRIM_TO_PAGE)
  have "unat rva mod 4096 \<le> unat rva" by simp
  then have "unat (TRIM_TO_PAGE rva) \<le> unat (sec_rva sec) + (offset + i)"
    and "unat (sec_rva sec) + (offset + i) < unat (TRIM_TO_PAGE rva) + 4096"
    and "unat (TRIM_TO_PAGE rva) + 4096 \<le> 2 ^ 64 - 1"
    using i sz(1) u t bound off by (simp_all add: unat_PAGE_OFFSET)
  then have "\<not> in_rva_range ms (unat (sec_rva sec) + (offset + i))"
    using not_skipped_disjoint [OF _ _ ns] wf by (simp add: mage_section_wf_def)
  then have "\<not> in_file_range ms (unat (sec_offset sec) + (offset + i))"
    using sec i sz(2) by (auto simp: maps_only_into_def)
  then show "f (unat (sec_offset sec) + offset + i) = g (unat (sec_offset sec) + offset + i)"
    using same by (simp add: same_outside_def add.assoc)
qed

lemma page_reqs_one_cong:
  "(not_skipped P rva \<Longrightarrow> src = src') \<Longrightarrow> page_reqs P 1 rva src sinfo attr = page_reqs P 1 rva src' sinfo attr"
  by (cases "not_skipped P rva") simp_all

text \<open>The equation of \<^const>\<open>region_reqs\<close> for the region of a section.\<close>

lemma region_reqs_section:
  "region_reqs P (section_region f bm sec) offset =
     (if offset < unat (sec_raw_data_size sec) then
        (if min (4096 - unat (PAGE_OFFSET (sec_rva sec + of_nat offset))) (unat (sec_raw_data_size sec) - offset) = 4096
         then page_reqs P 1 (sec_rva sec + of_nat offset)
           (Some (rd f (unat (sec_offset sec) + offset) (min (4096 - unat (PAGE_OFFSET (sec_rva sec + of_nat offset)))
              (unat (sec_raw_data_size sec) - offset))))
           (sec_info (region_flags (section_region f bm sec) (sec_rva sec + of_nat offset))) ADD_EXTEND_PAGE
         else page_reqs P 1 (TRIM_TO_PAGE (sec_rva sec + of_nat offset))
           (Some (partial_page (sec_rva sec + of_nat offset)
              (rd f (unat (sec_offset sec) + offset) (min (4096 - unat (PAGE_OFFSET (sec_rva sec + of_nat offset)))
                 (unat (sec_raw_data_size sec) - offset)))))
           (sec_info (region_flags (section_region f bm sec) (sec_rva sec + of_nat offset))) ADD_EXTEND_PAGE)
        @ region_reqs P (section_region f bm sec) (offset + (4096 - unat (PAGE_OFFSET (sec_rva sec + of_nat offset))))
      else if unat (sec_virtual_size sec) > offset then
        page_reqs P (page_count_of (ROUND_TO_PAGE (sec_virtual_size sec - of_nat offset
            + PAGE_OFFSET (sec_rva sec + of_nat offset))))
          (TRIM_TO_PAGE (sec_rva sec + of_nat offset)) None (sec_info (sec_si_flags sec)) ADD_EXTEND_PAGE
      else [])"
  by (subst region_reqs.simps) (simp add: section_region_def Let_def del: page_reqs.simps)

lemma region_reqs_same:
  assumes "mage_section_wf P ms" and "maps_only_into ms sec" and "same_outside ms f g"
  shows "region_reqs P (section_region f bm sec) offset = region_reqs P (section_region g bm sec) offset"
proof (induction "unat (sec_raw_data_size sec) - offset" arbitrary: offset rule: less_induct)
  case less
  let ?rva = "sec_rva sec + of_nat offset"
  let ?room = "4096 - unat (PAGE_OFFSET ?rva)"
  let ?sz = "min ?room (unat (sec_raw_data_size sec) - offset)"
  let ?data = "\<lambda>f. rd f (unat (sec_offset sec) + offset) ?sz"
  let ?sinfo = "sec_info (region_flags (section_region f bm sec) ?rva)"
  have flags: "region_flags (section_region g bm sec) = region_flags (section_region f bm sec)"
    by (simp add: fun_eq_iff region_flags_def made_writable_def section_region_def)
  show ?case
  proof (cases "offset < unat (sec_raw_data_size sec)")
    case True
    have rest: "region_reqs P (section_region f bm sec) (offset + ?room)
        = region_reqs P (section_region g bm sec) (offset + ?room)"
      using True unat_PAGE_OFFSET_less [of ?rva] by (intro less.hyps) simp
    have data: "?data f = ?data g" if "not_skipped P (TRIM_TO_PAGE ?rva)"
      by (rule page_data_same [OF assms True refl _ _ that]) simp_all
    have aligned: "TRIM_TO_PAGE ?rva = ?rva" if "?sz = 4096"
    proof -
      have "unat (PAGE_OFFSET ?rva) = 0" using that unat_PAGE_OFFSET_less [of ?rva] by (simp add: min_def split: if_splits)
      then have "unat (TRIM_TO_PAGE ?rva) = unat ?rva"
        by (simp add: unat_TRIM_TO_PAGE unat_PAGE_OFFSET)
      then show ?thesis by (simp add: word_unat_eq_iff)
    qed
    have page: "(if ?sz = 4096 then page_reqs P 1 ?rva (Some (?data f)) ?sinfo ADD_EXTEND_PAGE
          else page_reqs P 1 (TRIM_TO_PAGE ?rva) (Some (partial_page ?rva (?data f))) ?sinfo ADD_EXTEND_PAGE)
        = (if ?sz = 4096 then page_reqs P 1 ?rva (Some (?data g)) ?sinfo ADD_EXTEND_PAGE
          else page_reqs P 1 (TRIM_TO_PAGE ?rva) (Some (partial_page ?rva (?data g))) ?sinfo ADD_EXTEND_PAGE)"
    proof (cases "?sz = 4096")
      case True
      show ?thesis unfolding if_P [OF True]
        by (rule page_reqs_one_cong) (use data aligned [OF True] in simp)
    next
      case False
      show ?thesis unfolding if_not_P [OF False] by (rule page_reqs_one_cong) (simp only: data)
    qed
    show ?thesis
      unfolding region_reqs_section [of P f bm sec offset] region_reqs_section [of P g bm sec offset]
        if_P [OF True] flags page rest ..
  next
    case False
    then show ?thesis
      unfolding region_reqs_section [of P f bm sec offset] region_reqs_section [of P g bm sec offset] by simp
  qed
qed

lemma section_reqs_same:
  assumes "mage_section_wf P ms" and "same_outside ms f g"
  shows "set secs \<subseteq> set (bp_sections P) \<Longrightarrow>
    section_reqs P m f bm max_rva last_sec secs = section_reqs P m g bm max_rva last_sec secs"
proof (induction secs arbitrary: max_rva last_sec)
  case (Cons sec secs)
  then have "maps_only_into ms sec" using assms(1) by (simp add: mage_section_wf_def)
  then show ?case using Cons region_reqs_same [OF assms(1) _ assms(2)] by simp
qed simp

lemma common_pages_same:
  "mage_section_wf P ms \<Longrightarrow> same_outside ms f g \<Longrightarrow> common_pages P m bm f = common_pages P m bm g"
  by (simp add: common_pages_def section_reqs_same [of P ms f g])

lemma same_outside_patch:
  assumes "same_outside ms f g" shows "same_outside ms (patch_file m f) (patch_file m g)"
proof -
  have "same_outside ms (fold (apply_patch m) ps f) (fold (apply_patch m) ps g)" for ps
    using assms by (induction ps arbitrary: f g) (auto simp: same_outside_def apply_patch_def wr_def)
  then show ?thesis by (simp add: patch_file_def)
qed

text \<open>A patch table that leaves the section alone.\<close>

definition patch_avoids :: "section_t \<Rightarrow> metadata_t \<Rightarrow> bool" where
  "patch_avoids ms m \<longleftrightarrow> (\<forall>p \<in> set (patch_table m). \<forall>a.
     in_file_range ms a \<longrightarrow> a < unat (pe_dst p) \<or> unat (pe_dst p) + unat (pe_size p) \<le> a)"

lemma patch_file_avoids:
  assumes "patch_avoids ms m" and "in_file_range ms a"
  shows "patch_file m f a = f a"
proof -
  have "set ps \<subseteq> set (patch_table m) \<Longrightarrow> fold (apply_patch m) ps f a = f a" for ps
    using assms by (induction ps arbitrary: f) (auto simp: apply_patch_def patch_avoids_def wr_outside)
  then show ?thesis by (simp add: patch_file_def)
qed

end
