(* ===== verification/Sgx_Mage.thy ===== *)
theory Sgx_Mage
  imports Creator_Sign
begin

text \<open>
  The MAGE library of the enclave, \<^verbatim>\<open>sdk/mage/sgx_mage.cpp\<close>, and the SHA-256 wrappers of
  \<^verbatim>\<open>sdk/tlibcrypto/ipp/sgx_sha256.cpp\<close> that it calls. An enclave derives the measurement of
  a peer from the entry that the peer's \<^verbatim>\<open>genmage\<close> run wrote: it resumes SHA-256 from the
  recorded internal state and hashes the peer's MAGE section, which is its own. The IPP
  hash is a parameter with a contract (the locale \<open>ipp_sha256\<close>).
\<close>

section \<open>SHA-256 of the trusted crypto library\<close>

text \<open>
  The IPP calls over the state behind \<^verbatim>\<open>IppsHashState_rmf\<close>; \<open>ipp_poke off bs\<close> is a \<^verbatim>\<open>memcpy\<close> to
  \<^verbatim>\<open>sha_handle + off\<close>, and \<open>ipp_malloc\<close> the allocation of a state.
\<close>

record 's ipp =
  ippsHashGetSize_rmf :: IppStatus
  ipp_malloc :: "'s option"
  ippsHashInit_rmf :: "'s \<Rightarrow> IppStatus \<times> 's"
  ippsHashUpdate_rmf :: "bytes \<Rightarrow> 's \<Rightarrow> IppStatus \<times> 's"
  ippsHashGetTag_rmf :: "'s \<Rightarrow> IppStatus \<times> bytes"
  ipp_poke :: "nat \<Rightarrow> bytes \<Rightarrow> 's \<Rightarrow> 's"

definition sgx_sha256_init :: "'s ipp \<Rightarrow> sgx_status_t \<times> 's option" where
  "sgx_sha256_init I =
     (if ippsHashGetSize_rmf I \<noteq> ippStsNoErr then (SGX_ERROR_UNEXPECTED, None)
      else case ipp_malloc I of
        None \<Rightarrow> (SGX_ERROR_OUT_OF_MEMORY, None)
      | Some p \<Rightarrow>
          (case ippsHashInit_rmf I p of (ret, p') \<Rightarrow>
             if ret \<noteq> ippStsNoErr then (ipp_status ret, None) else (SGX_SUCCESS, Some p')))"

definition sgx_sha256_update :: "'s ipp \<Rightarrow> bytes option \<Rightarrow> 's option \<Rightarrow> sgx_status_t \<times> 's option" where
  "sgx_sha256_update I src sha_handle =
     (case (src, sha_handle) of
        (Some bs, Some h) \<Rightarrow> (case ippsHashUpdate_rmf I bs h of (ret, h') \<Rightarrow> (ipp_status ret, Some h'))
      | _ \<Rightarrow> (SGX_ERROR_INVALID_PARAMETER, sha_handle))"

definition sgx_sha256_get_hash :: "'s ipp \<Rightarrow> 's option \<Rightarrow> bool \<Rightarrow> sgx_status_t \<times> bytes option" where
  "sgx_sha256_get_hash I sha_handle hash_nonnull =
     (case sha_handle of
        None \<Rightarrow> (SGX_ERROR_INVALID_PARAMETER, None)
      | Some h \<Rightarrow>
          if \<not> hash_nonnull then (SGX_ERROR_INVALID_PARAMETER, None)
          else (case ippsHashGetTag_rmf I h of (ret, d) \<Rightarrow>
            (ipp_status ret, if ret = ippStsNoErr then Some d else None)))"

definition sgx_sha256_close :: "'s option \<Rightarrow> sgx_status_t" where
  "sgx_sha256_close sha_handle =
     (if sha_handle = None then SGX_ERROR_INVALID_PARAMETER else SGX_SUCCESS)"

text \<open>The offsets into the state of IPP that the MAGE library writes to.\<close>

definition HANDLE_SIZE_OFFSET :: nat where "HANDLE_SIZE_OFFSET = 152"
definition HANDLE_HASH_OFFSET :: nat where "HANDLE_HASH_OFFSET = 168"

text \<open>
  The contract. IPP keeps the number of hashed bytes at offset 152 of the state and the
  chaining value at offset 168: writing both resumes a computation at a block boundary. The
  numbers describe the state of IPP and are not taken from the code.
\<close>

locale ipp_sha256 =
  fixes I :: "'s ipp" and rep :: "'s \<Rightarrow> bytes \<Rightarrow> bool"
  assumes resume: "ippsHashInit_rmf I p = (ippStsNoErr, h) \<Longrightarrow> 64 dvd length m \<Longrightarrow>
      rep (ipp_poke I 152 (le_bytes 8 (of_nat (length m) :: u64))
            (ipp_poke I 168 (chain_bytes m) h)) m"
    and update: "rep h m \<Longrightarrow> 64 dvd length m \<Longrightarrow> ippsHashUpdate_rmf I bs h = (ippStsNoErr, h') \<Longrightarrow> rep h' (m @ bs)"
    and get_tag: "rep h m \<Longrightarrow> ippsHashGetTag_rmf I h = (ippStsNoErr, d) \<Longrightarrow> d = fips_SHA256 m"

section \<open>The MAGE section of an enclave\<close>

text \<open>
  The section buffer \<^verbatim>\<open>sgx_mage_sec_buf\<close> is a list of \<^verbatim>\<open>SGX_MAGE_SEC_SIZE\<close> bytes.
\<close>

definition mage_hdr_size :: "bytes \<Rightarrow> u64" where
  "mage_hdr_size buf = of_le (take 8 buf)"

definition mage_hdr_entry :: "bytes \<Rightarrow> u64 \<Rightarrow> sgx_mage_entry_t" where
  "mage_hdr_entry buf idx = decode_mage_entry (drop (8 + 48 * unat idx) buf)"

definition sgx_mage_get_size :: "bytes \<Rightarrow> u64" where
  "sgx_mage_get_size buf =
     (let mage_size = mage_hdr_size buf in
      if mage_size * sizeof_mage_entry + sizeof_mage_hdr > SGX_MAGE_SEC_SIZE then 0 else mage_size)"

text \<open>The security information of the section's pages, \<^verbatim>\<open>{0x01, 0x02}\<close> and zeros.\<close>

definition mage_sinfo :: bytes where
  "mage_sinfo = [0x01, 0x02] @ replicate 62 0"

definition mage_eadd_block :: "u64 \<Rightarrow> bytes" where
  "mage_eadd_block page_offset = eadd_val @ le_bytes 8 page_offset @ take 48 mage_sinfo"

text \<open>An update of the running hash: every failure becomes \<^verbatim>\<open>SGX_ERROR_UNEXPECTED\<close>.\<close>

definition mage_update :: "'s ipp \<Rightarrow> bytes \<Rightarrow> 's option \<Rightarrow> sgx_status_t \<times> 's option" where
  "mage_update I blk h =
     (case sgx_sha256_update I (Some blk) h of (ret, h') \<Rightarrow>
        if ret \<noteq> SGX_SUCCESS then (SGX_ERROR_UNEXPECTED, h') else (SGX_SUCCESS, h'))"

text \<open>\<^verbatim>\<open>while (source < mage_sec_end_addr)\<close>, one page per iteration.\<close>

primrec mage_hash_pages :: "'s ipp \<Rightarrow> nat \<Rightarrow> u64 \<Rightarrow> bytes \<Rightarrow> 's option \<Rightarrow> sgx_status_t \<times> 's option" where
  "mage_hash_pages I 0 page_offset source h = (SGX_SUCCESS, h)"
| "mage_hash_pages I (Suc n) page_offset source h =
     and_then (mage_update I (mage_eadd_block page_offset) h)
       (\<lambda>h. and_then (eextend_loop (mage_update I) 16 page_offset source h)
          (mage_hash_pages I n (page_offset + 4096) (drop 4096 source)))"

definition sgx_mage_derive_measurement ::
  "'s ipp \<Rightarrow> bytes \<Rightarrow> u64 \<Rightarrow> bool \<Rightarrow> sgx_status_t \<times> bytes option" where
  "sgx_mage_derive_measurement I buf mage_idx mr_nonnull =
     (let mage_size = mage_hdr_size buf in
      if mage_size * sizeof_mage_entry + sizeof_mage_hdr > SGX_MAGE_SEC_SIZE
         \<or> mage_size \<le> mage_idx \<or> \<not> mr_nonnull then (SGX_ERROR_UNEXPECTED, None)
      else
        let mage = mage_hdr_entry buf mage_idx in
        case sgx_sha256_init I of (ret, sha_handle) \<Rightarrow>
          if ret \<noteq> SGX_SUCCESS then (SGX_ERROR_UNEXPECTED, None)
          else
            let h = map_option (\<lambda>h. ipp_poke I HANDLE_SIZE_OFFSET (le_bytes 8 (me_size mage))
                      (ipp_poke I HANDLE_HASH_OFFSET (me_digest mage) h)) sha_handle in
            case mage_hash_pages I (unat SGX_MAGE_SEC_SIZE div 4096) (me_offset mage) buf h of (ret, h) \<Rightarrow>
              if ret \<noteq> SGX_SUCCESS then (ret, None)
              else
                (case sgx_sha256_get_hash I h True of (ret, d) \<Rightarrow>
                   if ret \<noteq> SGX_SUCCESS then (SGX_ERROR_UNEXPECTED, None) else (SGX_SUCCESS, d)))"

section \<open>What the derivation hashes\<close>

text \<open>The page requests that the loader makes for a section with this content.\<close>

lemma mage_eadd_block_eq: "mage_eadd_block off = eadd_block off (sec_info 0x201)"
proof -
  have "le_bytes 8 (0x201 :: u64) = [1, 2, 0, 0, 0, 0, 0, 0]"
    by (simp add: le_bytes_def upt_rec)
  moreover have "le_bytes 8 (0 :: u64) = replicate 8 0"
    by (simp add: le_bytes_def upt_rec numeral_eq_Suc)
  ultimately show ?thesis
    by (simp add: mage_eadd_block_def eadd_block_def mage_sinfo_def sec_info_bytes_def sec_info_def
        numeral_eq_Suc)
qed

definition mage_page :: "u64 \<Rightarrow> bytes \<Rightarrow> page_req" where
  "mage_page rva page = \<lparr>pq_source = Some page, pq_rva = rva, pq_sinfo = sec_info 0x201, pq_attr = 3\<rparr>"

lemma page_blocks_mage:
  "page_blocks (mage_page rva page) = mage_eadd_block rva # extend_blocks 16 rva page"
  by (simp add: page_blocks_def mage_page_def req_source_def mage_eadd_block_eq PAGE_ATTR_EADD_def
      ADD_EXTEND_PAGE_def PAGE_ATTR_EEXTEND_def)

lemma mage_hash_pages_one:
  "mage_hash_pages I 1 off buf h = for_each (mage_update I) (page_blocks (mage_page off buf)) h"
  by (simp add: page_blocks_mage eextend_loop_blocks and_then_def split: prod.split)

lemma mage_hash_section:
  "mage_hash_pages I (unat SGX_MAGE_SEC_SIZE div 4096) off buf h
     = for_each (mage_update I) (page_blocks (mage_page off buf)) h"
  using mage_hash_pages_one by (simp add: SGX_MAGE_SEC_SIZE_def)

context ipp_sha256
begin

lemma mage_update_rep:
  assumes "rep h m" "64 dvd length m" "mage_update I b (Some h) = (SGX_SUCCESS, h')"
  obtains h'' where "h' = Some h''" "rep h'' (m @ b)"
proof -
  obtain st h1 where u: "ippsHashUpdate_rmf I b h = (st, h1)" by fastforce
  have "ipp_status st = SGX_SUCCESS" "h' = Some h1"
    using assms(3) u by (auto simp: mage_update_def sgx_sha256_update_def split: if_splits)
  then have "st = ippStsNoErr" by (cases st) auto
  with u that \<open>h' = Some h1\<close> update [OF assms(1, 2)] show ?thesis by blast
qed

lemma mage_updates_rep:
  "rep h m \<Longrightarrow> 64 dvd length m \<Longrightarrow> \<forall>b \<in> set bs. length b = 64 \<Longrightarrow>
     for_each (mage_update I) bs (Some h) = (SGX_SUCCESS, h') \<Longrightarrow>
     \<exists>h''. h' = Some h'' \<and> rep h'' (m @ concat bs)"
proof (induction bs arbitrary: h m)
  case (Cons b bs)
  obtain h1 where h1: "mage_update I b (Some h) = (SGX_SUCCESS, h1)"
      and rest: "for_each (mage_update I) bs h1 = (SGX_SUCCESS, h')"
    using Cons.prems(4) by (auto simp: and_then_eq_Success)
  obtain h2 where "h1 = Some h2" "rep h2 (m @ b)"
    using mage_update_rep [OF Cons.prems(1, 2) h1] .
  then show ?case using Cons.IH [of h2 "m @ b"] Cons.prems rest by simp
qed auto

text \<open>The derivation resumes at the recorded state and ends with the digest of the whole message.\<close>

lemma derive_measurement_resumes:
  assumes "length buf = 4096" and "64 dvd length m"
    and entry: "mage_hdr_entry buf idx = \<lparr>me_size = of_nat (length m), me_offset = rva, me_digest = chain_bytes m\<rparr>"
    and ok: "sgx_mage_derive_measurement I buf idx True = (SGX_SUCCESS, r)"
  shows "r = Some (fips_SHA256 (m @ concat (page_blocks (mage_page rva buf))))"
proof -
  obtain h0 where h0: "sgx_sha256_init I = (SGX_SUCCESS, h0)"
    using ok by (cases "sgx_sha256_init I")
      (auto simp: sgx_mage_derive_measurement_def Let_def split: if_splits)
  obtain p h where h: "h0 = Some h" "ippsHashInit_rmf I p = (ippStsNoErr, h)"
  proof (cases "ipp_malloc I")
    case (Some p)
    obtain st h' where "ippsHashInit_rmf I p = (st, h')" by fastforce
    moreover have "ipp_status st = SGX_SUCCESS \<longleftrightarrow> st = ippStsNoErr" by (cases st) auto
    ultimately show ?thesis using that h0 Some by (auto simp: sgx_sha256_init_def split: if_splits)
  qed (use h0 in \<open>simp add: sgx_sha256_init_def split: if_splits\<close>)
  let ?h1 = "ipp_poke I HANDLE_SIZE_OFFSET (le_bytes 8 (of_nat (length m) :: u64))
      (ipp_poke I HANDLE_HASH_OFFSET (chain_bytes m) h)"
  obtain st h2 where h2: "for_each (mage_update I) (page_blocks (mage_page rva buf)) (Some ?h1) = (st, h2)"
    by fastforce
  obtain st3 d where d: "sgx_sha256_get_hash I h2 True = (st3, d)" by fastforce
  have fin: "st = SGX_SUCCESS" "st3 = SGX_SUCCESS" "r = d"
    using ok h0 h(1) h2 d entry
    by (simp_all add: sgx_mage_derive_measurement_def Let_def mage_hash_section
        split: if_splits)
  have "wf_req (mage_page rva buf)"
    using assms(1) by (simp add: wf_req_def mage_page_def req_source_def sec_info_def)
  then have "\<forall>b \<in> set (page_blocks (mage_page rva buf)). length b = 64" using length_page_blocks by blast
  then obtain h3 where h3: "h2 = Some h3" "rep h3 (m @ concat (page_blocks (mage_page rva buf)))"
    using mage_updates_rep [OF resume [OF h(2) assms(2), folded HANDLE_SIZE_OFFSET_def HANDLE_HASH_OFFSET_def] assms(2)] h2 fin by blast
  obtain st4 d4 where d4: "ippsHashGetTag_rmf I h3 = (st4, d4)" by fastforce
  have "st4 = ippStsNoErr" "d = Some d4"
    using d fin d4 h3(1) by (cases st4; auto simp: sgx_sha256_get_hash_def)+
  then show ?thesis using get_tag [OF h3(2)] d4 fin by simp
qed

end

section \<open>Total primitives\<close>

text \<open>When no IPP call fails, the derivation fails only on its own checks.\<close>

definition ipp_total :: "'s ipp \<Rightarrow> bool" where
  "ipp_total I \<longleftrightarrow> ippsHashGetSize_rmf I = ippStsNoErr \<and> ipp_malloc I \<noteq> None
     \<and> (\<forall>h. fst (ippsHashInit_rmf I h) = ippStsNoErr)
     \<and> (\<forall>b h. fst (ippsHashUpdate_rmf I b h) = ippStsNoErr)
     \<and> (\<forall>h. fst (ippsHashGetTag_rmf I h) = ippStsNoErr)"

lemma mage_updates_total:
  "ipp_total I \<Longrightarrow> \<exists>h'. for_each (mage_update I) bs (Some h) = (SGX_SUCCESS, Some h')"
proof (induction bs arbitrary: h)
  case (Cons b bs)
  obtain h1 where "ippsHashUpdate_rmf I b h = (ippStsNoErr, h1)"
    using Cons.prems by (metis ipp_total_def prod.collapse)
  then have "mage_update I b (Some h) = (SGX_SUCCESS, Some h1)"
    by (simp add: mage_update_def sgx_sha256_update_def)
  then show ?case using Cons by simp
qed simp

lemma derive_measurement_total:
  assumes "ipp_total I"
    and "\<not> mage_hdr_size buf * sizeof_mage_entry + sizeof_mage_hdr > SGX_MAGE_SEC_SIZE"
    and "idx < mage_hdr_size buf"
  shows "\<exists>d. sgx_mage_derive_measurement I buf idx True = (SGX_SUCCESS, Some d)"
proof -
  obtain p where p: "ipp_malloc I = Some p" using assms(1) by (auto simp: ipp_total_def)
  obtain h where h: "ippsHashInit_rmf I p = (ippStsNoErr, h)"
    using assms(1) by (metis ipp_total_def prod.collapse)
  have i: "sgx_sha256_init I = (SGX_SUCCESS, Some h)"
    using assms(1) p h by (simp add: sgx_sha256_init_def ipp_total_def)
  obtain h2 where u: "for_each (mage_update I) (page_blocks (mage_page (me_offset (mage_hdr_entry buf idx)) buf))
      (Some (ipp_poke I HANDLE_SIZE_OFFSET (le_bytes 8 (me_size (mage_hdr_entry buf idx)))
        (ipp_poke I HANDLE_HASH_OFFSET (me_digest (mage_hdr_entry buf idx)) h))) = (SGX_SUCCESS, Some h2)"
    using mage_updates_total [OF assms(1)] by blast
  obtain d where "ippsHashGetTag_rmf I h2 = (ippStsNoErr, d)"
    using assms(1) by (metis ipp_total_def prod.collapse)
  then show ?thesis
    using assms(2, 3) i u
    by (simp add: sgx_mage_derive_measurement_def Let_def mage_hash_section sgx_sha256_get_hash_def
        linorder_not_le)
qed

section \<open>The protected code loader's SHA-256 as a resumable hash\<close>

definition pcl_poke :: "nat \<Rightarrow> bytes \<Rightarrow> SHA256_CTX \<Rightarrow> SHA256_CTX" where
  "pcl_poke off bs c =
     (if off = 168
      then c\<lparr>sha_h := map (\<lambda>i. of_le (take 4 (drop (4 * i) bs))) [0..<8]\<rparr>
      else let bits = 8 * of_le bs :: u64
           in c\<lparr>sha_Nl := ucast bits, sha_Nh := ucast (drop_bit 32 bits)\<rparr>)"

definition pcl_ipp :: "SHA256_CTX ipp" where
  "pcl_ipp = \<lparr>
     ippsHashGetSize_rmf = ippStsNoErr,
     ipp_malloc = Some pcl_SHA256_Init,
     ippsHashInit_rmf = (\<lambda>_. (ippStsNoErr, pcl_SHA256_Init)),
     ippsHashUpdate_rmf = (\<lambda>bs h. (ippStsNoErr, pcl_SHA256_Update h bs)),
     ippsHashGetTag_rmf = (\<lambda>h. (ippStsNoErr, fst (pcl_SHA256_Final h))),
     ipp_poke = pcl_poke\<rparr>"

lemma words_of_concat:
  "length ws = n \<Longrightarrow> map (\<lambda>i. of_le (take 4 (drop (4 * i) (concat (map (le_bytes 4) ws))))) [0..<n] = (ws :: u32 list)"
proof (induction ws arbitrary: n)
  case (Cons w ws)
  then obtain k where n: "n = Suc k" "length ws = k" by (cases n) auto
  have "[0..<Suc k] = 0 # map Suc [0..<k]" by (simp add: upt_conv_Cons map_Suc_upt del: upt_Suc)
  then show ?case using Cons.IH [OF n(2)] n(1)
    by (simp add: comp_def of_le_le_bytes del: upt_Suc)
qed simp

lemma pcl_resume:
  assumes "64 dvd length m"
  shows "sha_rep (pcl_poke 152 (le_bytes 8 (of_nat (length m) :: u64))
      (pcl_poke 168 (chain_bytes m) pcl_SHA256_Init)) m"
proof -
  let ?bits = "8 * of_nat (length m) :: u64"
  have "unat (ucast (drop_bit 32 ?bits) :: u32) * 2 ^ 32 + unat (ucast ?bits :: u32) = unat ?bits"
  proof -
    have "unat ?bits div 2 ^ 32 < 2 ^ 32"
      using unat_less_exp [of ?bits] by (simp add: less_mult_imp_div_less)
    then show ?thesis
      by (simp add: unsigned_ucast_eq take_bit_eq_mod drop_bit_eq_div unat_div div_mult_mod_eq)
  qed
  moreover have "unat ?bits = 8 * length m mod 2 ^ 64"
    by (simp add: unat_word_ariths unat_of_nat mod_mult_right_eq)
  moreover have "map (\<lambda>i. of_le (take 4 (drop (4 * i) (chain_bytes m)))) [0..<8] = fips_absorb m fips_IV"
    unfolding chain_bytes_def
    by (rule words_of_concat) (simp add: length_fips_absorb length_fips_IV)
  moreover have "length m mod 64 = 0" "64 * (length m div 64) = length m"
    using assms by simp_all
  ultimately show ?thesis
    by (simp add: sha_rep_def pcl_poke_def bit_count_def Let_def of_le_le_bytes del: upt_Suc)
      (simp add: pcl_SHA256_Init_def SHA_CBLOCK_def)
qed

interpretation pcl_ipp: ipp_sha256 pcl_ipp "\<lambda>h m. sha_rep h m"
proof unfold_locales
  fix p h m
  assume "ippsHashInit_rmf pcl_ipp p = (ippStsNoErr, h)" "64 dvd length (m :: bytes)"
  then show "sha_rep (ipp_poke pcl_ipp 152 (le_bytes 8 (of_nat (length m) :: u64))
      (ipp_poke pcl_ipp 168 (chain_bytes m) h)) m"
    using pcl_resume [of m] by (simp add: pcl_ipp_def)
next
  fix h m d
  assume "sha_rep h m" "ippsHashGetTag_rmf pcl_ipp h = (ippStsNoErr, d)"
  then show "d = fips_SHA256 m" using sha_rep_final [of h m] by (simp add: pcl_ipp_def)
qed (auto simp: pcl_ipp_def sha_rep_update)

lemma pcl_ipp_total: "ipp_total pcl_ipp"
  by (simp add: ipp_total_def pcl_ipp_def)

section \<open>The size in the header\<close>

text \<open>
  C4: the check of the number of entries wraps around. \<^verbatim>\<open>sgx_mage_get_size\<close> compares the size of the
  entries modulo \<open>2 ^ 64\<close>, so it reports any number whose product is small only after the wrap: a
  header with \<open>2 ^ 60\<close> entries passes although the section has room for 85. Below \<open>2 ^ 58\<close> entries
  the check is exact.
\<close>

theorem mage_size_check_wraps:
  "sgx_mage_get_size buf = (if (48 * unat (mage_hdr_size buf) + 8) mod 2 ^ 64 \<le> 4096 then mage_hdr_size buf else 0)
   \<and> sgx_mage_get_size (le_bytes 8 (2 ^ 60 :: u64) @ replicate 4088 0) = 2 ^ 60
   \<and> (unat (mage_hdr_size buf) < 2 ^ 58 \<longrightarrow> unat (sgx_mage_get_size buf) \<le> 85)"
proof (intro conjI impI)
  have u: "unat (mage_hdr_size buf * sizeof_mage_entry + sizeof_mage_hdr) = (48 * unat (mage_hdr_size buf) + 8) mod 2 ^ 64"
    by (simp add: unat_word_ariths sizeof_mage_entry_def sizeof_mage_hdr_def mod_add_left_eq mult.commute)
  show size: "sgx_mage_get_size buf = (if (48 * unat (mage_hdr_size buf) + 8) mod 2 ^ 64 \<le> 4096 then mage_hdr_size buf else 0)"
    unfolding sgx_mage_get_size_def Let_def word_less_nat_alt u by (simp add: SGX_MAGE_SEC_SIZE_def)
  show "sgx_mage_get_size (le_bytes 8 (2 ^ 60 :: u64) @ replicate 4088 0) = 2 ^ 60"
    by (simp add: sgx_mage_get_size_def mage_hdr_size_def of_le_le_bytes sizeof_mage_entry_def sizeof_mage_hdr_def SGX_MAGE_SEC_SIZE_def)
  assume "unat (mage_hdr_size buf) < 2 ^ 58"
  then have "(48 * unat (mage_hdr_size buf) + 8) mod 2 ^ 64 = 48 * unat (mage_hdr_size buf) + 8" by simp
  then show "unat (sgx_mage_get_size buf) \<le> 85" unfolding size by simp
qed

theorem mage_size_check_wraps_witness:
  "unat (sgx_mage_get_size (le_bytes 8 (3 :: u64))) \<le> 85 \<and> sgx_mage_get_size (le_bytes 8 (3 :: u64)) = 3"
proof -
  have "mage_hdr_size (le_bytes 8 (3 :: u64)) = 3" by (simp add: mage_hdr_size_def of_le_le_bytes)
  then show ?thesis using mage_size_check_wraps [of "le_bytes 8 (3 :: u64)"] by simp
qed

end
