(* ===== verification/Sign_Tool.thy ===== *)
theory Sign_Tool
  imports Mage_Image Sgx_Mage
begin

text \<open>
  The parts of \<^verbatim>\<open>sdk/sign_tool/SignTool/sign_tool.cpp\<close> that measure an enclave file and that
  implement the commands \<^verbatim>\<open>genmage\<close> and \<^verbatim>\<open>signmage\<close>, with the file helpers of
  \<^verbatim>\<open>util_st.cpp\<close>. The parser of the enclave file and the construction of the metadata from
  the configuration are arguments (\<open>tool_env\<close>); the creator that measures is the static
  \<^verbatim>\<open>g_enclave_creator\<close>, whose state the commands thread from one measurement to the next.
\<close>

section \<open>Files\<close>

type_synonym files = "string \<rightharpoonup> bytes"

definition get_file_size :: "files \<Rightarrow> string \<Rightarrow> u64" where
  "get_file_size fs path = (case fs path of None \<Rightarrow> - 1 | Some bs \<Rightarrow> of_nat (length bs))"

definition read_file_to_buf :: "files \<Rightarrow> string \<Rightarrow> nat \<Rightarrow> nat \<Rightarrow> bytes option" where
  "read_file_to_buf fs path bsize offset =
     (if bsize = 0 then None
      else case fs path of
        None \<Rightarrow> None
      | Some bs \<Rightarrow> if offset + bsize \<le> length bs then Some (take bsize (drop offset bs)) else None)"

text \<open>\<^verbatim>\<open>seekp\<close> behind the end leaves a gap of zeros.\<close>

definition write_at :: "bytes \<Rightarrow> nat \<Rightarrow> bytes \<Rightarrow> bytes" where
  "write_at bs off data = take off (bs @ replicate (off - length bs) 0) @ data @ drop (off + length data) bs"

text \<open>
  \<^verbatim>\<open>write_data_to_file\<close> in the two modes that the commands use: \<^verbatim>\<open>in | out\<close> needs an existing
  file, \<^verbatim>\<open>out | app\<close> creates it and ignores the position.
\<close>

definition write_data_to_file :: "files \<Rightarrow> string \<Rightarrow> bytes \<Rightarrow> nat \<Rightarrow> files option" where
  "write_data_to_file fs path buf offset =
     (if buf = [] then None
      else case fs path of None \<Rightarrow> None | Some bs \<Rightarrow> Some (fs(path \<mapsto> write_at bs offset buf)))"

definition append_data_to_file :: "files \<Rightarrow> string \<Rightarrow> bytes \<Rightarrow> files option" where
  "append_data_to_file fs path buf =
     (if buf = [] then None
      else Some (fs(path \<mapsto> (case fs path of None \<Rightarrow> [] | Some bs \<Rightarrow> bs) @ buf)))"

text \<open>\<^verbatim>\<open>copy_file\<close>: opening the destination truncates it, so that a file that is copied to itself becomes empty.\<close>

definition copy_file :: "files \<Rightarrow> string \<Rightarrow> string \<Rightarrow> files option" where
  "copy_file fs source_path dest_path =
     (case fs source_path of
        None \<Rightarrow> None
      | Some bs \<Rightarrow> Some (fs(dest_path \<mapsto> if source_path = dest_path then [] else bs)))"

section \<open>Measuring an enclave file\<close>

record 'c parsed =
  pr_parser :: "'c bin_parser"
  pr_metadata_offset :: u64
  pr_has_init_section :: bool
  pr_no_textrels :: bool

text \<open>
  \<^verbatim>\<open>run_parser\<close> on the mapped file, and \<^verbatim>\<open>CMetadata::build_metadata\<close> for the given
  configuration: \<^const>\<open>None\<close> when it reports an error.
\<close>

record 'c tool_env =
  run_parser :: "bytes \<Rightarrow> sgx_status_t \<times> 'c parsed"
  te_build_metadata :: "'c parsed \<Rightarrow> metadata_t option"
  ignore_init_sec_error :: bool
  ignore_rel_error :: bool

definition already_signed :: "'c parsed \<Rightarrow> bytes \<Rightarrow> bool" where
  "already_signed pr bs \<longleftrightarrow> rd_word (mem_of 0 bs) (unat (pr_metadata_offset pr)) 8 = METADATA_MAGIC"

text \<open>What \<^verbatim>\<open>measure_enclave\<close> writes through its reference and pointer parameters.\<close>

record measured =
  mo_hash :: bytes
  mo_metadata :: "metadata_t option"
  mo_meta_offset :: u64
  mo_mage_rva :: u64
  mo_mage_offset :: u64
  mo_mage_size :: u64
  mo_mage_t :: sgx_mage_entry_t

definition record_mage_section :: "'c bin_parser \<Rightarrow> measured \<Rightarrow> measured" where
  "record_mage_section P out = (case get_mage_section P of
     None \<Rightarrow> out
   | Some ms \<Rightarrow> out\<lparr>mo_mage_rva := sec_rva ms, mo_mage_offset := sec_offset ms, mo_mage_size := sec_virtual_size ms\<rparr>)"

text \<open>\<^verbatim>\<open>load_enclave\<close>: a fresh loader on the parsed file.\<close>

definition tool_load_enclave ::
  "'h evp \<Rightarrow> 'h creator_st bin_parser \<Rightarrow> metadata_t \<Rightarrow> bytes \<Rightarrow> 'h creator_st
    \<Rightarrow> (sgx_status_t \<times> 'h creator_st loader) option" where
  "tool_load_enclave E P m bs c = load_enclave_ex (st_creator E) P 0 (Some m) None 0 (CLoader (mem_of 0 bs) c)"

text \<open>
  \<^verbatim>\<open>measure_enclave\<close>: the result, the outputs and the creator; \<^const>\<open>None\<close> if it does not return. An empty
  file cannot be mapped.
\<close>

definition measure_enclave ::
  "'h evp \<Rightarrow> 'h creator_st tool_env \<Rightarrow> files \<Rightarrow> string \<Rightarrow> bool \<Rightarrow> bool \<Rightarrow> measured \<Rightarrow> 'h creator_st
    \<Rightarrow> (bool \<times> measured \<times> 'h creator_st) option" where
  "measure_enclave E T fs dllpath want_mage for_sign out c =
     (case fs dllpath of
        None \<Rightarrow> Some (False, out, c)
      | Some bs \<Rightarrow>
          if bs = [] then Some (False, out, c)
          else case run_parser T bs of (status, pr) \<Rightarrow>
          if status \<noteq> SGX_SUCCESS then Some (False, out, c)
          else
            let out = record_mage_section (pr_parser pr) out;
                P = set_for_sign for_sign (pr_parser pr);
                pr = pr\<lparr>pr_parser := P\<rparr>
            in
            if pr_has_init_section pr \<and> \<not> ignore_init_sec_error T then Some (False, out, c)
            else case te_build_metadata T pr of
              None \<Rightarrow> Some (False, out, c)
            | Some m \<Rightarrow>
                let out = out\<lparr>mo_metadata := Some m\<rparr> in
                if already_signed pr bs then Some (False, out, c)
                else
                  let out = out\<lparr>mo_meta_offset := pr_metadata_offset pr\<rparr> in
                  if \<not> pr_no_textrels pr \<and> \<not> ignore_rel_error T then Some (False, out, c)
                  else case tool_load_enclave E P m bs c of
                    None \<Rightarrow> None
                  | Some (ret, s) \<Rightarrow>
                      let c = ld_creator s in
                      if ret \<noteq> SGX_SUCCESS then Some (False, out, c)
                      else case st_get_enclave_info 32 c of
                        (_, None) \<Rightarrow> Some (False, out, c)
                      | (_, Some (hash, quota, mage)) \<Rightarrow>
                          Some (True, out\<lparr>mo_hash := hash, mo_mage_t := if want_mage then mage else mo_mage_t out\<rparr>, c))"

section \<open>The commands genmage and signmage\<close>

definition initial_measured :: measured where
  "initial_measured = \<lparr>mo_hash = replicate 32 0, mo_metadata = None, mo_meta_offset = 0, mo_mage_rva = 0,
     mo_mage_offset = 0, mo_mage_size = 0,
     mo_mage_t = \<lparr>me_size = 0, me_offset = 0, me_digest = replicate 32 0\<rparr>\<rparr>"

text \<open>\<^verbatim>\<open>genmage\<close>: measure without the MAGE section and append the entry to the output file.\<close>

definition genmage ::
  "'h evp \<Rightarrow> 'h creator_st tool_env \<Rightarrow> files \<Rightarrow> string \<Rightarrow> string \<Rightarrow> (bool \<times> files) option" where
  "genmage E T fs dll mageout =
     (case measure_enclave E T fs dll True True initial_measured EnclaveCreatorST of
        None \<Rightarrow> None
      | Some (res, out, c) \<Rightarrow>
          if \<not> res then Some (False, fs)
          else
            let mage_t = (mo_mage_t out)\<lparr>me_offset := mo_mage_rva out\<rparr> in
            case append_data_to_file fs mageout (mage_entry_bytes mage_t) of
              None \<Rightarrow> Some (False, fs)
            | Some fs' \<Rightarrow> Some (True, fs'))"

text \<open>
  \<^verbatim>\<open>signmage\<close> up to the final measurement: copy the enclave, write the header and the entries
  of all members into its MAGE section, and measure the result.
\<close>

definition magein_header :: "bytes \<Rightarrow> bytes" where
  "magein_header entries = le_bytes 8 (of_nat (length entries) div sizeof_mage_entry :: u64) @ entries"

definition signmage ::
  "'h evp \<Rightarrow> 'h creator_st tool_env \<Rightarrow> files \<Rightarrow> string \<Rightarrow> string \<Rightarrow> string
    \<Rightarrow> (bool \<times> files \<times> measured) option" where
  "signmage E T fs dll output magein =
     (case copy_file fs dll output of
        None \<Rightarrow> Some (False, fs, initial_measured)
      | Some fs \<Rightarrow>
          let magein_size = get_file_size fs magein;
              magein_t_size = magein_size + sizeof_mage_hdr
          in
          if magein_size mod sizeof_mage_entry \<noteq> 0 \<or> magein_t_size > SGX_MAGE_SEC_SIZE
          then Some (False, fs, initial_measured)
          else case read_file_to_buf fs magein (unat magein_size) 0 of
            None \<Rightarrow> Some (False, fs, initial_measured)
          | Some entries \<Rightarrow>
              case measure_enclave E T fs output False True initial_measured EnclaveCreatorST of
                None \<Rightarrow> None
              | Some (res, out, c) \<Rightarrow>
                  if \<not> res then Some (False, fs, out)
                  else case write_data_to_file fs output (magein_header entries) (unat (mo_mage_offset out)) of
                    None \<Rightarrow> Some (False, fs, out)
                  | Some fs \<Rightarrow>
                      if read_file_to_buf fs output (unat magein_t_size) (unat (mo_mage_offset out)) = None
                      then Some (False, fs, out)
                      else case measure_enclave E T fs output False False out c of
                        None \<Rightarrow> None
                      | Some (res, out, c) \<Rightarrow> Some (res, fs, out))"

section \<open>Measuring terminates\<close>

lemma tool_load_enclave_returns:
  "tool_load_enclave E P m bs c
     = Some (load_enclave (st_creator E) P 0 (Some m) None 0 (CLoader (mem_of 0 bs) c))"
  unfolding tool_load_enclave_def by (rule st_load_enclave_ex)

lemma measure_enclave_returns: "measure_enclave E T fs dll want for_sign out c \<noteq> None"
  by (simp add: measure_enclave_def Let_def tool_load_enclave_returns del: not_None_eq
      split: option.split prod.split)

lemma genmage_returns: "genmage E T fs dll mageout \<noteq> None"
  by (simp add: genmage_def Let_def measure_enclave_returns del: not_None_eq split: option.split prod.split)

lemma signmage_returns: "signmage E T fs dll output magein \<noteq> None"
  by (simp add: signmage_def Let_def measure_enclave_returns del: not_None_eq split: option.split prod.split)

section \<open>What a measurement returns\<close>

lemma measure_enclave_True:
  assumes "measure_enclave E T fs dll want for_sign out c = Some (True, out', c')"
    and "fs dll = Some bs" and "run_parser T bs = (SGX_SUCCESS, pr)"
  obtains m s where "te_build_metadata T (pr\<lparr>pr_parser := set_for_sign for_sign (pr_parser pr)\<rparr>) = Some m"
    and "load_enclave (st_creator E) (set_for_sign for_sign (pr_parser pr)) 0 (Some m) None 0
           (CLoader (mem_of 0 bs) c) = (SGX_SUCCESS, s)"
    and "c' = ld_creator s"
    and "mo_hash out' = m_enclave_hash c'"
    and "want \<longrightarrow> mo_mage_t out' = m_mage c'"
    and "\<forall>ms. bp_mage_section (pr_parser pr) = Some ms \<longrightarrow>
           mo_mage_rva out' = sec_rva ms \<and> mo_mage_offset out' = sec_offset ms"
proof -
  let ?P = "set_for_sign for_sign (pr_parser pr)"
  obtain m where m: "te_build_metadata T (pr\<lparr>pr_parser := ?P\<rparr>) = Some m"
    using assms by (auto simp: measure_enclave_def Let_def split: if_splits option.splits)
  obtain ret s where s: "load_enclave (st_creator E) ?P 0 (Some m) None 0 (CLoader (mem_of 0 bs) c) = (ret, s)"
    by fastforce
  have "ret = SGX_SUCCESS \<and> c' = ld_creator s \<and> mo_hash out' = m_enclave_hash c'
      \<and> (want \<longrightarrow> mo_mage_t out' = m_mage c')
      \<and> (\<forall>ms. bp_mage_section (pr_parser pr) = Some ms \<longrightarrow> mo_mage_rva out' = sec_rva ms \<and> mo_mage_offset out' = sec_offset ms)"
    using assms m s
    by (auto simp: measure_enclave_def Let_def tool_load_enclave_returns st_get_enclave_info_def
        record_mage_section_def get_mage_section_def split: if_splits option.splits)
  then show ?thesis using that m s by blast
qed

lemma measure_enclave_mage:
  assumes "measure_enclave E T fs dll want for_sign out c = Some (True, out', c')"
    and "fs dll = Some bs" and "run_parser T bs = (SGX_SUCCESS, pr)"
    and "bp_mage_section (pr_parser pr) = Some ms"
  shows "mo_mage_rva out' = sec_rva ms" and "mo_mage_offset out' = sec_offset ms"
    and "want \<Longrightarrow> mo_mage_t out' = m_mage c'"
  by (rule measure_enclave_True [OF assms(1-3)], use assms(4) in simp)+

lemma measure_enclave_cases:
  obtains res out' c' where "measure_enclave E T fs dll want for_sign out c = Some (res, out', c')"
  using measure_enclave_returns [of E T fs dll want for_sign out c] by auto

text \<open>The message that is hashed for a file, and the entry that \<^verbatim>\<open>genmage\<close> derives from it.\<close>

lemma measured_message:
  assumes "evp_sha256 E rep" and "measure_enclave E T fs dll want for_sign out c = Some (True, out', c')"
    and "fs dll = Some bs" and "run_parser T bs = (SGX_SUCCESS, pr)"
  obtains m bm where "te_build_metadata T (pr\<lparr>pr_parser := set_for_sign for_sign (pr_parser pr)\<rparr>) = Some m"
    and "bp_get_reloc_bitmap (pr_parser pr) (mem_of 0 bs) = Some bm"
    and "mo_hash out' = fips_SHA256 (enclave_message (set_for_sign for_sign (pr_parser pr)) m bm (patch_file m (mem_of 0 bs)))"
    and "m_mage c' = (m_mage c)\<lparr>
       me_size := me_size (m_mage c) + of_nat (length (enclave_message (set_for_sign for_sign (pr_parser pr)) m bm (patch_file m (mem_of 0 bs)))),
       me_digest := chain_bytes (enclave_message (set_for_sign for_sign (pr_parser pr)) m bm (patch_file m (mem_of 0 bs)))\<rparr>"
proof -
  obtain m s where m: "te_build_metadata T (pr\<lparr>pr_parser := set_for_sign for_sign (pr_parser pr)\<rparr>) = Some m"
    and l: "load_enclave (st_creator E) (set_for_sign for_sign (pr_parser pr)) 0 (Some m) None 0
           (CLoader (mem_of 0 bs) c) = (SGX_SUCCESS, s)"
    and c': "c' = ld_creator s" "mo_hash out' = m_enclave_hash c'"
    using measure_enclave_True [OF assms(2-4)] by metis
  show ?thesis
    by (rule evp_sha256.load_enclave_measures [OF assms(1) l]) (use that m c' in \<open>simp add: CLoader_def\<close>)
qed

section \<open>Files that agree outside the MAGE section\<close>

lemma nth_write_at:
  assumes "off + length data \<le> length bs" and "a < length bs"
  shows "write_at bs off data ! a = (if off \<le> a \<and> a < off + length data then data ! (a - off) else bs ! a)"
  using assms by (auto simp: write_at_def nth_append min_def)

lemma length_write_at: "off + length data \<le> length bs \<Longrightarrow> length (write_at bs off data) = length bs"
  by (simp add: write_at_def)

lemma same_outside_write_at:
  assumes "unat (sec_offset ms) + unat (sec_virtual_size ms) \<le> length bs"
    and "length data \<le> unat (sec_virtual_size ms)"
  shows "same_outside ms (mem_of 0 bs) (mem_of 0 (write_at bs (unat (sec_offset ms)) data))"
  using assms by (auto simp: same_outside_def mem_of_def in_file_range_def length_write_at nth_write_at)

lemma rd_write_at:
  assumes "off + n \<le> length bs" and "length data \<le> n"
  shows "rd (mem_of 0 (write_at bs off data)) off n = data @ rd (mem_of 0 bs) (off + length data) (n - length data)"
  using assms
  by (intro nth_equalityI) (auto simp: mem_of_def length_write_at nth_write_at nth_append)

section \<open>The two measurements of a member\<close>

text \<open>
  \<open>mage_ready T bs pr ms\<close>: the parser accepts the file \<open>bs\<close> with the MAGE section \<open>ms\<close>, one page
  long and inside the file; it, the metadata and the relocation bitmap do not depend on what
  the section contains or on the signing mode, and no patch touches the section.
\<close>

definition mage_ready :: "'c tool_env \<Rightarrow> bytes \<Rightarrow> 'c parsed \<Rightarrow> section_t \<Rightarrow> bool" where
  "mage_ready T bs pr ms \<longleftrightarrow>
     mage_section_wf (pr_parser pr) ms \<and> unat (sec_virtual_size ms) = 4096
     \<and> unat (sec_offset ms) + 4096 \<le> length bs
     \<and> (\<forall>b. te_build_metadata T (pr\<lparr>pr_parser := set_for_sign b (pr_parser pr)\<rparr>) = te_build_metadata T pr)
     \<and> (\<forall>m. te_build_metadata T pr = Some m \<longrightarrow> patch_avoids ms m)
     \<and> (\<forall>bs'. length bs' = length bs \<longrightarrow> same_outside ms (mem_of 0 bs) (mem_of 0 bs') \<longrightarrow>
           run_parser T bs' = (SGX_SUCCESS, pr)
           \<and> bp_get_reloc_bitmap (pr_parser pr) (mem_of 0 bs') = bp_get_reloc_bitmap (pr_parser pr) (mem_of 0 bs))"

lemma same_outside_refl [simp]: "same_outside ms f f"
  by (simp add: same_outside_def)

lemma mage_ready_parse: "mage_ready T bs pr ms \<Longrightarrow> run_parser T bs = (SGX_SUCCESS, pr)"
  by (auto simp: mage_ready_def)

lemma mage_ready_stable:
  assumes "mage_ready T bs pr ms" "length bs' = length bs" "same_outside ms (mem_of 0 bs) (mem_of 0 bs')"
  shows "run_parser T bs' = (SGX_SUCCESS, pr)"
    and "bp_get_reloc_bitmap (pr_parser pr) (mem_of 0 bs') = bp_get_reloc_bitmap (pr_parser pr) (mem_of 0 bs)"
  using assms unfolding mage_ready_def by blast+

text \<open>
  The message of the final measurement is the one that \<^verbatim>\<open>genmage\<close> hashed, whatever the
  section contained then, followed by the section's page.
\<close>

lemma enclave_message_split:
  assumes ready: "mage_ready T bs pr ms" and m: "te_build_metadata T pr = Some m"
    and bs': "length bs' = length bs" "same_outside ms (mem_of 0 bs) (mem_of 0 bs')"
  shows "enclave_message (set_for_sign False (pr_parser pr)) m bm (patch_file m (mem_of 0 bs'))
    = enclave_message (set_for_sign True (pr_parser pr)) m bm (patch_file m (mem_of 0 bs))
      @ concat (page_blocks (mage_page (sec_rva ms) (rd (mem_of 0 bs') (unat (sec_offset ms)) 4096)))"
proof -
  let ?P = "pr_parser pr"
  have wf: "mage_section_wf ?P ms" and sz: "unat (sec_virtual_size ms) = 4096"
    and avoid: "patch_avoids ms m" and sec: "bp_mage_section ?P = Some ms"
    using ready m by (auto simp: mage_ready_def mage_section_wf_def)
  have "common_pages ?P m bm (patch_file m (mem_of 0 bs')) = common_pages ?P m bm (patch_file m (mem_of 0 bs))"
    using common_pages_same [OF wf same_outside_patch [OF bs'(2)]] by simp
  moreover have "rd (patch_file m (mem_of 0 bs')) (unat (sec_offset ms)) 4096
      = rd (mem_of 0 bs') (unat (sec_offset ms)) 4096"
    by (rule rd_cong) (simp add: patch_file_avoids [OF avoid] in_file_range_def sz)
  moreover have "page_count_of (sec_virtual_size ms) = Suc 0" by (simp add: page_count_of_def sz)
  ultimately show ?thesis
    by (simp add: enclave_message_def image_pages_signing image_pages_loading [OF sec] image_message_def
        mage_page_def)
qed

text \<open>The entry that \<^verbatim>\<open>genmage\<close> appends.\<close>

lemma genmage_entry:
  fixes E :: "'h evp"
  assumes "evp_sha256 E rep" and "fs dll = Some bs" and ready: "mage_ready T bs pr ms"
    and g: "genmage E T fs dll mageout = Some (True, fs1)"
  obtains m bm where "te_build_metadata T pr = Some m"
    and "bp_get_reloc_bitmap (pr_parser pr) (mem_of 0 bs) = Some bm"
    and "fs1 = fs(mageout \<mapsto> (case fs mageout of None \<Rightarrow> [] | Some b \<Rightarrow> b) @ mage_entry_bytes
          \<lparr>me_size = of_nat (length (enclave_message (set_for_sign True (pr_parser pr)) m bm (patch_file m (mem_of 0 bs)))),
           me_offset = sec_rva ms,
           me_digest = chain_bytes (enclave_message (set_for_sign True (pr_parser pr)) m bm (patch_file m (mem_of 0 bs)))\<rparr>)"
proof -
  obtain res out c where o': "measure_enclave E T fs dll True True initial_measured EnclaveCreatorST = Some (res, out, c)"
    by (rule measure_enclave_cases)
  have res: "res" using g o' by (simp add: genmage_def split: if_splits)
  then have o: "measure_enclave E T fs dll True True initial_measured EnclaveCreatorST = Some (True, out, c)"
    using o' by simp
  have f: "append_data_to_file fs mageout (mage_entry_bytes ((mo_mage_t out)\<lparr>me_offset := mo_mage_rva out\<rparr>)) = Some fs1"
    using g o by (simp add: genmage_def Let_def split: option.splits)
  note parse = mage_ready_parse [OF ready]
  obtain m bm where m: "te_build_metadata T (pr\<lparr>pr_parser := set_for_sign True (pr_parser pr)\<rparr>) = Some m"
    and bm: "bp_get_reloc_bitmap (pr_parser pr) (mem_of 0 bs) = Some bm"
    and "mo_hash out = fips_SHA256 (enclave_message (set_for_sign True (pr_parser pr)) m bm (patch_file m (mem_of 0 bs)))"
    and c: "m_mage c = (m_mage (EnclaveCreatorST :: 'h creator_st))\<lparr>
       me_size := me_size (m_mage (EnclaveCreatorST :: 'h creator_st)) + of_nat (length (enclave_message (set_for_sign True (pr_parser pr)) m bm (patch_file m (mem_of 0 bs)))),
       me_digest := chain_bytes (enclave_message (set_for_sign True (pr_parser pr)) m bm (patch_file m (mem_of 0 bs)))\<rparr>"
    by (rule measured_message [OF assms(1) o assms(2) parse])
  let ?msg = "enclave_message (set_for_sign True (pr_parser pr)) m bm (patch_file m (mem_of 0 bs))"
  have "mo_mage_t out = m_mage c" and "mo_mage_rva out = sec_rva ms"
    using measure_enclave_mage [OF o assms(2) parse, of ms] ready
    by (simp_all add: mage_ready_def mage_section_wf_def)
  then have "(mo_mage_t out)\<lparr>me_offset := mo_mage_rva out\<rparr>
      = \<lparr>me_size = of_nat (length ?msg), me_offset = sec_rva ms, me_digest = chain_bytes ?msg\<rparr>"
    by (simp add: c EnclaveCreatorST_def)
  with f have "fs1 = fs(mageout \<mapsto> (case fs mageout of None \<Rightarrow> [] | Some b \<Rightarrow> b) @ mage_entry_bytes
      \<lparr>me_size = of_nat (length ?msg), me_offset = sec_rva ms, me_digest = chain_bytes ?msg\<rparr>)"
    by (simp add: append_data_to_file_def split: if_splits)
  moreover have "te_build_metadata T pr = Some m" using m ready unfolding mage_ready_def by simp
  ultimately show ?thesis using that bm by blast
qed

text \<open>The size checks of \<^verbatim>\<open>signmage\<close>, in 64-bit arithmetic.\<close>

lemma magein_checks:
  assumes "of_nat n mod sizeof_mage_entry = (0 :: u64)" "\<not> of_nat n + sizeof_mage_hdr > SGX_MAGE_SEC_SIZE"
    and "n < 2 ^ 64 - 8"
  shows "48 dvd n" and "n + 8 \<le> 4096"
proof -
  have n: "unat (of_nat n :: u64) = n" using assms(3) by (simp add: unat_of_nat)
  have "unat (of_nat n mod sizeof_mage_entry :: u64) = n mod 48"
    by (simp add: unat_mod n sizeof_mage_entry_def)
  then show "48 dvd n" using assms(1) by (simp add: mod_eq_0_iff_dvd)
  have "unat (of_nat n + sizeof_mage_hdr :: u64) = n + 8"
    using assms(3) by (simp add: unat_word_ariths n sizeof_mage_hdr_def)
  then show "n + 8 \<le> 4096" using assms(2) by (simp add: word_less_nat_alt SGX_MAGE_SEC_SIZE_def)
qed

lemma signmage_final:
  assumes evp: "evp_sha256 E rep" and bs: "fs dll = Some bs" and ready: "mage_ready T bs pr ms"
    and mi: "fs magein = Some entries" "magein \<noteq> output" "length entries < 2 ^ 64 - 8"
    and s: "signmage E T fs dll output magein = Some (True, fs3, out)"
  obtains m bm where "te_build_metadata T pr = Some m"
    and "bp_get_reloc_bitmap (pr_parser pr) (mem_of 0 bs) = Some bm"
    and "fs3 output = Some (write_at bs (unat (sec_offset ms)) (magein_header entries))"
    and "length entries + 8 \<le> 4096" and "48 dvd length entries"
    and "mo_hash out = fips_SHA256 (enclave_message (set_for_sign False (pr_parser pr)) m bm
           (patch_file m (mem_of 0 (write_at bs (unat (sec_offset ms)) (magein_header entries)))))"
proof -
  have new: "dll \<noteq> output"
    using s bs by (auto simp: signmage_def measure_enclave_def copy_file_def Let_def split: if_splits option.splits)
  let ?fs = "fs(output \<mapsto> bs)" and ?off = "unat (sec_offset ms)"
  let ?bs1 = "write_at bs ?off (magein_header entries)"
  note parse = mage_ready_parse [OF ready]
  have size: "get_file_size ?fs magein = of_nat (length entries)"
    using mi by (simp add: get_file_size_def)
  have ok: "of_nat (length entries) mod sizeof_mage_entry = (0 :: u64)"
    "\<not> of_nat (length entries) + sizeof_mage_hdr > SGX_MAGE_SEC_SIZE"
    using s bs new size by (auto simp: signmage_def Let_def copy_file_def split: if_splits)
  note len = magein_checks [OF ok mi(3)]
  have u: "unat (of_nat (length entries) :: u64) = length entries" using mi(3) by (simp add: unat_of_nat)
  have rdm: "read_file_to_buf ?fs magein (length entries) 0 = Some entries"
  proof (cases "read_file_to_buf ?fs magein (length entries) 0")
    case None
    then show ?thesis using s bs new size u ok by (simp add: signmage_def Let_def copy_file_def)
  qed (use mi in \<open>auto simp: read_file_to_buf_def split: if_splits\<close>)
  obtain res1 out1 c1 where m1: "measure_enclave E T ?fs output False True initial_measured EnclaveCreatorST = Some (res1, out1, c1)"
    by (rule measure_enclave_cases)
  have res1: "res1"
    using s bs new size u ok rdm m1 by (simp add: signmage_def Let_def copy_file_def split: if_splits)
  have off: "mo_mage_offset out1 = sec_offset ms"
    by (rule measure_enclave_mage(2) [OF m1 [unfolded eqTrueI [OF res1]] _ parse])
      (use ready in \<open>simp_all add: mage_ready_def mage_section_wf_def\<close>)
  have w: "write_data_to_file ?fs output (magein_header entries) ?off = Some (fs(output \<mapsto> ?bs1))"
    by (simp add: write_data_to_file_def magein_header_def le_bytes_def)
  obtain res2 out2 c2 where m2': "measure_enclave E T (fs(output \<mapsto> ?bs1)) output False False out1 c1 = Some (res2, out2, c2)"
    by (rule measure_enclave_cases)
  have "res2 \<and> out2 = out" and fs3: "fs3 = fs(output \<mapsto> ?bs1)"
    using s bs new size u ok rdm m1 res1 off w m2'
    by (simp_all add: signmage_def Let_def copy_file_def split: if_splits)
  with m2' have m2: "measure_enclave E T (fs(output \<mapsto> ?bs1)) output False False out1 c1 = Some (True, out, c2)"
    by simp
  have hdr: "length (magein_header entries) = length entries + 8" by (simp add: magein_header_def)
  have b1: "length ?bs1 = length bs" "same_outside ms (mem_of 0 bs) (mem_of 0 ?bs1)"
    using ready len(2) hdr
    by (auto simp: mage_ready_def length_write_at intro!: same_outside_write_at)
  have parse1: "run_parser T ?bs1 = (SGX_SUCCESS, pr)"
    and bm1: "bp_get_reloc_bitmap (pr_parser pr) (mem_of 0 ?bs1) = bp_get_reloc_bitmap (pr_parser pr) (mem_of 0 bs)"
    by (rule mage_ready_stable [OF ready b1])+
  obtain m bm where "te_build_metadata T (pr\<lparr>pr_parser := set_for_sign False (pr_parser pr)\<rparr>) = Some m"
      "bp_get_reloc_bitmap (pr_parser pr) (mem_of 0 ?bs1) = Some bm"
      "mo_hash out = fips_SHA256 (enclave_message (set_for_sign False (pr_parser pr)) m bm (patch_file m (mem_of 0 ?bs1)))"
    using measured_message [OF evp m2 fun_upd_same parse1] by blast
  then show ?thesis
    using that bm1 fs3 len ready by (simp add: mage_ready_def)
qed

end
