(* ===== verification/Mage_Example.thy ===== *)
theory Mage_Example
  imports Sign_Tool
begin

text \<open>
  A measurement that succeeds: conditions under which \<^verbatim>\<open>measure_enclave\<close>, \<^verbatim>\<open>genmage\<close> and
  \<^verbatim>\<open>signmage\<close> report success, and a small enclave file that meets them (one two-page segment
  whose second page is the MAGE section), with SHA-256 of the protected code loader in place
  of OpenSSL and IPP.
\<close>

unbundle bit_operations_syntax

section \<open>The security information of the pages of an image\<close>

lemma page_reqs_sinfo: "q \<in> set (page_reqs P n rva src sinfo attr) \<Longrightarrow> pq_sinfo q = sinfo"
  by (induction n arbitrary: rva) (auto split: if_splits)

definition flags_from :: "u64 \<Rightarrow> page_req \<Rightarrow> bool" where
  "flags_from f q \<longleftrightarrow> pq_sinfo q = sec_info f \<or> pq_sinfo q = sec_info (f OR SI_FLAG_W)"

lemma region_reqs_sinfo: "q \<in> set (region_reqs P si offset) \<Longrightarrow> flags_from (rg_flag si) q"
proof (induction P si offset rule: region_reqs.induct)
  case (1 P si offset)
  let ?rva = "rg_rva si + of_nat offset"
  have page: "flags_from (rg_flag si) q" if "q \<in> set (page_reqs P n r src (sec_info (region_flags si ?rva)) attr)" for n r src attr
    using page_reqs_sinfo [OF that] by (auto simp: flags_from_def region_flags_def split: if_splits)
  have tail: "flags_from (rg_flag si) q" if "q \<in> set (page_reqs P n r src (sec_info (rg_flag si)) attr)" for n r src attr
    using page_reqs_sinfo [OF that] by (simp add: flags_from_def)
  show ?case
  proof (cases "offset < unat (rg_raw_data_size si)")
    case True
    then show ?thesis
      using "1.prems" "1.IH" [OF refl True refl refl refl refl] page
      by (subst (asm) region_reqs.simps) (auto simp: Let_def simp del: page_reqs.simps split: if_splits)
  next
    case False
    then show ?thesis
      using "1.prems" tail
      by (subst (asm) region_reqs.simps) (auto simp: Let_def simp del: page_reqs.simps split: if_splits)
  qed
qed

lemma section_reqs_sinfo:
  "q \<in> set (section_reqs P m file bm max_rva last_sec secs) \<Longrightarrow>
     \<forall>l. last_sec = Some l \<longrightarrow> l \<in> S \<Longrightarrow> set secs \<subseteq> S \<Longrightarrow>
     \<exists>sec \<in> S. flags_from (sec_si_flags sec) q"
proof (induction secs arbitrary: max_rva last_sec)
  case Nil
  then show ?case
    by (auto simp: gap_reqs_def flags_from_def simp del: page_reqs.simps
        dest!: page_reqs_sinfo split: if_splits option.splits)
next
  case (Cons sec secs)
  have "flags_from (sec_si_flags sec) q" if "q \<in> set (region_reqs P (section_region file bm sec) 0)"
    using region_reqs_sinfo [OF that] by (simp add: section_region_def)
  then show ?case
    using Cons.prems Cons.IH [of "sec_rva sec" "Some sec"] Cons.IH [of max_rva last_sec]
    by (auto simp: gap_reqs_def flags_from_def simp del: page_reqs.simps
        dest!: page_reqs_sinfo split: if_splits option.splits)
qed

lemma context_reqs_sinfo: "q \<in> set (context_reqs P m d en) \<Longrightarrow> flags_from (le_si_flags en) q"
  using region_reqs_sinfo [of q P "context_region m en (d + le_rva en)" 0]
  by (auto simp: context_reqs_def Let_def flags_from_def context_region_def
      dest: page_reqs_sinfo split: if_splits)

lemma mage_page_reqs_sinfo: "q \<in> set (mage_page_reqs n rva src) \<Longrightarrow> pq_sinfo q = sec_info 0x201"
  by (induction n arbitrary: rva) auto

lemma image_pages_sinfo:
  assumes "q \<in> set (image_pages P m bm file)"
  shows "pq_sinfo q = sec_info 0x201 \<or> (\<exists>sec \<in> set (bp_sections P). flags_from (sec_si_flags sec) q)
    \<or> (\<exists>(d, en) \<in> set (layout_seq (layout_table m) 0 (length (layout_table m)) 0). flags_from (le_si_flags en) q)"
  using assms section_reqs_sinfo [of q P m "file" "Some bm" 0 None "bp_sections P" "set (bp_sections P)"]
  by (auto simp: image_pages_def contexts_reqs_def mage_reqs_def
      dest: mage_page_reqs_sinfo context_reqs_sinfo split: option.splits)

section \<open>Successful runs\<close>

text \<open>\<open>measurable E T bs pr m bm\<close>: nothing stands in the way of measuring the file \<open>bs\<close>.\<close>

definition measurable ::
  "'h creator_st tool_env \<Rightarrow> bytes \<Rightarrow> 'h creator_st parsed \<Rightarrow> metadata_t \<Rightarrow> u8 list \<Rightarrow> bool" where
  "measurable T bs pr m bm \<longleftrightarrow>
     bs \<noteq> [] \<and> run_parser T bs = (SGX_SUCCESS, pr) \<and> \<not> pr_has_init_section pr \<and> pr_no_textrels pr
     \<and> (\<forall>b. te_build_metadata T (pr\<lparr>pr_parser := set_for_sign b (pr_parser pr)\<rparr>) = Some m)
     \<and> \<not> already_signed pr bs
     \<and> validate_metadata (bp_enclave_max_size (pr_parser pr)) (Some m) = SGX_SUCCESS
     \<and> bp_get_reloc_bitmap (pr_parser pr) (mem_of 0 bs) = Some bm
     \<and> (\<forall>b. \<forall>q \<in> set (image_pages (set_for_sign b (pr_parser pr)) m bm (patch_file m (mem_of 0 bs))).
           valid_sinfo (pq_sinfo q))"

lemma measure_enclave_succeeds:
  assumes E: "evp_sha256 E rep" "evp_total E" and bs: "fs dll = Some bs" and m: "measurable T bs pr m bm"
  shows "\<exists>out' c'. measure_enclave E T fs dll want for_sign out c = Some (True, out', c')"
proof -
  let ?P = "set_for_sign for_sign (pr_parser pr)"
  have "\<exists>t. load_enclave (st_creator E) ?P 0 (Some m) None 0 (CLoader (mem_of 0 bs) c) = (SGX_SUCCESS, t)"
    using m by (intro load_enclave_total [OF E(2), of _ _ _ bm]) (simp_all add: measurable_def CLoader_def)
  then obtain t where t: "load_enclave (st_creator E) ?P 0 (Some m) None 0 (CLoader (mem_of 0 bs) c) = (SGX_SUCCESS, t)"
    by blast
  have "m_hash_valid_flag (ld_creator t)"
    by (rule evp_sha256.load_enclave_measures [OF E(1) t])
  then show ?thesis
    using m bs t
    by (simp add: measure_enclave_def measurable_def Let_def tool_load_enclave_returns
        already_signed_def st_get_enclave_info_def)
qed

lemma genmage_succeeds:
  assumes "evp_sha256 E rep" "evp_total E" "fs dll = Some bs" "measurable T bs pr m bm"
  shows "\<exists>fs1. genmage E T fs dll mageout = Some (True, fs1)"
proof -
  obtain out c where "measure_enclave E T fs dll True True initial_measured EnclaveCreatorST = Some (True, out, c)"
    using measure_enclave_succeeds [where fs = fs and dll = dll, OF assms] by blast
  moreover have "mage_entry_bytes e \<noteq> []" for e
    by (simp add: mage_entry_bytes_def le_bytes_def)
  ultimately show ?thesis by (simp add: genmage_def Let_def append_data_to_file_def)
qed

text \<open>Writing the entries into the MAGE section does not make the file unmeasurable.\<close>

lemma signmage_succeeds:
  assumes E: "evp_sha256 E rep" "evp_total E" and bs: "fs dll = Some bs" and m: "measurable T bs pr m bm"
    and ready: "mage_ready T bs pr ms"
    and mi: "fs magein = Some entries" "magein \<noteq> outp" "entries \<noteq> []" "48 dvd length entries" "length entries + 8 \<le> 4096"
    and m1: "measurable T (write_at bs (unat (sec_offset ms)) (magein_header entries)) pr m bm" and new: "dll \<noteq> outp"
  shows "\<exists>fs3 out. signmage E T fs dll outp magein = Some (True, fs3, out)"
proof -
  let ?fs = "fs(outp \<mapsto> bs)" and ?bs1 = "write_at bs (unat (sec_offset ms)) (magein_header entries)"
  have u: "unat (of_nat (length entries) :: u64) = length entries" using mi(5) by (simp add: unat_of_nat)
  have u8: "unat (of_nat (length entries) + sizeof_mage_hdr :: u64) = length entries + 8"
    using mi(5) u by (simp add: unat_word_ariths sizeof_mage_hdr_def)
  have checks: "of_nat (length entries) mod sizeof_mage_entry = (0 :: u64)"
      "\<not> SGX_MAGE_SEC_SIZE < of_nat (length entries) + sizeof_mage_hdr"
    using mi(4, 5) u8
    by (simp_all add: word_unat_eq_iff unat_mod u sizeof_mage_entry_def mod_eq_0_iff_dvd word_less_nat_alt SGX_MAGE_SEC_SIZE_def)
  have size: "get_file_size ?fs magein = of_nat (length entries)" using mi by (simp add: get_file_size_def)
  have rdm: "read_file_to_buf ?fs magein (length entries) 0 = Some entries"
    using mi by (simp add: read_file_to_buf_def)
  obtain out1 c1 where 1: "measure_enclave E T ?fs outp False True initial_measured EnclaveCreatorST = Some (True, out1, c1)"
    using measure_enclave_succeeds [OF E _ m, of ?fs outp False True initial_measured EnclaveCreatorST] by auto
  have off: "mo_mage_offset out1 = sec_offset ms"
    by (rule measure_enclave_mage(2) [OF 1 _ mage_ready_parse [OF ready]])
      (use ready in \<open>simp_all add: mage_ready_def mage_section_wf_def\<close>)
  have w: "write_data_to_file ?fs outp (magein_header entries) (unat (sec_offset ms)) = Some (fs(outp \<mapsto> ?bs1))"
    by (simp add: write_data_to_file_def magein_header_def le_bytes_def)
  have "length ?bs1 = length bs"
    using ready mi(5) by (intro length_write_at) (simp add: mage_ready_def magein_header_def)
  then have rdw: "read_file_to_buf (fs(outp \<mapsto> ?bs1)) outp (length entries + 8) (unat (sec_offset ms)) \<noteq> None"
    using ready mi(5) by (simp add: read_file_to_buf_def mage_ready_def)
  obtain out2 c2 where "measure_enclave E T (fs(outp \<mapsto> ?bs1)) outp False False out1 c1 = Some (True, out2, c2)"
    using measure_enclave_succeeds [OF E _ m1, of "fs(outp \<mapsto> ?bs1)" outp False False out1 c1] by auto
  then show ?thesis
    using bs new size u u8 checks rdm 1 off w rdw by (simp add: signmage_def Let_def copy_file_def)
qed

section \<open>A concrete member\<close>

definition example_text :: section_t where
  "example_text = \<lparr>sec_offset = 0, sec_raw_data_size = 0x2000, sec_virtual_size = 0x2000, sec_rva = 0, sec_si_flags = 0x205\<rparr>"

definition example_mage :: section_t where
  "example_mage = \<lparr>sec_offset = 0x1000, sec_raw_data_size = 0x1000, sec_virtual_size = 0x1000, sec_rva = 0x1000, sec_si_flags = 0x201\<rparr>"

definition example_parser :: "'c bin_parser" where
  "example_parser = \<lparr>bp_sections = [example_text], bp_mage_section = Some example_mage, bp_for_sign = False,
     bp_enclave_max_size = 0x10000, bp_get_reloc_bitmap = (\<lambda>_. Some []),
     bp_set_memory_protection = (\<lambda>_ _ c. (True, c)), bp_get_pages_to_protect = (\<lambda>_. [])\<rparr>"

definition example_parsed :: "'c parsed" where
  "example_parsed = \<lparr>pr_parser = example_parser, pr_metadata_offset = 0, pr_has_init_section = False, pr_no_textrels = True\<rparr>"

definition example_env :: "'c tool_env" where
  "example_env = \<lparr>run_parser = (\<lambda>_. (SGX_SUCCESS, example_parsed)), te_build_metadata = (\<lambda>_. Some example_metadata),
     ignore_init_sec_error = False, ignore_rel_error = False\<rparr>"

definition example_file :: bytes where
  "example_file = replicate 0x2000 0"

definition example_files :: files where
  "example_files = [''enclave.so'' \<mapsto> example_file]"

lemma example_sections_wf: "mage_section_wf example_parser example_mage"
  by (simp add: mage_section_wf_def example_parser_def maps_only_into_def example_text_def example_mage_def
      in_file_range_def in_rva_range_def)

lemma example_ready: "mage_ready example_env example_file example_parsed example_mage"
proof -
  have "patch_avoids example_mage example_metadata"
    by (simp add: patch_avoids_def example_patch_table in_file_range_def example_mage_def)
  moreover have "unat (sec_virtual_size example_mage) = 4096" "unat (sec_offset example_mage) = 4096"
    by (simp_all add: example_mage_def)
  ultimately show ?thesis
    using example_sections_wf
    by (simp add: mage_ready_def example_env_def example_parsed_def example_file_def)
      (simp add: example_parser_def)
qed

lemma example_flags_valid:
  "valid_sinfo (sec_info f)" if "f \<in> {0x201, 0x205, 0x207, 0x203, 0x100, 0x102}"
  using that
  by (auto simp: valid_sinfo_def sec_info_def SI_FLAGS_EXTERNAL_def SI_FLAG_PT_MASK_def SI_FLAG_R_def
      SI_FLAG_W_def SI_FLAG_X_def)

lemma example_flags_from:
  assumes "flags_from f q" and "f \<in> {0x205, 0x203, 0x100}"
  shows "valid_sinfo (pq_sinfo q)"
proof -
  have "f \<in> {0x201, 0x205, 0x207, 0x203, 0x100, 0x102}" and "f OR SI_FLAG_W \<in> {0x201, 0x205, 0x207, 0x203, 0x100, 0x102}"
    using assms(2) by (auto simp: SI_FLAG_W_def)
  then show ?thesis using assms(1) example_flags_valid unfolding flags_from_def by metis
qed

lemma example_layout_flags:
  "(d, en) \<in> set (layout_seq (layout_table example_metadata) 0 3 0) \<Longrightarrow> le_si_flags en \<in> {0x203, 0x100}"
  unfolding example_layout_seq by (auto simp: Let_def example_layout_table)

lemma example_sections: "bp_sections (set_for_sign b example_parser) = [example_text]"
  by (simp add: example_parser_def)

lemma example_pages_valid:
  assumes "q \<in> set (image_pages (set_for_sign b example_parser) example_metadata bm file)"
  shows "valid_sinfo (pq_sinfo q)"
proof -
  consider "pq_sinfo q = sec_info 0x201"
    | "flags_from (sec_si_flags example_text) q"
    | d en where "(d, en) \<in> set (layout_seq (layout_table example_metadata) 0 3 0)" "flags_from (le_si_flags en) q"
    using image_pages_sinfo [OF assms] unfolding example_layout_length example_sections by auto
  then show ?thesis
  proof cases
    case 1
    then show ?thesis using example_flags_valid by simp
  next
    case 2
    then show ?thesis using example_flags_from by (simp add: example_text_def)
  next
    case 3
    then show ?thesis using example_layout_flags [OF 3(1)] example_flags_from [OF 3(2)] by blast
  qed
qed

lemma example_measurable:
  assumes "mem_of 0 bs 0 = 0" "length bs = 0x2000"
  shows "measurable example_env bs example_parsed example_metadata []"
proof -
  have "\<not> already_signed (example_parsed :: 'a creator_st parsed) bs"
  proof
    assume "already_signed (example_parsed :: 'a creator_st parsed) bs"
    then have "le_bytes 8 (of_le (rd (mem_of 0 bs) 0 8) :: u64) = le_bytes 8 METADATA_MAGIC"
      by (simp add: already_signed_def rd_word_def example_parsed_def)
    then have "rd (mem_of 0 bs) 0 8 = le_bytes 8 METADATA_MAGIC" by (simp add: le_bytes_of_le)
    then have "rd (mem_of 0 bs) 0 8 ! 0 = le_bytes 8 METADATA_MAGIC ! 0" by simp
    then show False using assms(1) by (simp add: le_bytes_def METADATA_MAGIC_def)
  qed
  moreover have "\<forall>b. \<forall>q \<in> set (image_pages (set_for_sign b (example_parser :: 'a creator_st bin_parser))
      example_metadata [] (patch_file example_metadata (mem_of 0 bs))). valid_sinfo (pq_sinfo q)"
    by (blast intro: example_pages_valid)
  moreover have "bs \<noteq> []" using assms(2) by auto
  ultimately show ?thesis
    using example_metadata_valid
    by (simp add: measurable_def example_env_def)
      (simp add: example_parsed_def bin_parser.defs example_parser_def)
qed

end
