(* ===== verification/Pcl_Gcm.thy ===== *)
theory Pcl_Gcm
  imports Sgx_Prelude
begin

text \<open>
  AES-GCM decryption of the protected code loader: \<^verbatim>\<open>pcl_CRYPTO_gcm128_*\<close> of
  \<^verbatim>\<open>sdk/protected_code_loader/crypto/pcl_gcm128.c\<close> and \<^verbatim>\<open>pcl_gcm_decrypt\<close> of \<^verbatim>\<open>pcl_crypto.cpp\<close>.
  The block cipher and the carry-less multiplications are assembly routines and enter as an
  argument (\<open>pcl_asm\<close>) with a contract. The second half states GCM as NIST SP 800-38D does and
  proves that the streaming implementation, which keeps partial blocks in the context and
  works through the text in chunks of 3 KB, computes it.
\<close>

unbundle bit_operations_syntax

section \<open>The implementation\<close>

definition xor_bytes :: "bytes \<Rightarrow> bytes \<Rightarrow> bytes" where
  "xor_bytes xs ys = map2 (XOR) xs ys"

text \<open>
  The routines in \<^verbatim>\<open>pcl_vpaes-x86_64.s\<close> and \<^verbatim>\<open>pcl_ghash-x86_64.s\<close>: the key schedule with its
  return code, the encryption of a block, and the three multiplication routines. \<open>'k\<close> is
  \<^verbatim>\<open>AES_KEY\<close> and \<open>'t\<close> the table \<^verbatim>\<open>Htable\<close>.
\<close>

record ('k, 't) pcl_asm =
  vpaes_set_encrypt_key :: "bytes \<Rightarrow> int \<times> 'k"
  vpaes_encrypt :: "bytes \<Rightarrow> 'k \<Rightarrow> bytes"
  gcm_init_clmul :: "bytes \<Rightarrow> 't"
  gcm_gmult_clmul :: "bytes \<Rightarrow> 't \<Rightarrow> bytes"
  gcm_ghash_clmul :: "bytes \<Rightarrow> 't \<Rightarrow> bytes \<Rightarrow> bytes"

text \<open>\<^verbatim>\<open>GCM128_CONTEXT\<close>, blocks as byte strings in memory order.\<close>

record ('k, 't) GCM128_CONTEXT =
  Yi :: bytes
  EKi :: bytes
  EK0 :: bytes
  alen :: u64
  mlen :: u64
  Xi :: bytes
  Htable :: 't
  mres :: nat
  ares :: nat
  gcm_key :: 'k

definition zero_block :: bytes where "zero_block = replicate 16 0"

text \<open>\<^verbatim>\<open>H.u[0] = BSWAP8(H.u[0]); H.u[1] = BSWAP8(H.u[1])\<close>\<close>

definition bswap_halves :: "bytes \<Rightarrow> bytes" where
  "bswap_halves b = rev (take 8 b) @ rev (drop 8 b)"

definition pcl_CRYPTO_gcm128_init :: "('k, 't) pcl_asm \<Rightarrow> 'k \<Rightarrow> ('k, 't) GCM128_CONTEXT" where
  "pcl_CRYPTO_gcm128_init A key =
     (let H = bswap_halves (vpaes_encrypt A zero_block key) in
      \<lparr>Yi = zero_block, EKi = zero_block, EK0 = zero_block, alen = 0, mlen = 0, Xi = zero_block,
       Htable = gcm_init_clmul A H, mres = 0, ares = 0, gcm_key = key\<rparr>)"

text \<open>\<^verbatim>\<open>ctx->Yi.d[3] = pcl_bswap32(ctr)\<close>\<close>

definition set_ctr :: "u32 \<Rightarrow> bytes \<Rightarrow> bytes" where
  "set_ctr ctr Y = take 12 Y @ be_bytes 4 ctr"

definition pcl_CRYPTO_gcm128_setiv ::
  "('k, 't) pcl_asm \<Rightarrow> bytes \<Rightarrow> ('k, 't) GCM128_CONTEXT \<Rightarrow> ('k, 't) GCM128_CONTEXT" where
  "pcl_CRYPTO_gcm128_setiv A iv ctx =
     (let Y = take 12 iv @ [0, 0, 0, 1] in
      ctx\<lparr>Yi := set_ctr 2 Y, Xi := zero_block, alen := 0, mlen := 0, ares := 0, mres := 0,
          EK0 := vpaes_encrypt A Y (gcm_key ctx)\<rparr>)"

definition GCM_MUL :: "('k, 't) pcl_asm \<Rightarrow> ('k, 't) GCM128_CONTEXT \<Rightarrow> ('k, 't) GCM128_CONTEXT" where
  "GCM_MUL A ctx = ctx\<lparr>Xi := gcm_gmult_clmul A (Xi ctx) (Htable ctx)\<rparr>"

definition GHASH :: "('k, 't) pcl_asm \<Rightarrow> bytes \<Rightarrow> ('k, 't) GCM128_CONTEXT \<Rightarrow> ('k, 't) GCM128_CONTEXT" where
  "GHASH A inp ctx = ctx\<lparr>Xi := gcm_ghash_clmul A (Xi ctx) (Htable ctx) inp\<rparr>"

text \<open>The loops that XOR bytes into \<^verbatim>\<open>Xi\<close>: from position 0, and up to the end of a started block.\<close>

definition xor_prefix :: "bytes \<Rightarrow> bytes \<Rightarrow> bytes" where
  "xor_prefix X bs = xor_bytes (take (length bs) X) bs @ drop (length bs) X"

fun aad_fill :: "nat \<Rightarrow> bytes \<Rightarrow> bytes \<Rightarrow> nat \<times> bytes \<times> bytes" where
  "aad_fill n X [] = (n, X, [])"
| "aad_fill n X (c # cs) =
     (if n = 0 then (n, X, c # cs) else aad_fill ((n + 1) mod 16) (X[n := X ! n XOR c]) cs)"

text \<open>The rest of \<^verbatim>\<open>pcl_CRYPTO_gcm128_aad\<close> once no partial block is pending.\<close>

definition aad_blocks ::
  "('k, 't) pcl_asm \<Rightarrow> bytes \<Rightarrow> ('k, 't) GCM128_CONTEXT \<Rightarrow> int \<times> ('k, 't) GCM128_CONTEXT" where
  "aad_blocks A aad ctx =
     (let i = length aad - length aad mod 16;
          ctx = (if i \<noteq> 0 then GHASH A (take i aad) ctx else ctx);
          rest = drop i aad
      in (0, ctx\<lparr>Xi := xor_prefix (Xi ctx) rest, ares := length rest\<rparr>))"

definition pcl_CRYPTO_gcm128_aad ::
  "('k, 't) pcl_asm \<Rightarrow> bytes \<Rightarrow> ('k, 't) GCM128_CONTEXT \<Rightarrow> int \<times> ('k, 't) GCM128_CONTEXT" where
  "pcl_CRYPTO_gcm128_aad A aad ctx =
     (let len = of_nat (length aad) :: u64; al = alen ctx + len in
      if mlen ctx \<noteq> 0 then (-2, ctx)
      else if al > push_bit 61 1 \<or> al < len then (-1, ctx)
      else
        let ctx = ctx\<lparr>alen := al\<rparr> in
        if ares ctx \<noteq> 0 then
          (case aad_fill (ares ctx) (Xi ctx) aad of
             (n, X, rest) \<Rightarrow>
               let ctx = ctx\<lparr>Xi := X\<rparr> in
               if n = 0 then aad_blocks A rest (GCM_MUL A ctx)
               else (0, ctx\<lparr>ares := n\<rparr>))
        else aad_blocks A aad ctx)"

text \<open>
  Decryption. The counter is the last word of \<^verbatim>\<open>Yi\<close>; \<open>next_key\<close> encrypts \<^verbatim>\<open>Yi\<close> into \<^verbatim>\<open>EKi\<close> and
  steps the counter. The text loops return what they write to \<^verbatim>\<open>out\<close>.
\<close>

definition next_key :: "('k, 't) pcl_asm \<Rightarrow> ('k, 't) GCM128_CONTEXT \<Rightarrow> ('k, 't) GCM128_CONTEXT" where
  "next_key A ctx = ctx\<lparr>EKi := vpaes_encrypt A (Yi ctx) (gcm_key ctx),
     Yi := set_ctr (of_be (drop 12 (Yi ctx)) + 1) (Yi ctx)\<rparr>"

fun dec_fill :: "nat \<Rightarrow> bytes \<Rightarrow> bytes \<Rightarrow> bytes \<Rightarrow> nat \<times> bytes \<times> bytes \<times> bytes" where
  "dec_fill n ek X [] = (n, X, [], [])"
| "dec_fill n ek X (c # cs) =
     (if n = 0 then (n, X, [], c # cs)
      else case dec_fill ((n + 1) mod 16) ek (X[n := X ! n XOR c]) cs of
        (n', X', out, rest) \<Rightarrow> (n', X', (c XOR ek ! n) # out, rest))"

primrec dec_blocks ::
  "('k, 't) pcl_asm \<Rightarrow> nat \<Rightarrow> bytes \<Rightarrow> ('k, 't) GCM128_CONTEXT \<Rightarrow> bytes \<times> ('k, 't) GCM128_CONTEXT" where
  "dec_blocks A 0 inp ctx = ([], ctx)"
| "dec_blocks A (Suc n) inp ctx =
     (let ctx = next_key A ctx in
      case dec_blocks A n (drop 16 inp) ctx of
        (out, ctx') \<Rightarrow> (xor_bytes (take 16 inp) (EKi ctx) @ out, ctx'))"

definition GHASH_CHUNK :: nat where "GHASH_CHUNK = 3 * 1024"

function dec_chunks ::
  "('k, 't) pcl_asm \<Rightarrow> bytes \<Rightarrow> ('k, 't) GCM128_CONTEXT \<Rightarrow> bytes \<times> bytes \<times> ('k, 't) GCM128_CONTEXT" where
  "dec_chunks A inp ctx =
     (if length inp \<ge> GHASH_CHUNK then
        (case dec_blocks A (GHASH_CHUNK div 16) inp (GHASH A (take GHASH_CHUNK inp) ctx) of
           (out, ctx) \<Rightarrow>
             (case dec_chunks A (drop GHASH_CHUNK inp) ctx of
                (out', rest, ctx) \<Rightarrow> (out @ out', rest, ctx)))
      else ([], inp, ctx))"
  by pat_completeness auto
termination
  by (relation "measure (\<lambda>(A, inp, ctx). length inp)") (auto simp: GHASH_CHUNK_def)

declare dec_chunks.simps [simp del]

text \<open>The rest of \<^verbatim>\<open>pcl_CRYPTO_gcm128_decrypt\<close> once no partial block is pending.\<close>

definition dec_whole ::
  "('k, 't) pcl_asm \<Rightarrow> bytes \<Rightarrow> ('k, 't) GCM128_CONTEXT \<Rightarrow> int \<times> bytes \<times> ('k, 't) GCM128_CONTEXT" where
  "dec_whole A inp ctx =
     (case dec_chunks A inp ctx of
        (out1, inp, ctx) \<Rightarrow>
          let i = length inp - length inp mod 16;
              ctx = (if i \<noteq> 0 then GHASH A (take i inp) ctx else ctx)
          in case (if i \<noteq> 0 then dec_blocks A (length inp div 16) inp ctx else ([], ctx)) of
            (out2, ctx) \<Rightarrow>
              let rest = drop i inp in
              if rest \<noteq> [] then
                let ctx = next_key A ctx in
                (0, out1 @ out2 @ xor_bytes rest (EKi ctx),
                 ctx\<lparr>Xi := xor_prefix (Xi ctx) rest, mres := length rest\<rparr>)
              else (0, out1 @ out2, ctx\<lparr>mres := 0\<rparr>))"

definition pcl_CRYPTO_gcm128_decrypt ::
  "('k, 't) pcl_asm \<Rightarrow> bytes \<Rightarrow> ('k, 't) GCM128_CONTEXT \<Rightarrow> int \<times> bytes \<times> ('k, 't) GCM128_CONTEXT" where
  "pcl_CRYPTO_gcm128_decrypt A inp ctx =
     (let len = of_nat (length inp) :: u64; ml = mlen ctx + len in
      if ml > push_bit 36 1 - 32 \<or> ml < len then (-1, [], ctx)
      else
        let ctx = ctx\<lparr>mlen := ml\<rparr>;
            ctx = (if ares ctx \<noteq> 0 then (GCM_MUL A ctx)\<lparr>ares := 0\<rparr> else ctx)
        in
        if mres ctx \<noteq> 0 then
          (case dec_fill (mres ctx) (EKi ctx) (Xi ctx) inp of
             (n, X, out, rest) \<Rightarrow>
               let ctx = ctx\<lparr>Xi := X\<rparr> in
               if n = 0 then
                 (case dec_whole A rest (GCM_MUL A ctx) of (r, out', ctx) \<Rightarrow> (r, out @ out', ctx))
               else (0, out, ctx\<lparr>mres := n\<rparr>))
        else dec_whole A inp ctx)"

text \<open>\<^verbatim>\<open>pcl_CRYPTO_gcm128_finish\<close>: 0 if the tag matches.\<close>

definition pcl_CRYPTO_gcm128_finish ::
  "('k, 't) pcl_asm \<Rightarrow> bytes option \<Rightarrow> nat \<Rightarrow> ('k, 't) GCM128_CONTEXT \<Rightarrow> int" where
  "pcl_CRYPTO_gcm128_finish A tag len ctx =
     (let ctx1 = (if mres ctx \<noteq> 0 \<or> ares ctx \<noteq> 0 then GCM_MUL A ctx else ctx);
          lens = be_bytes 8 (push_bit 3 (alen ctx)) @ be_bytes 8 (push_bit 3 (mlen ctx));
          ctx2 = GCM_MUL A (ctx1\<lparr>Xi := xor_bytes (Xi ctx1) lens\<rparr>);
          X = xor_bytes (Xi ctx2) (EK0 ctx2)
      in case tag of
           Some t \<Rightarrow> if len \<le> 16 then (if take len X = take len t then 0 else 1) else -1
         | None \<Rightarrow> -1)"

text \<open>
  \<^verbatim>\<open>pcl_gcm_decrypt\<close>: \<^const>\<open>None\<close> is a null pointer; the result has the status and what was
  written to the plaintext buffer, which is not cleared when the tag does not match.
\<close>

definition pcl_gcm_decrypt ::
  "('k, 't) pcl_asm \<Rightarrow> bool \<Rightarrow> bytes option \<Rightarrow> bytes option \<Rightarrow> bytes option \<Rightarrow> bytes option \<Rightarrow> bytes option
    \<Rightarrow> sgx_status_t \<times> bytes" where
  "pcl_gcm_decrypt A plaintext_nonnull ciphertext aad key iv tag =
     (case (ciphertext, key, iv, tag) of
        (Some ct, Some k, Some v, Some t) \<Rightarrow>
          if \<not> plaintext_nonnull then (SGX_ERROR_INVALID_PARAMETER, [])
          else (case vpaes_set_encrypt_key A k of (ret, wide_key) \<Rightarrow>
            if ret \<noteq> 0 then (SGX_ERROR_UNEXPECTED, [])
            else
              let ctx = pcl_CRYPTO_gcm128_setiv A v (pcl_CRYPTO_gcm128_init A wide_key) in
              (case (case aad of None \<Rightarrow> (0, ctx) | Some a \<Rightarrow> pcl_CRYPTO_gcm128_aad A a ctx) of (ret, ctx) \<Rightarrow>
                if ret \<noteq> 0 then (SGX_ERROR_UNEXPECTED, [])
                else case pcl_CRYPTO_gcm128_decrypt A ct ctx of (ret, out, ctx) \<Rightarrow>
                  if ret \<noteq> 0 then (SGX_ERROR_UNEXPECTED, out)
                  else if pcl_CRYPTO_gcm128_finish A (Some t) 16 ctx \<noteq> 0
                  then (SGX_ERROR_PCL_MAC_MISMATCH, out)
                  else (SGX_SUCCESS, out)))
      | _ \<Rightarrow> (SGX_ERROR_INVALID_PARAMETER, []))"

section \<open>GCM as NIST SP 800-38D states it\<close>

text \<open>Multiplication of blocks (section 6.3), on the 128-bit strings read as big-endian words.\<close>

definition gf_step :: "128 word \<Rightarrow> nat \<Rightarrow> 128 word \<times> 128 word \<Rightarrow> 128 word \<times> 128 word" where
  "gf_step x i ZV = (case ZV of (Z, V) \<Rightarrow>
     (if bit x (127 - i) then Z XOR V else Z,
      if bit V 0 then drop_bit 1 V XOR push_bit 120 0xE1 else drop_bit 1 V))"

definition gf_mul :: "bytes \<Rightarrow> bytes \<Rightarrow> bytes" where
  "gf_mul X Y = be_bytes 16 (fst (fold (gf_step (of_be X)) [0..<128] (0, of_be Y)))"

text \<open>\<open>ghash H X bs\<close> runs GHASH from the chaining value \<open>X\<close> over the whole blocks of \<open>bs\<close>.\<close>

function ghash :: "bytes \<Rightarrow> bytes \<Rightarrow> bytes \<Rightarrow> bytes" where
  "ghash H X bs = (if length bs < 16 then X else ghash H (gf_mul (xor_bytes X (take 16 bs)) H) (drop 16 bs))"
  by pat_completeness auto
termination
  by (relation "measure (\<lambda>(H, X, bs). length bs)") auto

declare ghash.simps [simp del]

definition pad16 :: "bytes \<Rightarrow> bytes" where
  "pad16 bs = bs @ replicate ((16 - length bs mod 16) mod 16) 0"

text \<open>GCTR (section 6.5) on the counter blocks that start with the 12 bytes \<open>iv\<close>.\<close>

function gctr :: "(bytes \<Rightarrow> bytes) \<Rightarrow> bytes \<Rightarrow> u32 \<Rightarrow> bytes \<Rightarrow> bytes" where
  "gctr E iv ctr bs = (if bs = [] then []
     else xor_bytes (take 16 bs) (E (iv @ be_bytes 4 ctr)) @ gctr E iv (ctr + 1) (drop 16 bs))"
  by pat_completeness auto
termination
  by (relation "measure (\<lambda>(E, iv, ctr, bs). length bs)") auto

declare gctr.simps [simp del]

text \<open>The tag of additional data \<open>aad\<close> and ciphertext \<open>ct\<close> (sections 7.1 and 7.2) for a 12-byte IV.\<close>

definition gcm_tag :: "(bytes \<Rightarrow> bytes) \<Rightarrow> bytes \<Rightarrow> bytes \<Rightarrow> bytes \<Rightarrow> bytes" where
  "gcm_tag E iv aad ct =
     xor_bytes (ghash (E zero_block) zero_block
         (pad16 aad @ pad16 ct @ be_bytes 8 (of_nat (8 * length aad) :: u64) @ be_bytes 8 (of_nat (8 * length ct) :: u64)))
       (E (iv @ be_bytes 4 (1 :: u32)))"

definition gcm_crypt :: "(bytes \<Rightarrow> bytes) \<Rightarrow> bytes \<Rightarrow> bytes \<Rightarrow> bytes" where
  "gcm_crypt E iv bs = gctr E iv 2 bs"

text \<open>What the assembly routines are relied on for.\<close>

locale pcl_asm_spec =
  fixes A :: "('k, 't) pcl_asm"
  assumes block_length: "length (vpaes_encrypt A b k) = 16"
    and gmult: "length X = 16 \<Longrightarrow> length H = 16 \<Longrightarrow>
      gcm_gmult_clmul A X (gcm_init_clmul A (bswap_halves H)) = gf_mul X H"
    and ghash_blocks: "length X = 16 \<Longrightarrow> length H = 16 \<Longrightarrow> 16 dvd length bs \<Longrightarrow>
      gcm_ghash_clmul A X (gcm_init_clmul A (bswap_halves H)) bs = ghash H X bs"

section \<open>Blocks, prefixes and streams\<close>

lemma length_xor_bytes [simp]: "length (xor_bytes xs ys) = min (length xs) (length ys)"
  by (simp add: xor_bytes_def)

lemma xor_bytes_nth: "i < length xs \<Longrightarrow> i < length ys \<Longrightarrow> xor_bytes xs ys ! i = xs ! i XOR ys ! i"
  by (simp add: xor_bytes_def)

lemma xor_bytes_append:
  "length xs = length ys \<Longrightarrow> xor_bytes (xs @ xs') (ys @ ys') = xor_bytes xs ys @ xor_bytes xs' ys'"
  by (simp add: xor_bytes_def)

lemma xor_bytes_zero: "length xs = n \<Longrightarrow> xor_bytes xs (replicate n 0) = xs"
  by (rule nth_equalityI) (simp_all add: xor_bytes_nth)

lemma xor_bytes_trunc: "xor_bytes xs (take (length xs) ys) = xor_bytes xs ys"
  by (rule nth_equalityI) (simp_all add: xor_bytes_nth)

lemma length_xor_prefix [simp]: "length (xor_prefix X bs) = max (min (length X) (length bs)) (length X)"
  by (simp add: xor_prefix_def)

lemma xor_prefix_Nil [simp]: "xor_prefix X [] = X"
  by (simp add: xor_prefix_def xor_bytes_def)

lemma xor_prefix_pad:
  assumes "length R \<le> length X"
  shows "xor_prefix X R = xor_bytes X (R @ replicate (length X - length R) 0)"
proof -
  have "xor_bytes (take (length R) X @ drop (length R) X) (R @ replicate (length X - length R) 0)
      = xor_bytes (take (length R) X) R @ xor_bytes (drop (length R) X) (replicate (length X - length R) 0)"
    using assms by (intro xor_bytes_append) simp
  then show ?thesis by (simp add: xor_prefix_def xor_bytes_zero)
qed

lemma xor_prefix_snoc:
  assumes "length R < length X"
  shows "(xor_prefix X R)[length R := xor_prefix X R ! length R XOR c] = xor_prefix X (R @ [c])"
proof (rule nth_equalityI)
  fix i assume "i < length ((xor_prefix X R)[length R := xor_prefix X R ! length R XOR c])"
  then have i: "i < length X" using assms by simp
  let ?P = "\<lambda>R. R @ replicate (length X - length R) 0"
  have "?P (R @ [c]) ! i = (if i < length R then R ! i else if i = length R then c else 0)"
    using assms i by (auto simp: nth_append)
  moreover have "?P R ! i = (if i < length R then R ! i else 0)"
    using assms i by (auto simp: nth_append)
  ultimately show "(xor_prefix X R)[length R := xor_prefix X R ! length R XOR c] ! i = xor_prefix X (R @ [c]) ! i"
    using assms i by (auto simp: xor_prefix_pad xor_bytes_nth nth_list_update nth_append)
qed (use assms in simp)

lemma length_gf_mul [simp]: "length (gf_mul X Y) = 16"
  by (simp add: gf_mul_def)

lemma length_ghash [simp]: "length X = 16 \<Longrightarrow> length (ghash H X bs) = 16"
  by (induction H X bs rule: ghash.induct) (subst ghash.simps, simp)

lemma ghash_short: "length bs < 16 \<Longrightarrow> ghash H X bs = X"
  by (simp add: ghash.simps)

lemma ghash_append: "16 dvd length xs \<Longrightarrow> ghash H X (xs @ ys) = ghash H (ghash H X xs) ys"
proof (induction H X xs rule: ghash.induct)
  case (1 H X xs)
  show ?case
  proof (cases "length xs < 16")
    case True
    with 1 have "xs = []" by (auto dest: dvd_imp_le)
    then show ?thesis by (simp add: ghash_short)
  next
    case False
    with 1 have "16 dvd length (drop 16 xs)" by (auto simp: dvd_diff_nat)
    with False show ?thesis
      using "1.IH" by (simp add: ghash.simps [of H X "xs @ ys"] ghash.simps [of H X xs])
  qed
qed

lemma ghash_one: "length B = 16 \<Longrightarrow> ghash H X B = gf_mul (xor_bytes X B) H"
  by (simp add: ghash.simps [of H X] ghash_short)

text \<open>The whole blocks of a byte string and the rest.\<close>

lemma split_blocks:
  obtains W R where "D = W @ R" "16 dvd length W" "length R < 16"
    "W = take (length D - length D mod 16) D" "R = drop (length D - length D mod 16) D" "length R = length D mod 16"
proof -
  let ?i = "length D - length D mod 16"
  have "16 dvd ?i" by (simp add: minus_mod_eq_mult_div)
  then show ?thesis
    using that [of "take ?i D" "drop ?i D"] by simp
qed

lemma append_mod: "16 dvd length W \<Longrightarrow> length R < 16 \<Longrightarrow> length (W @ R) mod 16 = length R"
  by (auto simp: mod_add_left_eq elim!: dvdE)

lemma pad16_blocks [simp]: "16 dvd length (pad16 x)"
proof (cases "length x mod 16 = 0")
  case False
  then have "length (pad16 x) = length x + (16 - length x mod 16)" by (simp add: pad16_def)
  also have "\<dots> = 16 * (length x div 16) + 16" using mult_div_mod_eq [of 16 "length x"] by linarith
  finally have "length (pad16 x) = 16 * (length x div 16) + 16" .
  then show ?thesis by simp
qed (auto simp: pad16_def)

text \<open>
  \<open>absorbed H X0 D X n\<close>: GHASH started at \<open>X0\<close> has taken in the data \<open>D\<close>; \<open>n\<close> bytes of the last,
  incomplete block are in \<open>X\<close> and not yet multiplied.
\<close>

definition absorbed :: "bytes \<Rightarrow> bytes \<Rightarrow> bytes \<Rightarrow> bytes \<Rightarrow> nat \<Rightarrow> bool" where
  "absorbed H X0 D X n \<longleftrightarrow> length X0 = 16 \<and>
     (\<exists>W R. D = W @ R \<and> 16 dvd length W \<and> length R < 16 \<and> n = length R \<and> X = xor_prefix (ghash H X0 W) R)"

lemma absorbed_Nil: "length X0 = 16 \<Longrightarrow> absorbed H X0 [] X0 0"
  by (auto simp: absorbed_def ghash_short)

lemma absorbed_length: "absorbed H X0 D X n \<Longrightarrow> length X = 16 \<and> n < 16 \<and> n = length D mod 16"
  by (auto simp: absorbed_def append_mod)

text \<open>Multiplying the pending block completes GHASH over the padded data.\<close>

lemma absorbed_flush:
  assumes "absorbed H X0 D X n"
  shows "(if n \<noteq> 0 then gf_mul X H else X) = ghash H X0 (pad16 D)"
proof -
  obtain W R where D: "D = W @ R" "16 dvd length W" "length R < 16" "n = length R"
      "X = xor_prefix (ghash H X0 W) R" and X0: "length X0 = 16"
    using assms unfolding absorbed_def by blast
  have m: "length D mod 16 = length R" using D append_mod by simp
  show ?thesis
  proof (cases "n = 0")
    case True
    then show ?thesis using D m by (simp add: pad16_def)
  next
    case False
    then have "pad16 D = W @ (R @ replicate (16 - length R) 0)"
      using D m unfolding pad16_def by simp
    then have "ghash H X0 (pad16 D) = gf_mul (xor_bytes (ghash H X0 W) (R @ replicate (16 - length R) 0)) H"
      using D(2, 3) by (simp add: ghash_append ghash_one)
    then show ?thesis using False D X0 by (simp add: xor_prefix_pad)
  qed
qed

text \<open>New data after whole blocks, and new data that continues an incomplete block.\<close>

lemma absorbed_whole:
  assumes "absorbed H X0 D X 0" "B = W @ R" "16 dvd length W" "length R < 16"
  shows "absorbed H X0 (D @ B) (xor_prefix (ghash H X W) R) (length R)"
proof -
  have "16 dvd length D" "X = ghash H X0 D" "length X0 = 16" using assms(1) by (auto simp: absorbed_def)
  then show ?thesis using assms(2-4) unfolding absorbed_def
    by (intro conjI exI [of _ "D @ W"] exI [of _ R]) (simp_all add: ghash_append)
qed

lemma absorbed_more:
  assumes "absorbed H X0 D X n" "n \<noteq> 0"
  obtains Y R where "X = xor_prefix Y R" "length Y = 16" "length R = n"
    "\<And>B. n + length B < 16 \<Longrightarrow> absorbed H X0 (D @ B) (xor_prefix Y (R @ B)) (n + length B)"
    "\<And>B. n + length B = 16 \<Longrightarrow> absorbed H X0 (D @ B) (gf_mul (xor_prefix Y (R @ B)) H) 0"
proof -
  obtain W R where D: "D = W @ R" "16 dvd length W" "length R < 16" "n = length R"
      "X = xor_prefix (ghash H X0 W) R" and X0: "length X0 = 16"
    using assms unfolding absorbed_def by blast
  show ?thesis
  proof (rule that [of "ghash H X0 W" R])
    fix B :: bytes
    assume "n + length B < 16"
    then show "absorbed H X0 (D @ B) (xor_prefix (ghash H X0 W) (R @ B)) (n + length B)"
      using D X0 unfolding absorbed_def by (intro conjI exI [of _ W] exI [of _ "R @ B"]) simp_all
  next
    fix B :: bytes
    assume B: "n + length B = 16"
    then have "ghash H X0 (W @ (R @ B)) = gf_mul (xor_prefix (ghash H X0 W) (R @ B)) H"
      using D X0 by (simp add: ghash_append ghash_one xor_prefix_pad)
    then show "absorbed H X0 (D @ B) (gf_mul (xor_prefix (ghash H X0 W) (R @ B)) H) 0"
      using D X0 B unfolding absorbed_def by (intro conjI exI [of _ "W @ R @ B"] exI [of _ "[]"]) simp_all
  qed (use D X0 in simp_all)
qed

lemma aad_fill_prefix:
  assumes "length Y = 16"
  shows "length R = n \<Longrightarrow> 0 < n \<Longrightarrow> n < 16 \<Longrightarrow> k = min (16 - n) (length bs) \<Longrightarrow>
    aad_fill n (xor_prefix Y R) bs = ((n + k) mod 16, xor_prefix Y (R @ take k bs), drop k bs)"
proof (induction bs arbitrary: n R k)
  case (Cons c cs)
  have step: "aad_fill n (xor_prefix Y R) (c # cs) = aad_fill ((n + 1) mod 16) (xor_prefix Y (R @ [c])) cs"
    using Cons.prems xor_prefix_snoc [of R Y c] assms by simp
  show ?case
  proof (cases "n = 15")
    case True
    then have "k = 1" using Cons.prems by simp
    then show ?thesis unfolding step using True by (cases cs) simp_all
  next
    case False
    define j where "j = min (16 - Suc n) (length cs)"
    have k: "k = Suc j" using Cons.prems by (auto simp: j_def)
    have "aad_fill (Suc n) (xor_prefix Y (R @ [c])) cs
        = ((Suc n + j) mod 16, xor_prefix Y ((R @ [c]) @ take j cs), drop j cs)"
      using Cons.prems False by (intro Cons.IH [OF _ _ _ j_def]) simp_all
    then show ?thesis unfolding step k using Cons.prems False by simp
  qed
qed simp

lemma dec_fill_prefix:
  assumes "length Y = 16" "length ek = 16"
  shows "length R = n \<Longrightarrow> 0 < n \<Longrightarrow> n < 16 \<Longrightarrow> k = min (16 - n) (length bs) \<Longrightarrow>
    dec_fill n ek (xor_prefix Y R) bs
      = ((n + k) mod 16, xor_prefix Y (R @ take k bs), xor_bytes (take k bs) (drop n ek), drop k bs)"
proof (induction bs arbitrary: n R k)
  case (Cons c cs)
  have snoc: "(xor_prefix Y R)[n := xor_prefix Y R ! n XOR c] = xor_prefix Y (R @ [c])"
    using Cons.prems xor_prefix_snoc [of R Y c] assms by simp
  have ek: "drop n ek = ek ! n # drop (Suc n) ek" using Cons.prems assms(2) by (simp add: Cons_nth_drop_Suc)
  show ?case
  proof (cases "n = 15")
    case True
    then have "k = 1" using Cons.prems by simp
    then show ?thesis using True snoc ek by (cases cs) (simp_all add: xor_bytes_def)
  next
    case False
    define j where "j = min (16 - Suc n) (length cs)"
    have k: "k = Suc j" using Cons.prems by (auto simp: j_def)
    have "dec_fill (Suc n) ek (xor_prefix Y (R @ [c])) cs
        = ((Suc n + j) mod 16, xor_prefix Y ((R @ [c]) @ take j cs), xor_bytes (take j cs) (drop (Suc n) ek), drop j cs)"
      using Cons.prems False by (intro Cons.IH [OF _ _ _ j_def]) simp_all
    then show ?thesis unfolding k using False Cons.prems(1-3) snoc ek by (simp add: xor_bytes_def)
  qed
qed (simp add: xor_bytes_def)

section \<open>Counter mode\<close>

lemma gctr_Nil [simp]: "gctr E iv c [] = []"
  by (simp add: gctr.simps)

lemma gctr_block: "length B = 16 \<Longrightarrow>
    gctr E iv c (B @ R) = xor_bytes B (E (iv @ be_bytes 4 c)) @ gctr E iv (c + 1) R"
  by (subst gctr.simps) auto

lemma gctr_short: "length R \<le> 16 \<Longrightarrow> gctr E iv c R = xor_bytes R (E (iv @ be_bytes 4 c))"
  by (subst gctr.simps) (simp add: xor_bytes_def)

lemma gctr_append:
  "16 dvd length W \<Longrightarrow> gctr E iv c (W @ R) = gctr E iv c W @ gctr E iv (c + of_nat (length W div 16)) R"
proof (induction "length W" arbitrary: W c rule: less_induct)
  case less
  show ?case
  proof (cases "W = []")
    case False
    then have len: "16 \<le> length W" using less.prems by (simp add: dvd_imp_le)
    have d: "16 dvd length (drop 16 W)" using less.prems by (simp add: dvd_diff_nat)
    have "length W div 16 = Suc (length (drop 16 W) div 16)" using len by (simp add: le_div_geq)
    then have c: "c + of_nat (length W div 16) = c + 1 + of_nat (length (drop 16 W) div 16)" by simp
    have b: "gctr E iv c (W @ X) = xor_bytes (take 16 W) (E (iv @ be_bytes 4 c)) @ gctr E iv (c + 1) (drop 16 W @ X)" for X
      using gctr_block [of "take 16 W" E iv c "drop 16 W @ X"] len
      by (simp add: append_assoc [symmetric] del: append_assoc)
    show ?thesis
      using b [of R] b [of "[]"] less.hyps [of "drop 16 W" "c + 1"] d len unfolding c by simp
  qed simp
qed

lemma length_gctr: "(\<And>b. length (E b) = 16) \<Longrightarrow> length (gctr E iv c bs) = length bs"
proof (induction "length bs" arbitrary: bs c rule: less_induct)
  case less
  show ?case
    using less.hyps [of "drop 16 bs" "c + 1"] less.prems by (subst gctr.simps) auto
qed

text \<open>A stream of incomplete length is continued with the rest of its last key block.\<close>

lemma gctr_continue:
  assumes "16 dvd length W" "length R < 16" "R \<noteq> []" and "\<And>b. length (E b) = 16"
    and c: "c' = c + of_nat (length W div 16)"
  shows "length R + length B \<le> 16 \<Longrightarrow>
      gctr E iv c (W @ R @ B) = gctr E iv c (W @ R) @ xor_bytes B (drop (length R) (E (iv @ be_bytes 4 c')))"
    and "length R + length B = 16 \<Longrightarrow>
      gctr E iv c ((W @ R @ B) @ B') = gctr E iv c (W @ R @ B) @ gctr E iv (c' + 1) B'"
proof -
  let ?ek = "E (iv @ be_bytes 4 c')"
  have x: "xor_bytes (R @ B) ?ek = xor_bytes R ?ek @ xor_bytes B (drop (length R) ?ek)"
  proof -
    have "xor_bytes (R @ B) (take (length R) ?ek @ drop (length R) ?ek)
        = xor_bytes R (take (length R) ?ek) @ xor_bytes B (drop (length R) ?ek)"
      using assms(2, 4) by (intro xor_bytes_append) simp
    then show ?thesis by (simp add: xor_bytes_trunc)
  qed
  show "length R + length B \<le> 16 \<Longrightarrow>
      gctr E iv c (W @ R @ B) = gctr E iv c (W @ R) @ xor_bytes B (drop (length R) ?ek)"
    using assms(2) x by (simp add: gctr_append [OF assms(1)] gctr_short c [symmetric])
  assume len: "length R + length B = 16"
  then have w: "16 dvd length (W @ R @ B)" using assms(1) by simp
  have "length (W @ R @ B) div 16 = length W div 16 + 1" using len assms(1) by (auto elim!: dvdE)
  then show "gctr E iv c ((W @ R @ B) @ B') = gctr E iv c (W @ R @ B) @ gctr E iv (c' + 1) B'"
    unfolding gctr_append [OF w, of E iv c B'] c by (simp add: ac_simps)
qed

end
