(* ===== verification/Gcm_Correct.thy ===== *)
theory Gcm_Correct
  imports Pcl_Gcm
begin

text \<open>
  \<^verbatim>\<open>pcl_CRYPTO_gcm128_*\<close> and \<^verbatim>\<open>pcl_gcm_decrypt\<close> compute GCM as the standard defines it, under the
  contract of the assembly routines. The contexts between calls are described by the data they
  have taken in, so additional data and text may come in pieces of any size.
\<close>

unbundle bit_operations_syntax

section \<open>The context\<close>

definition hash_key :: "('k, 't) pcl_asm \<Rightarrow> ('k, 't) GCM128_CONTEXT \<Rightarrow> bytes" where
  "hash_key A ctx = vpaes_encrypt A zero_block (gcm_key ctx)"

definition keyed :: "('k, 't) pcl_asm \<Rightarrow> ('k, 't) GCM128_CONTEXT \<Rightarrow> bool" where
  "keyed A ctx \<longleftrightarrow> Htable ctx = gcm_init_clmul A (bswap_halves (hash_key A ctx))"

text \<open>
  \<open>dec_state A iv X1 C ctx\<close>: the context after the ciphertext \<open>C\<close>, when \<open>X1\<close> was the GHASH value
  of the additional data. Between calls the counter runs ahead of the text by the started block.
\<close>

definition dec_state :: "('k, 't) pcl_asm \<Rightarrow> bytes \<Rightarrow> bytes \<Rightarrow> bytes \<Rightarrow> ('k, 't) GCM128_CONTEXT \<Rightarrow> bool" where
  "dec_state A iv X1 C ctx \<longleftrightarrow> keyed A ctx \<and> length iv = 12 \<and>
     absorbed (hash_key A ctx) X1 C (Xi ctx) (mres ctx) \<and> mlen ctx = of_nat (length C) \<and>
     Yi ctx = iv @ be_bytes 4 (2 + of_nat ((length C + 15) div 16) :: u32) \<and>
     (mres ctx \<noteq> 0 \<longrightarrow>
        EKi ctx = vpaes_encrypt A (iv @ be_bytes 4 (2 + of_nat (length C div 16) :: u32)) (gcm_key ctx))"

text \<open>The context while the additional data is taken in, and the multiplication that ends it.\<close>

definition aad_state :: "('k, 't) pcl_asm \<Rightarrow> bytes \<Rightarrow> bytes \<Rightarrow> ('k, 't) GCM128_CONTEXT \<Rightarrow> bool" where
  "aad_state A iv a ctx \<longleftrightarrow> keyed A ctx \<and> length iv = 12 \<and>
     absorbed (hash_key A ctx) zero_block a (Xi ctx) (ares ctx) \<and> alen ctx = of_nat (length a) \<and> mlen ctx = 0 \<and>
     mres ctx = 0 \<and> Yi ctx = iv @ be_bytes 4 (2 :: u32) \<and> EK0 ctx = vpaes_encrypt A (iv @ be_bytes 4 (1 :: u32)) (gcm_key ctx)"

definition flushed :: "('k, 't) pcl_asm \<Rightarrow> ('k, 't) GCM128_CONTEXT \<Rightarrow> ('k, 't) GCM128_CONTEXT" where
  "flushed A ctx = (if ares ctx \<noteq> 0 then (GCM_MUL A ctx)\<lparr>ares := 0\<rparr> else ctx)"

text \<open>What decryption leaves alone.\<close>

definition same_setup :: "('k, 't) GCM128_CONTEXT \<Rightarrow> ('k, 't) GCM128_CONTEXT \<Rightarrow> bool" where
  "same_setup ctx ctx' \<longleftrightarrow> gcm_key ctx' = gcm_key ctx \<and> EK0 ctx' = EK0 ctx \<and> alen ctx' = alen ctx \<and> ares ctx' = ares ctx"

text \<open>Calls in sequence, as long as they return 0.\<close>

fun aad_pieces ::
  "('k, 't) pcl_asm \<Rightarrow> bytes list \<Rightarrow> ('k, 't) GCM128_CONTEXT \<Rightarrow> int \<times> ('k, 't) GCM128_CONTEXT" where
  "aad_pieces A [] ctx = (0, ctx)"
| "aad_pieces A (b # bs) ctx = (case pcl_CRYPTO_gcm128_aad A b ctx of (r, ctx) \<Rightarrow>
     if r \<noteq> 0 then (r, ctx) else aad_pieces A bs ctx)"

fun decrypt_pieces ::
  "('k, 't) pcl_asm \<Rightarrow> bytes list \<Rightarrow> ('k, 't) GCM128_CONTEXT \<Rightarrow> int \<times> bytes \<times> ('k, 't) GCM128_CONTEXT" where
  "decrypt_pieces A [] ctx = (0, [], ctx)"
| "decrypt_pieces A (b # bs) ctx = (case pcl_CRYPTO_gcm128_decrypt A b ctx of (r, out, ctx) \<Rightarrow>
     if r \<noteq> 0 then (r, out, ctx)
     else case decrypt_pieces A bs ctx of (r, out', ctx) \<Rightarrow> (r, out @ out', ctx))"

context pcl_asm_spec
begin

lemma length_hash_key [simp]: "length (hash_key A ctx) = 16"
  by (simp add: hash_key_def block_length)

lemma GCM_MUL_keyed:
  "keyed A ctx \<Longrightarrow> length (Xi ctx) = 16 \<Longrightarrow> GCM_MUL A ctx = ctx\<lparr>Xi := gf_mul (Xi ctx) (hash_key A ctx)\<rparr>"
  by (simp add: GCM_MUL_def keyed_def gmult)

lemma GHASH_keyed:
  "keyed A ctx \<Longrightarrow> length (Xi ctx) = 16 \<Longrightarrow> 16 dvd length bs \<Longrightarrow>
     GHASH A bs ctx = ctx\<lparr>Xi := ghash (hash_key A ctx) (Xi ctx) bs\<rparr>"
  by (simp add: GHASH_def keyed_def ghash_blocks)

lemma aad_blocks_absorbs:
  assumes "keyed A ctx" "absorbed (hash_key A ctx) X0 D (Xi ctx) 0"
  obtains X n where "aad_blocks A B ctx = (0, ctx\<lparr>Xi := X, ares := n\<rparr>)"
    "absorbed (hash_key A ctx) X0 (D @ B) X n"
proof (rule split_blocks [of B])
  fix W R
  assume B: "B = W @ R" "16 dvd length W" "length R < 16"
    "W = take (length B - length B mod 16) B" "R = drop (length B - length B mod 16) B" "length R = length B mod 16"
  have len: "length (Xi ctx) = 16" using absorbed_length [OF assms(2)] by simp
  have "(if length B - length B mod 16 \<noteq> 0 then GHASH A W ctx else ctx) = ctx\<lparr>Xi := ghash (hash_key A ctx) (Xi ctx) W\<rparr>"
    using assms(1) len B by (auto simp: GHASH_keyed ghash_short)
  then have "aad_blocks A B ctx = (0, ctx\<lparr>Xi := xor_prefix (ghash (hash_key A ctx) (Xi ctx) W) R, ares := length R\<rparr>)"
    unfolding aad_blocks_def Let_def B(4) [symmetric] B(5) [symmetric] by simp
  then show thesis using that absorbed_whole [OF assms(2) B(1-3)] by blast
qed

text \<open>\<^verbatim>\<open>pcl_CRYPTO_gcm128_aad\<close> may be called repeatedly: it absorbs the concatenation.\<close>

lemma aad_absorbs:
  assumes "keyed A ctx" and abs: "absorbed (hash_key A ctx) X0 D (Xi ctx) (ares ctx)"
    and "mlen ctx = 0" "alen ctx = of_nat (length D)" and len: "length D + length B \<le> 2 ^ 61"
  obtains X n where
    "pcl_CRYPTO_gcm128_aad A B ctx = (0, ctx\<lparr>alen := of_nat (length (D @ B)), Xi := X, ares := n\<rparr>)"
    "absorbed (hash_key A ctx) X0 (D @ B) X n"
proof -
  let ?al = "of_nat (length (D @ B)) :: u64" and ?H = "hash_key A ctx"
  define ctx1 where "ctx1 = ctx\<lparr>alen := ?al\<rparr>"
  have u: "unat ?al = length D + length B" "unat (of_nat (length B) :: u64) = length B"
    using len by (simp_all only: length_append unat_of_nat) simp_all
  have ok: "\<not> push_bit 61 1 < ?al" "\<not> ?al < of_nat (length B)"
    using len u by (simp_all add: word_less_nat_alt push_bit_eq_mult)
  have k: "keyed A ctx1" "hash_key A ctx1 = ?H" using assms(1) by (simp_all add: ctx1_def keyed_def hash_key_def)
  have start: "pcl_CRYPTO_gcm128_aad A B ctx = (if ares ctx \<noteq> 0 then
          (case aad_fill (ares ctx) (Xi ctx) B of (n, X, rest) \<Rightarrow>
             if n = 0 then aad_blocks A rest (GCM_MUL A (ctx1\<lparr>Xi := X\<rparr>)) else (0, ctx1\<lparr>Xi := X, ares := n\<rparr>))
        else aad_blocks A B ctx1)"
    using assms(3, 4) ok unfolding pcl_CRYPTO_gcm128_aad_def Let_def ctx1_def by (simp add: split: prod.split)
  show thesis
  proof (cases "ares ctx = 0")
    case True
    then have "absorbed (hash_key A ctx1) X0 D (Xi ctx1) 0" using abs k by (simp add: ctx1_def)
    from aad_blocks_absorbs [OF k(1) this, of B] that show thesis
      using start True k(2) by (auto simp: ctx1_def)
  next
    case False
    obtain Y R where Y: "Xi ctx = xor_prefix Y R" "length Y = 16" "length R = ares ctx"
      and part: "\<And>B. ares ctx + length B < 16 \<Longrightarrow> absorbed ?H X0 (D @ B) (xor_prefix Y (R @ B)) (ares ctx + length B)"
      and full: "\<And>B. ares ctx + length B = 16 \<Longrightarrow> absorbed ?H X0 (D @ B) (gf_mul (xor_prefix Y (R @ B)) ?H) 0"
      using absorbed_more [OF abs False] by metis
    have n: "ares ctx < 16" using absorbed_length [OF abs] by simp
    define j where "j = min (16 - ares ctx) (length B)"
    have fill: "aad_fill (ares ctx) (Xi ctx) B = ((ares ctx + j) mod 16, xor_prefix Y (R @ take j B), drop j B)"
      unfolding Y(1) by (rule aad_fill_prefix [OF Y(2, 3) _ n j_def]) (use False in simp)
    show thesis
    proof (cases "ares ctx + j = 16")
      case True
      then have j: "length (take j B) = j" by (simp add: j_def)
      let ?ctx2 = "ctx1\<lparr>Xi := gf_mul (xor_prefix Y (R @ take j B)) ?H\<rparr>"
      have mul: "GCM_MUL A (ctx1\<lparr>Xi := xor_prefix Y (R @ take j B)\<rparr>) = ?ctx2"
        using k Y j True by (subst GCM_MUL_keyed) (simp_all add: keyed_def hash_key_def)
      have k2: "keyed A ?ctx2" "hash_key A ?ctx2 = ?H" using k by (simp_all add: keyed_def hash_key_def)
      have "absorbed (hash_key A ?ctx2) X0 (D @ take j B) (Xi ?ctx2) 0" using full [of "take j B"] j True k2 by simp
      from aad_blocks_absorbs [OF k2(1) this, of "drop j B"] that show thesis
        using start False True fill mul k2(2) by (auto simp: ctx1_def)
    next
      case lt: False
      then have "j = length B" "ares ctx + length B < 16" using n by (auto simp: j_def)
      then show thesis using that [OF _ part [of B]] start False fill n by (simp add: ctx1_def)
    qed
  qed
qed

lemma next_key_ctr:
  assumes "Yi ctx = iv @ be_bytes 4 (c :: u32)" "length iv = 12"
  shows "next_key A ctx = ctx\<lparr>EKi := vpaes_encrypt A (iv @ be_bytes 4 c) (gcm_key ctx), Yi := iv @ be_bytes 4 (c + 1)\<rparr>"
  using assms by (simp add: next_key_def set_ctr_def of_be_be_bytes)

lemma dec_blocks_gctr:
  assumes "length iv = 12"
  shows "Yi ctx = iv @ be_bytes 4 c \<Longrightarrow> 16 * n \<le> length inp \<Longrightarrow>
    \<exists>ek. dec_blocks A n inp ctx = (gctr (\<lambda>b. vpaes_encrypt A b (gcm_key ctx)) iv c (take (16 * n) inp),
            ctx\<lparr>EKi := ek, Yi := iv @ be_bytes 4 (c + of_nat n)\<rparr>)"
proof (induction n arbitrary: inp ctx c)
  case 0
  then show ?case by (auto intro: exI [of _ "EKi ctx"])
next
  case (Suc n)
  let ?E = "\<lambda>b. vpaes_encrypt A b (gcm_key ctx)"
  let ?ctx = "ctx\<lparr>EKi := ?E (iv @ be_bytes 4 c), Yi := iv @ be_bytes 4 (c + 1)\<rparr>"
  have step: "next_key A ctx = ?ctx" using Suc.prems assms by (simp add: next_key_ctr)
  have "16 * n \<le> length (drop 16 inp)" using Suc.prems by simp
  then obtain ek where ek: "dec_blocks A n (drop 16 inp) ?ctx = (gctr ?E iv (c + 1) (take (16 * n) (drop 16 inp)),
      ?ctx\<lparr>EKi := ek, Yi := iv @ be_bytes 4 (c + 1 + of_nat n)\<rparr>)"
    using Suc.IH [of ?ctx "c + 1" "drop 16 inp"] by auto
  have "take (16 * Suc n) inp = take 16 inp @ take (16 * n) (drop 16 inp)" by (simp add: take_add)
  then have "gctr ?E iv c (take (16 * Suc n) inp)
      = xor_bytes (take 16 inp) (?E (iv @ be_bytes 4 c)) @ gctr ?E iv (c + 1) (take (16 * n) (drop 16 inp))"
    using Suc.prems gctr_block [of "take 16 inp" ?E iv c] by simp
  then show ?case using ek step by (intro exI [of _ ek]) (simp add: Let_def add.assoc)
qed

lemma dec_chunks_gctr:
  assumes "length iv = 12"
  shows "keyed A ctx \<Longrightarrow> length (Xi ctx) = 16 \<Longrightarrow> Yi ctx = iv @ be_bytes 4 c \<Longrightarrow>
    \<exists>ek m. dec_chunks A inp ctx = (gctr (\<lambda>b. vpaes_encrypt A b (gcm_key ctx)) iv c (take (16 * m) inp), drop (16 * m) inp,
            ctx\<lparr>EKi := ek, Yi := iv @ be_bytes 4 (c + of_nat m), Xi := ghash (hash_key A ctx) (Xi ctx) (take (16 * m) inp)\<rparr>)
          \<and> 16 * m \<le> length inp"
proof (induction "length inp" arbitrary: inp ctx c rule: less_induct)
  case less
  let ?E = "\<lambda>b. vpaes_encrypt A b (gcm_key ctx)" and ?H = "hash_key A ctx"
  let ?Xi = "ghash ?H (Xi ctx) (take 3072 inp)"
  show ?case
  proof (cases "GHASH_CHUNK \<le> length inp")
    case False
    then show ?thesis
      by (intro exI [of _ "EKi ctx"] exI [of _ 0]) (simp add: dec_chunks.simps ghash_short less.prems(3) [symmetric])
  next
    case True
    then have len: "3072 \<le> length inp" by (simp add: GHASH_CHUNK_def)
    have g: "GHASH A (take 3072 inp) ctx = ctx\<lparr>Xi := ?Xi\<rparr>" using less.prems len by (simp add: GHASH_keyed)
    obtain ek where b: "dec_blocks A 192 inp (ctx\<lparr>Xi := ?Xi\<rparr>)
        = (gctr ?E iv c (take 3072 inp), ctx\<lparr>Xi := ?Xi, EKi := ek, Yi := iv @ be_bytes 4 (c + 192)\<rparr>)"
      using dec_blocks_gctr [OF assms, of "ctx\<lparr>Xi := ?Xi\<rparr>" c 192 inp] less.prems len by auto
    let ?ctx = "ctx\<lparr>Xi := ?Xi, EKi := ek, Yi := iv @ be_bytes 4 (c + 192)\<rparr>"
    have "keyed A ?ctx" "length (Xi ?ctx) = 16" "hash_key A ?ctx = ?H" "length (drop 3072 inp) < length inp"
      using less.prems len by (simp_all add: keyed_def hash_key_def)
    then obtain ek' m where r: "dec_chunks A (drop 3072 inp) ?ctx = (gctr ?E iv (c + 192) (take (16 * m) (drop 3072 inp)),
            drop (16 * m) (drop 3072 inp), ?ctx\<lparr>EKi := ek', Yi := iv @ be_bytes 4 (c + 192 + of_nat m),
              Xi := ghash ?H ?Xi (take (16 * m) (drop 3072 inp))\<rparr>)" and m: "16 * m \<le> length inp - 3072"
      using less.hyps [of "drop 3072 inp" ?ctx "c + 192"] by auto
    have t: "take (16 * (192 + m)) inp = take 3072 inp @ take (16 * m) (drop 3072 inp)"
      by (simp add: take_add add.commute [of _ 192])
    have "gctr ?E iv c (take (16 * (192 + m)) inp) = gctr ?E iv c (take 3072 inp) @ gctr ?E iv (c + 192) (take (16 * m) (drop 3072 inp))"
      and "ghash ?H (Xi ctx) (take (16 * (192 + m)) inp) = ghash ?H ?Xi (take (16 * m) (drop 3072 inp))"
      unfolding t using len by (simp_all add: gctr_append ghash_append)
    then show ?thesis using True g b r m len
      by (intro exI [of _ ek'] exI [of _ "192 + m"])
        (simp add: dec_chunks.simps [of A inp] GHASH_CHUNK_def add.assoc add.commute [of "16 * m"])
  qed
qed

lemma dec_rest_gctr:
  assumes k: "keyed A ctx" and X: "length (Xi ctx) = 16"
    and y: "Yi ctx = iv @ be_bytes 4 c" and iv: "length iv = 12" and q: "i = 16 * q" "i \<le> length I"
  obtains ek where
    "(let ctx = (if i \<noteq> 0 then GHASH A (take i I) ctx else ctx) in if i \<noteq> 0 then dec_blocks A q I ctx else ([], ctx))
      = (gctr (\<lambda>b. vpaes_encrypt A b (gcm_key ctx)) iv c (take i I),
         ctx\<lparr>EKi := ek, Yi := iv @ be_bytes 4 (c + of_nat q), Xi := ghash (hash_key A ctx) (Xi ctx) (take i I)\<rparr>)"
proof (cases "q = 0")
  case True
  then show thesis using that [of "EKi ctx"] y q by (simp add: ghash_short)
next
  case False
  let ?ctx = "ctx\<lparr>Xi := ghash (hash_key A ctx) (Xi ctx) (take i I)\<rparr>"
  have "GHASH A (take i I) ctx = ?ctx" using k X q by (simp add: GHASH_keyed)
  moreover obtain ek where "dec_blocks A q I ?ctx = (gctr (\<lambda>b. vpaes_encrypt A b (gcm_key ctx)) iv c (take i I),
      ?ctx\<lparr>EKi := ek, Yi := iv @ be_bytes 4 (c + of_nat q)\<rparr>)"
    using dec_blocks_gctr [OF iv, of ?ctx c q I] y q by auto
  ultimately show thesis using that [of ek] False q by simp
qed

lemma dec_whole_gctr:
  assumes k: "keyed A ctx" and abs: "absorbed (hash_key A ctx) X1 C (Xi ctx) 0"
    and y: "Yi ctx = iv @ be_bytes 4 c" and iv: "length iv = 12"
  obtains ek X n where
    "dec_whole A B ctx = (0, gctr (\<lambda>b. vpaes_encrypt A b (gcm_key ctx)) iv c B,
       ctx\<lparr>EKi := ek, Yi := iv @ be_bytes 4 (c + of_nat ((length B + 15) div 16)), Xi := X, mres := n\<rparr>)"
    "absorbed (hash_key A ctx) X1 (C @ B) X n"
    "n \<noteq> 0 \<Longrightarrow> ek = vpaes_encrypt A (iv @ be_bytes 4 (c + of_nat (length B div 16))) (gcm_key ctx)"
proof -
  let ?E = "\<lambda>b. vpaes_encrypt A b (gcm_key ctx)" and ?H = "hash_key A ctx"
  have X: "length (Xi ctx) = 16" using absorbed_length [OF abs] by simp
  obtain e m where ch: "dec_chunks A B ctx = (gctr ?E iv c (take (16 * m) B), drop (16 * m) B,
        ctx\<lparr>EKi := e, Yi := iv @ be_bytes 4 (c + of_nat m), Xi := ghash ?H (Xi ctx) (take (16 * m) B)\<rparr>)"
    and m: "16 * m \<le> length B"
    using dec_chunks_gctr [OF iv k X y, of B] by blast
  let ?I = "drop (16 * m) B" and ?V = "take (16 * m) B"
  let ?ctx1 = "ctx\<lparr>EKi := e, Yi := iv @ be_bytes 4 (c + of_nat m), Xi := ghash ?H (Xi ctx) ?V\<rparr>"
  define i q where "i = length ?I - length ?I mod 16" and "q = length ?I div 16"
  define W R where "W = take i ?I" and "R = drop i ?I"
  have i: "i = 16 * q" "i \<le> length ?I" by (simp_all add: i_def q_def minus_mod_eq_mult_div)
  have V: "length ?V = 16 * m" and W: "length W = 16 * q" and R: "length R < 16"
    using m i unfolding W_def R_def i_def by simp_all
  have B: "B = (?V @ W) @ R" unfolding W_def R_def by (simp only: append_assoc append_take_drop_id)
  have len: "length B = 16 * (m + q) + length R" using V W by (subst B) simp
  let ?c = "c + of_nat m + of_nat q"
  obtain e' where bl: "(let ctx = (if i \<noteq> 0 then GHASH A W ?ctx1 else ?ctx1) in if i \<noteq> 0 then dec_blocks A q ?I ctx else ([], ctx))
      = (gctr ?E iv (c + of_nat m) W, ?ctx1\<lparr>EKi := e', Yi := iv @ be_bytes 4 ?c, Xi := ghash ?H (Xi ctx) (?V @ W)\<rparr>)"
    using dec_rest_gctr [of ?ctx1 iv "c + of_nat m" i q ?I] k X V iv i
    unfolding W_def by (auto simp: keyed_def hash_key_def ghash_append)
  let ?ctx3 = "ctx\<lparr>EKi := e', Yi := iv @ be_bytes 4 ?c, Xi := ghash ?H (Xi ctx) (?V @ W)\<rparr>"
  have VW: "gctr ?E iv c (?V @ W) = gctr ?E iv c ?V @ gctr ?E iv (c + of_nat m) W"
    using V by (simp add: gctr_append)
  have ab: "absorbed ?H X1 (C @ B) (xor_prefix (ghash ?H (Xi ctx) (?V @ W)) R) (length R)"
    using V W R by (intro absorbed_whole [OF abs B]) simp_all
  have run: "dec_whole A B ctx = (if R \<noteq> [] then
      let ctx = next_key A ?ctx3 in (0, gctr ?E iv c (?V @ W) @ xor_bytes R (EKi ctx), ctx\<lparr>Xi := xor_prefix (Xi ctx) R, mres := length R\<rparr>)
      else (0, gctr ?E iv c (?V @ W), ?ctx3\<lparr>mres := 0\<rparr>))"
    using bl unfolding dec_whole_def ch Let_def prod.case i_def [symmetric] W_def [symmetric] R_def [symmetric] q_def [symmetric] VW
    by simp
  show thesis
  proof (cases "R = []")
    case True
    then show thesis using that [OF _ ab] run B len by (simp add: add.assoc)
  next
    case False
    have c: "(length B + 15) div 16 = m + q + 1" "length B div 16 = m + q"
      using False R len by (cases R; simp)+
    have n: "next_key A ?ctx3 = ?ctx3\<lparr>EKi := ?E (iv @ be_bytes 4 ?c), Yi := iv @ be_bytes 4 (?c + 1)\<rparr>"
      using iv by (subst next_key_ctr [of _ iv]) simp_all
    have "gctr ?E iv c ((?V @ W) @ R) = gctr ?E iv c (?V @ W) @ xor_bytes R (?E (iv @ be_bytes 4 ?c))"
      using V W R by (subst gctr_append) (simp_all add: gctr_short add.assoc)
    then show thesis using that [OF _ ab] run n False c B [symmetric] by (simp add: add.assoc add.commute [of 1])
  qed
qed

lemma dec_stateD:
  assumes "dec_state A iv X1 C ctx"
  shows "keyed A ctx" "length iv = 12" "absorbed (hash_key A ctx) X1 C (Xi ctx) (mres ctx)" "mlen ctx = of_nat (length C)"
    "Yi ctx = iv @ be_bytes 4 (2 + of_nat ((length C + 15) div 16) :: u32)" "mres ctx = length C mod 16"
    "mres ctx \<noteq> 0 \<Longrightarrow> EKi ctx = vpaes_encrypt A (iv @ be_bytes 4 (2 + of_nat (length C div 16) :: u32)) (gcm_key ctx)"
  using assms absorbed_length by (auto simp: dec_state_def)

text \<open>Whole blocks so far: \<^const>\<open>dec_whole\<close> keeps the state and outputs the key stream at that position.\<close>

lemma dec_whole_state:
  assumes k: "keyed A ctx" "length iv = 12" "absorbed (hash_key A ctx) X1 C (Xi ctx) 0" "16 dvd length C"
    and y: "Yi ctx = iv @ be_bytes 4 (2 + of_nat (length C div 16) :: u32)"
  obtains ctx' where "dec_whole A B ctx
      = (0, gctr (\<lambda>b. vpaes_encrypt A b (gcm_key ctx)) iv (2 + of_nat (length C div 16)) B, ctx')"
    "mlen ctx = of_nat (length (C @ B)) \<Longrightarrow> dec_state A iv X1 (C @ B) ctx'"
    "same_setup ctx ctx'"
proof -
  let ?c = "2 + of_nat (length C div 16) :: u32"
  obtain q where q: "length C = 16 * q" using k(4) by (auto elim: dvdE)
  show thesis
  proof (rule dec_whole_gctr [OF k(1, 3) y k(2), of B])
    fix ek X n
    let ?ctx' = "ctx\<lparr>EKi := ek, Yi := iv @ be_bytes 4 (?c + of_nat ((length B + 15) div 16)), Xi := X, mres := n\<rparr>"
    assume r: "dec_whole A B ctx = (0, gctr (\<lambda>b. vpaes_encrypt A b (gcm_key ctx)) iv ?c B, ?ctx')"
      "absorbed (hash_key A ctx) X1 (C @ B) X n"
      "n \<noteq> 0 \<Longrightarrow> ek = vpaes_encrypt A (iv @ be_bytes 4 (?c + of_nat (length B div 16))) (gcm_key ctx)"
    show thesis
    proof (rule that [of ?ctx'])
      show "dec_state A iv X1 (C @ B) ?ctx'" if "mlen ctx = of_nat (length (C @ B))"
        using r(2, 3) k(1, 2) q that by (auto simp: dec_state_def keyed_def hash_key_def add.assoc)
    qed (use r(1) in \<open>simp_all add: same_setup_def\<close>)
  qed
qed

text \<open>The bytes that complete a started block.\<close>

lemma dec_fill_state:
  assumes st: "dec_state A iv X1 C ctx" and n: "mres ctx \<noteq> 0" and j: "j = min (16 - mres ctx) (length B)"
    and E: "E = (\<lambda>b. vpaes_encrypt A b (gcm_key ctx))"
  obtains X out where "dec_fill (mres ctx) (EKi ctx) (Xi ctx) B = ((mres ctx + j) mod 16, X, out, drop j B)"
    "gctr E iv 2 (C @ take j B) = gctr E iv 2 C @ out" "length X = 16"
    "mres ctx + j < 16 \<Longrightarrow> dec_state A iv X1 (C @ B) (ctx\<lparr>mlen := of_nat (length (C @ B)), Xi := X, mres := mres ctx + j\<rparr>)"
    "mres ctx + j = 16 \<Longrightarrow>
       dec_state A iv X1 (C @ take j B) (ctx\<lparr>mlen := of_nat (length C + j), Xi := gf_mul X (hash_key A ctx), mres := 0\<rparr>)"
proof -
  note D = dec_stateD [OF st]
  let ?H = "hash_key A ctx" and ?c = "2 + of_nat (length C div 16) :: u32"
  have n16: "mres ctx < 16" using D(6) by simp
  obtain Y P where Y: "Xi ctx = xor_prefix Y P" "length Y = 16" "length P = mres ctx"
    and part: "\<And>B. mres ctx + length B < 16 \<Longrightarrow> absorbed ?H X1 (C @ B) (xor_prefix Y (P @ B)) (mres ctx + length B)"
    and full: "\<And>B. mres ctx + length B = 16 \<Longrightarrow> absorbed ?H X1 (C @ B) (gf_mul (xor_prefix Y (P @ B)) ?H) 0"
    using absorbed_more [OF D(3) n] by metis
  obtain W R where C: "C = W @ R" "16 dvd length W" "length R < 16" "length R = mres ctx"
    using split_blocks [of C] D(6) by metis
  obtain q where q: "length W = 16 * q" using C(2) by (auto elim: dvdE)
  have c: "length C = 16 * q + mres ctx" "length C div 16 = q" using C q n16 by simp_all
  have up: "(length C + 15) div 16 = q + 1" using n n16 unfolding c(1) by simp
  have ek: "length (EKi ctx) = 16" using D(7) n by (simp add: block_length)
  let ?X = "xor_prefix Y (P @ take j B)"
  have fill: "dec_fill (mres ctx) (EKi ctx) (Xi ctx) B
      = ((mres ctx + j) mod 16, ?X, xor_bytes (take j B) (drop (mres ctx) (EKi ctx)), drop j B)"
    unfolding Y(1) by (rule dec_fill_prefix [OF Y(2) ek Y(3) _ n16 j]) (use n in simp)
  have "R \<noteq> []" using C(4) n by auto
  then have g: "gctr E iv 2 (C @ take j B) = gctr E iv 2 C @ xor_bytes (take j B) (drop (mres ctx) (EKi ctx))"
    using gctr_continue(1) [OF C(2, 3), of E "?c" 2 "take j B" iv] C(1, 4) q c n D(7) j block_length
    unfolding E by (simp add: min_def split: if_splits)
  show thesis
  proof (rule that [OF fill g])
    assume lt: "mres ctx + j < 16"
    then have B: "take j B = B" "j = length B" using j by auto
    have "(length (C @ B) + 15) div 16 = q + 1" "length (C @ B) div 16 = q" using B(2) lt n unfolding length_append c(1) by simp_all
    then show "dec_state A iv X1 (C @ B) (ctx\<lparr>mlen := of_nat (length (C @ B)), Xi := ?X, mres := mres ctx + j\<rparr>)"
      using part [of B] lt B D(1, 2, 5, 7) n up unfolding dec_state_def c(2) by (simp add: keyed_def hash_key_def)
  next
    assume eq: "mres ctx + j = 16"
    then have B: "length (take j B) = j" using j by auto
    have "(length (C @ take j B) + 15) div 16 = q + 1" using B eq unfolding length_append c(1) by simp
    then show "dec_state A iv X1 (C @ take j B) (ctx\<lparr>mlen := of_nat (length C + j), Xi := gf_mul ?X ?H, mres := 0\<rparr>)"
      using full [of "take j B"] eq B D(1, 2, 5) up unfolding dec_state_def by (simp add: keyed_def hash_key_def)
  qed (use Y j in auto)
qed


lemma decrypt_stream:
  assumes st: "dec_state A iv X1 C ctx" and "ares ctx = 0" and len: "length C + length B \<le> 2 ^ 36 - 32"
    and E: "E = (\<lambda>b. vpaes_encrypt A b (gcm_key ctx))"
  obtains out ctx' where "pcl_CRYPTO_gcm128_decrypt A B ctx = (0, out, ctx')"
    "gctr E iv 2 (C @ B) = gctr E iv 2 C @ out" "dec_state A iv X1 (C @ B) ctx'" "same_setup ctx ctx'"
proof -
  note D = dec_stateD [OF st]
  let ?ml = "of_nat (length (C @ B)) :: u64"
  have "unat ?ml = length C + length B" "unat (of_nat (length B) :: u64) = length B"
    using len by (simp_all only: length_append unat_of_nat) simp_all
  then have ok: "\<not> push_bit 36 1 - 32 < ?ml" "\<not> ?ml < of_nat (length B)"
    using len by (simp_all add: word_less_nat_alt)
  have start: "pcl_CRYPTO_gcm128_decrypt A B ctx = (let ctx = ctx\<lparr>mlen := ?ml\<rparr> in
      if mres ctx \<noteq> 0 then
        (case dec_fill (mres ctx) (EKi ctx) (Xi ctx) B of
           (n, X, out, rest) \<Rightarrow>
             let ctx = ctx\<lparr>Xi := X\<rparr> in
             if n = 0 then (case dec_whole A rest (GCM_MUL A ctx) of (r, out', ctx) \<Rightarrow> (r, out @ out', ctx))
             else (0, out, ctx\<lparr>mres := n\<rparr>))
      else dec_whole A B ctx)"
    using D(4) ok assms(2) by (simp add: pcl_CRYPTO_gcm128_decrypt_def Let_def)
  show thesis
  proof (cases "mres ctx = 0")
    case True
    then have m: "16 dvd length C" using D(6) by presburger
    show thesis
    proof (rule dec_whole_state [of "ctx\<lparr>mlen := ?ml\<rparr>" iv X1 C B])
      fix ctx'
      assume "dec_whole A B (ctx\<lparr>mlen := ?ml\<rparr>)
          = (0, gctr (\<lambda>b. vpaes_encrypt A b (gcm_key (ctx\<lparr>mlen := ?ml\<rparr>))) iv (2 + of_nat (length C div 16)) B, ctx')"
        "mlen (ctx\<lparr>mlen := ?ml\<rparr>) = ?ml \<Longrightarrow> dec_state A iv X1 (C @ B) ctx'" "same_setup (ctx\<lparr>mlen := ?ml\<rparr>) ctx'"
      then show thesis using start True m by (intro that) (simp_all add: gctr_append E same_setup_def)
    qed (use D True m in \<open>auto simp: keyed_def hash_key_def elim!: dvdE\<close>)
  next
    case False
    define j where "j = min (16 - mres ctx) (length B)"
    show thesis
    proof (rule dec_fill_state [OF st False j_def E])
      fix X out
      assume f: "dec_fill (mres ctx) (EKi ctx) (Xi ctx) B = ((mres ctx + j) mod 16, X, out, drop j B)"
        "gctr E iv 2 (C @ take j B) = gctr E iv 2 C @ out" "length X = 16"
        and part: "mres ctx + j < 16 \<Longrightarrow> dec_state A iv X1 (C @ B) (ctx\<lparr>mlen := ?ml, Xi := X, mres := mres ctx + j\<rparr>)"
        and full: "mres ctx + j = 16 \<Longrightarrow>
          dec_state A iv X1 (C @ take j B) (ctx\<lparr>mlen := of_nat (length C + j), Xi := gf_mul X (hash_key A ctx), mres := 0\<rparr>)"
      let ?st = "ctx\<lparr>mlen := of_nat (length C + j), Xi := gf_mul X (hash_key A ctx), mres := 0\<rparr>"
      show thesis
      proof (cases "mres ctx + j < 16")
        case True
        then have "take j B = B" using j_def by auto
        then show thesis using start False f part [OF True] True
          by (intro that [of out "ctx\<lparr>mlen := ?ml, Xi := X, mres := mres ctx + j\<rparr>"]) (simp_all add: same_setup_def)
      next
        case ge: False
        then have j: "mres ctx + j = 16" "length (take j B) = j" using j_def D(6) by auto
        have m: "16 dvd length (C @ take j B)" using j D(6) by simp presburger
        let ?ctx = "ctx\<lparr>mlen := ?ml, Xi := gf_mul X (hash_key A ctx)\<rparr>"
        have mul: "GCM_MUL A (ctx\<lparr>mlen := ?ml, Xi := X\<rparr>) = ?ctx"
          using D(1) f(3) by (subst GCM_MUL_keyed) (simp_all add: keyed_def hash_key_def)
        note F = dec_stateD [OF full [OF j(1)]]
        show thesis
        proof (rule dec_whole_state [of ?ctx iv X1 "C @ take j B" "drop j B"])
          fix ctx'
          assume "dec_whole A (drop j B) ?ctx
              = (0, gctr (\<lambda>b. vpaes_encrypt A b (gcm_key ?ctx)) iv (2 + of_nat (length (C @ take j B) div 16)) (drop j B), ctx')"
            "mlen ?ctx = of_nat (length ((C @ take j B) @ drop j B)) \<Longrightarrow> dec_state A iv X1 ((C @ take j B) @ drop j B) ctx'"
            "same_setup ?ctx ctx'"
          then show thesis
            using start False f mul j(1) gctr_append [OF m, of E iv 2 "drop j B"]
            by (intro that) (auto simp: same_setup_def E)
        next
          show "keyed A ?ctx" "length iv = 12" "absorbed (hash_key A ?ctx) X1 (C @ take j B) (Xi ?ctx) 0"
            using F(1-3) by (simp_all add: keyed_def hash_key_def)
          show "Yi ?ctx = iv @ be_bytes 4 (2 + of_nat (length (C @ take j B) div 16) :: u32)"
            using F(5) m by (auto elim!: dvdE simp del: length_append)
        qed (rule m)
      qed
    qed
  qed
qed


lemma start_state:
  "length iv = 12 \<Longrightarrow> aad_state A iv [] (pcl_CRYPTO_gcm128_setiv A iv (pcl_CRYPTO_gcm128_init A k))"
  using absorbed_Nil [of zero_block]
  by (simp add: aad_state_def pcl_CRYPTO_gcm128_setiv_def pcl_CRYPTO_gcm128_init_def set_ctr_def keyed_def
      hash_key_def Let_def zero_block_def be_bytes_def le_bytes_def upt_rec)

lemma aad_state_step:
  assumes "aad_state A iv a ctx" "length a + length B \<le> 2 ^ 61"
  obtains ctx' where "pcl_CRYPTO_gcm128_aad A B ctx = (0, ctx')" "aad_state A iv (a @ B) ctx'" "gcm_key ctx' = gcm_key ctx"
proof -
  have st: "keyed A ctx" "absorbed (hash_key A ctx) zero_block a (Xi ctx) (ares ctx)" "mlen ctx = 0" "alen ctx = of_nat (length a)"
    using assms(1) by (simp_all add: aad_state_def)
  show thesis
  proof (rule aad_absorbs [OF st assms(2)])
    fix X n
    assume "pcl_CRYPTO_gcm128_aad A B ctx = (0, ctx\<lparr>alen := of_nat (length (a @ B)), Xi := X, ares := n\<rparr>)"
      "absorbed (hash_key A ctx) zero_block (a @ B) X n"
    then show thesis using assms(1)
      by (intro that [of "ctx\<lparr>alen := of_nat (length (a @ B)), Xi := X, ares := n\<rparr>"]) (simp_all add: aad_state_def keyed_def hash_key_def)
  qed
qed

lemma flush_state:
  assumes "aad_state A iv a ctx"
  shows "dec_state A iv (ghash (hash_key A ctx) zero_block (pad16 a)) [] (flushed A ctx)" "ares (flushed A ctx) = 0"
    "alen (flushed A ctx) = of_nat (length a)" "gcm_key (flushed A ctx) = gcm_key ctx"
    "EK0 (flushed A ctx) = vpaes_encrypt A (iv @ be_bytes 4 (1 :: u32)) (gcm_key ctx)"
proof -
  have st: "keyed A ctx" "absorbed (hash_key A ctx) zero_block a (Xi ctx) (ares ctx)" using assms by (simp_all add: aad_state_def)
  have X: "length (Xi ctx) = 16" using absorbed_length [OF st(2)] by simp
  have f: "flushed A ctx = ctx\<lparr>Xi := ghash (hash_key A ctx) zero_block (pad16 a), ares := 0\<rparr>"
    using absorbed_flush [OF st(2)] st(1) X by (simp add: flushed_def GCM_MUL_keyed split: if_splits)
  have "length (ghash (hash_key A ctx) zero_block (pad16 a)) = 16" by (simp add: zero_block_def)
  then show "dec_state A iv (ghash (hash_key A ctx) zero_block (pad16 a)) [] (flushed A ctx)"
    using assms absorbed_Nil unfolding f by (simp add: dec_state_def aad_state_def keyed_def hash_key_def)
qed (use assms in \<open>simp_all add: flushed_def GCM_MUL_def aad_state_def\<close>)

lemma decrypt_flushed:
  assumes "pcl_CRYPTO_gcm128_decrypt A B (flushed A ctx) = (0, out, ctx')"
  shows "pcl_CRYPTO_gcm128_decrypt A B ctx = (0, out, ctx')"
proof (cases "ares ctx = 0")
  case False
  have "\<not> (mlen ctx + of_nat (length B) > push_bit 36 1 - 32 \<or> mlen ctx + of_nat (length B) < of_nat (length B))"
    using assms False unfolding pcl_CRYPTO_gcm128_decrypt_def flushed_def GCM_MUL_def Let_def by (simp split: if_splits)
  then show ?thesis
    using assms False unfolding pcl_CRYPTO_gcm128_decrypt_def flushed_def GCM_MUL_def Let_def by (cases ctx) (simp cong: if_cong)
qed (use assms in \<open>simp add: flushed_def\<close>)

lemma finish_flushed:
  "mres ctx = 0 \<Longrightarrow> pcl_CRYPTO_gcm128_finish A t n (flushed A ctx) = pcl_CRYPTO_gcm128_finish A t n ctx"
  by (cases t) (auto simp: pcl_CRYPTO_gcm128_finish_def flushed_def GCM_MUL_def Let_def)

lemma finish_tag:
  assumes st: "dec_state A iv (ghash (hash_key A ctx) zero_block (pad16 a)) C ctx" and "ares ctx = 0"
    and "alen ctx = of_nat (length a)" "length t = 16"
    and "EK0 ctx = vpaes_encrypt A (iv @ be_bytes 4 (1 :: u32)) (gcm_key ctx)"
  shows "pcl_CRYPTO_gcm128_finish A (Some t) 16 ctx
    = (if gcm_tag (\<lambda>b. vpaes_encrypt A b (gcm_key ctx)) iv a C = t then 0 else 1)"
proof -
  note D = dec_stateD [OF st]
  let ?H = "hash_key A ctx" and ?L = "be_bytes 8 (of_nat (8 * length a) :: u64) @ be_bytes 8 (of_nat (8 * length C) :: u64)"
  let ?X = "ghash ?H (ghash ?H zero_block (pad16 a)) (pad16 C)"
  have X: "length (Xi ctx) = 16" using absorbed_length [OF D(3)] by simp
  have f: "(if mres ctx \<noteq> 0 \<or> ares ctx \<noteq> 0 then GCM_MUL A ctx else ctx) = ctx\<lparr>Xi := ?X\<rparr>"
    using absorbed_flush [OF D(3)] D(1) X assms(2) by (simp add: GCM_MUL_keyed split: if_splits)
  have lens: "be_bytes 8 (push_bit 3 (alen ctx)) @ be_bytes 8 (push_bit 3 (mlen ctx)) = ?L"
    using assms(3) D(4) by (simp add: push_bit_eq_mult mult.commute)
  have m: "GCM_MUL A (ctx\<lparr>Xi := xor_bytes ?X ?L\<rparr>) = ctx\<lparr>Xi := gf_mul (xor_bytes ?X ?L) ?H\<rparr>"
    using D(1) by (subst GCM_MUL_keyed) (simp_all add: keyed_def hash_key_def zero_block_def)
  have "gf_mul (xor_bytes ?X ?L) ?H = ghash ?H zero_block (pad16 a @ pad16 C @ ?L)"
    by (simp add: ghash_append ghash_one)
  then have "gcm_tag (\<lambda>b. vpaes_encrypt A b (gcm_key ctx)) iv a C = xor_bytes (gf_mul (xor_bytes ?X ?L) ?H) (EK0 ctx)"
    unfolding gcm_tag_def assms(5) hash_key_def by simp
  moreover have "length (EK0 ctx) = 16" unfolding assms(5) by (rule block_length)
  ultimately show ?thesis
    using assms(4) m unfolding pcl_CRYPTO_gcm128_finish_def Let_def f lens by simp
qed


lemma aad_pieces_state:
  "aad_state A iv a ctx \<Longrightarrow> length a + length (concat bs) \<le> 2 ^ 61 \<Longrightarrow>
    \<exists>ctx'. aad_pieces A bs ctx = (0, ctx') \<and> aad_state A iv (a @ concat bs) ctx' \<and> gcm_key ctx' = gcm_key ctx"
proof (induction bs arbitrary: a ctx)
  case (Cons b bs)
  obtain ctx1 where "pcl_CRYPTO_gcm128_aad A b ctx = (0, ctx1)" "aad_state A iv (a @ b) ctx1" "gcm_key ctx1 = gcm_key ctx"
    using aad_state_step [OF Cons.prems(1), of b] Cons.prems(2) by auto
  then show ?case using Cons.IH [of "a @ b" ctx1] Cons.prems(2) by auto
qed simp

lemma decrypt_pieces_state:
  "dec_state A iv X1 C ctx \<Longrightarrow> ares ctx = 0 \<Longrightarrow> length C + length (concat bs) \<le> 2 ^ 36 - 32 \<Longrightarrow>
    E = (\<lambda>b. vpaes_encrypt A b (gcm_key ctx)) \<Longrightarrow>
    \<exists>out ctx'. decrypt_pieces A bs ctx = (0, out, ctx') \<and> gctr E iv 2 (C @ concat bs) = gctr E iv 2 C @ out \<and>
      dec_state A iv X1 (C @ concat bs) ctx' \<and> same_setup ctx ctx'"
proof (induction bs arbitrary: C ctx)
  case (Cons b bs)
  have "length C + length b \<le> 2 ^ 36 - 32" using Cons.prems(3) by simp
  from decrypt_stream [OF Cons.prems(1, 2) this Cons.prems(4)]
  obtain out ctx1 where d: "pcl_CRYPTO_gcm128_decrypt A b ctx = (0, out, ctx1)"
    "gctr E iv 2 (C @ b) = gctr E iv 2 C @ out" "dec_state A iv X1 (C @ b) ctx1" and st: "same_setup ctx ctx1"
    by blast
  then have "ares ctx1 = 0" "E = (\<lambda>b. vpaes_encrypt A b (gcm_key ctx1))" "length (C @ b) + length (concat bs) \<le> 2 ^ 36 - 32"
    using Cons.prems by (simp_all add: same_setup_def)
  from Cons.IH [OF d(3) this(1, 3, 2)] show ?case using d st by (auto simp: same_setup_def)
qed (auto simp: same_setup_def)

lemma finish_pieces:
  assumes "aad_state A iv a ctx" and len: "length (concat bs) \<le> 2 ^ 36 - 32" and t: "length t = 16"
    and E: "E = (\<lambda>b. vpaes_encrypt A b (gcm_key ctx))"
  obtains ctx' where "decrypt_pieces A bs ctx = (0, gcm_crypt E iv (concat bs), ctx')"
    "pcl_CRYPTO_gcm128_finish A (Some t) 16 ctx' = (if gcm_tag E iv a (concat bs) = t then 0 else 1)"
proof -
  note F = flush_state [OF assms(1)]
  have E': "E = (\<lambda>b. vpaes_encrypt A b (gcm_key (flushed A ctx)))" by (simp add: E F(4))
  have H: "hash_key A (flushed A ctx) = hash_key A ctx" by (simp add: hash_key_def F(4))
  obtain out ctx' where d: "decrypt_pieces A bs (flushed A ctx) = (0, out, ctx')" "gctr E iv 2 (concat bs) = out"
    "dec_state A iv (ghash (hash_key A ctx) zero_block (pad16 a)) (concat bs) ctx'" "same_setup (flushed A ctx) ctx'"
    using decrypt_pieces_state [OF F(1, 2) _ E', of bs] len by auto
  have fin: "pcl_CRYPTO_gcm128_finish A (Some t) 16 ctx' = (if gcm_tag E iv a (concat bs) = t then 0 else 1)"
    using d(3, 4) F(2-5) t finish_tag [of iv ctx' a "concat bs" t] unfolding E
    by (simp add: same_setup_def hash_key_def)
  have "mres ctx = 0" using assms(1) by (simp add: aad_state_def)
  then show thesis
  proof (cases bs)
    case (Cons b bs')
    obtain r o1 c1 where c1: "pcl_CRYPTO_gcm128_decrypt A b (flushed A ctx) = (r, o1, c1)" by (metis prod_cases3)
    then have "r = 0" using d(1) Cons by (auto split: if_splits prod.splits)
    then have "decrypt_pieces A bs ctx = (0, out, ctx')" using d(1) c1 decrypt_flushed [of b ctx o1 c1] Cons by simp
    then show thesis using that d(2) fin by (simp add: gcm_crypt_def)
  qed (use that d fin in \<open>auto simp: gcm_crypt_def finish_flushed\<close>)
qed

lemma pcl_gcm_decrypt_eq:
  assumes "vpaes_set_encrypt_key A key = (0, k)" "length iv = 12" "length tag = 16"
    and "length (case aad of None \<Rightarrow> [] | Some a \<Rightarrow> a) \<le> 2 ^ 61" "length ct \<le> 2 ^ 36 - 32"
  shows "pcl_gcm_decrypt A True (Some ct) aad (Some key) (Some iv) (Some tag)
    = (if gcm_tag (\<lambda>b. vpaes_encrypt A b k) iv (case aad of None \<Rightarrow> [] | Some a \<Rightarrow> a) ct = tag
         then SGX_SUCCESS else SGX_ERROR_PCL_MAC_MISMATCH,
       gcm_crypt (\<lambda>b. vpaes_encrypt A b k) iv ct)"
proof -
  let ?a = "case aad of None \<Rightarrow> [] | Some a \<Rightarrow> a" and ?ctx = "pcl_CRYPTO_gcm128_setiv A iv (pcl_CRYPTO_gcm128_init A k)"
  have k: "gcm_key ?ctx = k" by (simp add: pcl_CRYPTO_gcm128_setiv_def pcl_CRYPTO_gcm128_init_def Let_def)
  obtain ctx1 where a: "(case aad of None \<Rightarrow> (0, ?ctx) | Some a \<Rightarrow> pcl_CRYPTO_gcm128_aad A a ?ctx) = (0, ctx1)"
    "aad_state A iv ?a ctx1" "gcm_key ctx1 = k"
    using start_state [OF assms(2), of k] k assms(4)
      aad_state_step [of iv "[]" ?ctx ?a] by (cases aad) auto
  obtain ctx2 where "decrypt_pieces A [ct] ctx1 = (0, gcm_crypt (\<lambda>b. vpaes_encrypt A b k) iv ct, ctx2)"
    "pcl_CRYPTO_gcm128_finish A (Some tag) 16 ctx2 = (if gcm_tag (\<lambda>b. vpaes_encrypt A b k) iv ?a ct = tag then 0 else 1)"
    using finish_pieces [OF a(2), of "[ct]" tag] assms(3, 5) a(3) by auto
  then show ?thesis
    using assms(1) a(1) by (auto simp: pcl_gcm_decrypt_def Let_def split: if_splits prod.splits)
qed


end

lemma xor_bytes_twice: "length xs \<le> length ys \<Longrightarrow> xor_bytes (xor_bytes xs ys) ys = xs"
  by (rule nth_equalityI) (simp_all add: xor_bytes_nth xor.assoc)

lemma gctr_twice: "(\<And>b. length (E b) = 16) \<Longrightarrow> gctr E iv c (gctr E iv c bs) = bs"
proof (induction "length bs" arbitrary: bs c rule: less_induct)
  case less
  show ?case
  proof (cases "length bs \<le> 16")
    case True
    then show ?thesis using less.prems by (simp add: gctr_short xor_bytes_twice)
  next
    case False
    then have b: "length (take 16 bs) = 16" by simp
    have "gctr E iv c bs = xor_bytes (take 16 bs) (E (iv @ be_bytes 4 c)) @ gctr E iv (c + 1) (drop 16 bs)"
      using gctr_block [OF b, of E iv c "drop 16 bs"] by simp
    then show ?thesis using less.hyps [of "drop 16 bs" "c + 1"] less.prems False b by (simp add: gctr_block xor_bytes_twice)
  qed
qed

lemma gcm_crypt_twice: "(\<And>b. length (E b) = 16) \<Longrightarrow> gcm_crypt E iv (gcm_crypt E iv bs) = bs"
  by (simp add: gcm_crypt_def gctr_twice)

lemma length_gcm_crypt: "(\<And>b. length (E b) = 16) \<Longrightarrow> length (gcm_crypt E iv bs) = length bs"
  by (simp add: gcm_crypt_def length_gctr)

lemma length_gcm_tag: "(\<And>b. length (E b) = 16) \<Longrightarrow> length (gcm_tag E iv a c) = 16"
  by (simp add: gcm_tag_def zero_block_def)

section \<open>The assembly contract, met by the standard's own functions\<close>

text \<open>
  For any function \<open>f\<close> on keys and blocks there are routines that meet the contract: the key schedule
  keeps the key, the table is the hash key, and the multiplications are those of the standard.
\<close>

definition fit16 :: "bytes \<Rightarrow> bytes" where
  "fit16 b = take 16 (b @ zero_block)"

definition spec_asm :: "(bytes \<Rightarrow> bytes \<Rightarrow> bytes) \<Rightarrow> (bytes, bytes) pcl_asm" where
  "spec_asm f = \<lparr>vpaes_set_encrypt_key = (\<lambda>key. (0, key)), vpaes_encrypt = (\<lambda>b k. fit16 (f k b)),
     gcm_init_clmul = bswap_halves, gcm_gmult_clmul = gf_mul, gcm_ghash_clmul = (\<lambda>X H bs. ghash H X bs)\<rparr>"

lemma bswap_halves_twice: "length b = 16 \<Longrightarrow> bswap_halves (bswap_halves b) = b"
  by (simp add: bswap_halves_def)

interpretation spec_asm: pcl_asm_spec "spec_asm f" for f
  by unfold_locales (simp_all add: spec_asm_def fit16_def zero_block_def bswap_halves_twice)

text \<open>An example cipher: the block XORed with the key.\<close>

definition xor_E :: "bytes \<Rightarrow> bytes" where
  "xor_E b = fit16 (xor_bytes (replicate 16 5) b)"

abbreviation "xor_asm \<equiv> spec_asm xor_bytes"

lemma xor_asm_facts:
  "vpaes_set_encrypt_key xor_asm (replicate 16 5) = (0, replicate 16 5)"
  "(\<lambda>b. vpaes_encrypt xor_asm b (replicate 16 5)) = xor_E"
  "length (xor_E b) = 16"
  by (simp_all add: spec_asm_def xor_E_def fit16_def zero_block_def fun_eq_iff)

lemma xor_E_example: "gcm_crypt xor_E (replicate 12 9) [7, 8] = [11, 4]"
  by code_simp

section \<open>Properties\<close>

text \<open>
  C9: \<^verbatim>\<open>pcl_gcm_decrypt\<close> writes the GCM decryption of the ciphertext and succeeds exactly for the GCM
  tag, for texts up to the GCM limit of \<open>2\<^sup>3\<^sup>6 - 32\<close> bytes; a missing additional-data pointer counts as
  empty data. A wrong tag gives the mismatch error.
\<close>

theorem pcl_gcm_decrypt_correct:
  assumes "pcl_asm_spec A" "vpaes_set_encrypt_key A key = (0, k)" "length iv = 12" "length tag = 16"
    and "length (case aad of None \<Rightarrow> [] | Some a \<Rightarrow> a) \<le> 2 ^ 61" "length ct \<le> 2 ^ 36 - 32"
  shows "pcl_gcm_decrypt A True (Some ct) aad (Some key) (Some iv) (Some tag)
    = (if gcm_tag (\<lambda>b. vpaes_encrypt A b k) iv (case aad of None \<Rightarrow> [] | Some a \<Rightarrow> a) ct = tag
         then SGX_SUCCESS else SGX_ERROR_PCL_MAC_MISMATCH,
       gcm_crypt (\<lambda>b. vpaes_encrypt A b k) iv ct)"
  using pcl_asm_spec.pcl_gcm_decrypt_eq [OF assms] .

theorem pcl_gcm_decrypt_correct_witness:
  "pcl_gcm_decrypt xor_asm True (Some [7, 8]) None (Some (replicate 16 5)) (Some (replicate 12 9))
      (Some (gcm_tag xor_E (replicate 12 9) [] [7, 8])) = (SGX_SUCCESS, [11, 4])"
  using pcl_gcm_decrypt_correct [OF spec_asm.pcl_asm_spec_axioms xor_asm_facts(1), of "replicate 12 9" _ None "[7, 8]"]
  by (simp add: xor_asm_facts xor_E_example length_gcm_tag)

text \<open>
  C11: Additional data and ciphertext may be passed in any number of pieces of any size: the context then
  yields the plaintext of the whole ciphertext and accepts exactly the tag of the whole data.
\<close>

theorem gcm128_pieces:
  assumes "pcl_asm_spec A" "length iv = 12" "length tag = 16" "length (concat as) \<le> 2 ^ 61" "length (concat bs) \<le> 2 ^ 36 - 32"
  shows "\<exists>ctx1 ctx2. aad_pieces A as (pcl_CRYPTO_gcm128_setiv A iv (pcl_CRYPTO_gcm128_init A k)) = (0, ctx1) \<and>
      decrypt_pieces A bs ctx1 = (0, gcm_crypt (\<lambda>b. vpaes_encrypt A b k) iv (concat bs), ctx2) \<and>
      (pcl_CRYPTO_gcm128_finish A (Some tag) 16 ctx2 = 0
         \<longleftrightarrow> tag = gcm_tag (\<lambda>b. vpaes_encrypt A b k) iv (concat as) (concat bs))"
proof -
  let ?ctx = "pcl_CRYPTO_gcm128_setiv A iv (pcl_CRYPTO_gcm128_init A k)"
  have k: "gcm_key ?ctx = k" by (simp add: pcl_CRYPTO_gcm128_setiv_def pcl_CRYPTO_gcm128_init_def Let_def)
  obtain ctx1 where a: "aad_pieces A as ?ctx = (0, ctx1)" "aad_state A iv (concat as) ctx1" "gcm_key ctx1 = k"
    using pcl_asm_spec.aad_pieces_state [OF assms(1) pcl_asm_spec.start_state [OF assms(1, 2), of k], of as] assms(4) k by auto
  show ?thesis
    by (rule pcl_asm_spec.finish_pieces [OF assms(1) a(2) assms(5) assms(3) refl])
      (use a(1, 3) in \<open>auto split: if_splits\<close>)
qed

theorem gcm128_pieces_witness:
  "\<exists>ctx1 ctx2. aad_pieces xor_asm [[1], [], [2, 3]]
        (pcl_CRYPTO_gcm128_setiv xor_asm (replicate 12 9) (pcl_CRYPTO_gcm128_init xor_asm (replicate 16 5))) = (0, ctx1) \<and>
      decrypt_pieces xor_asm [[7], [8]] ctx1 = (0, [11, 4], ctx2) \<and>
      (pcl_CRYPTO_gcm128_finish xor_asm (Some (replicate 16 0)) 16 ctx2 = 0
         \<longleftrightarrow> replicate 16 0 = gcm_tag xor_E (replicate 12 9) [1, 2, 3] [7, 8])"
  using gcm128_pieces [OF spec_asm.pcl_asm_spec_axioms, of "replicate 12 9" "replicate 16 0" "[[1], [], [2, 3]]" "[[7], [8]]" xor_bytes "replicate 16 5"]
  by (simp add: xor_asm_facts xor_E_example del: aad_pieces.simps decrypt_pieces.simps replicate.simps)

end
