(* ===== verification/Global_Data.thy ===== *)
theory Global_Data
  imports Sgx_Metadata
begin

text \<open>
  The global data of an enclave (\<^verbatim>\<open>common/inc/internal/global_data.h\<close>, \<^verbatim>\<open>thread_data.h\<close>) on both
  sides of the signing step: \<^verbatim>\<open>psw/urts/parser/update_global_data.hxx\<close> fills the template that the
  loader patches into the image, and \<^verbatim>\<open>sdk/trts/trts_util.cpp\<close> reads heap and reserved memory off it
  inside the enclave. \<^verbatim>\<open>feature_supported\<close> of the same file reads the feature bits that the untrusted
  side passes in.
\<close>

unbundle bit_operations_syntax

section \<open>The structures\<close>

record create_param_t =
  cp_enclave_size :: u64
  cp_stack_max_size :: u64
  cp_stack_min_size :: u64
  cp_stack_limit_addr :: u64
  cp_stack_base_addr :: u64
  cp_ssa_base_addr :: u64
  cp_heap_max_size :: u64
  cp_heap_min_size :: u64
  cp_rsrv_max_size :: u64
  cp_rsrv_min_size :: u64
  cp_heap_init_size :: u64
  cp_heap_offset :: u64
  cp_rsrv_init_size :: u64
  cp_rsrv_offset :: u64
  cp_first_ssa_gpr :: u64
  cp_td_addr :: u64
  cp_tls_addr :: u64
  cp_tcs_num :: u32
  cp_tcs_max_num :: u32
  cp_tcs_min_pool :: u32
  cp_tcs_policy :: u32
  cp_xsave_size :: u32

record thread_data_t =
  td_self_addr :: u64
  td_last_sp :: u64
  td_stack_base_addr :: u64
  td_stack_limit_addr :: u64
  td_first_ssa_gpr :: u64
  td_stack_guard :: u64
  td_flags :: u64
  td_xsave_size :: u64
  td_last_error :: u64
  td_m_next :: u64
  td_tls_addr :: u64
  td_tls_array :: u64
  td_exception_flag :: u64
  td_cxx_thread_info :: "u64 list"
  td_stack_commit_addr :: u64

definition LAYOUT_ENTRY_NUM :: nat where "LAYOUT_ENTRY_NUM = 42"

record global_data_t =
  gd_enclave_size :: u64
  gd_heap_offset :: u64
  gd_heap_size :: u64
  gd_rsrv_offset :: u64
  gd_rsrv_size :: u64
  gd_thread_policy :: u64
  gd_td_template :: thread_data_t
  gd_tcs_template :: bytes
  gd_layout_entry_num :: u32
  gd_layout_table :: "layout_t list"

definition zero_thread_data :: thread_data_t where
  "zero_thread_data = \<lparr>td_self_addr = 0, td_last_sp = 0, td_stack_base_addr = 0, td_stack_limit_addr = 0,
     td_first_ssa_gpr = 0, td_stack_guard = 0, td_flags = 0, td_xsave_size = 0, td_last_error = 0, td_m_next = 0,
     td_tls_addr = 0, td_tls_array = 0, td_exception_flag = 0, td_cxx_thread_info = replicate 6 0,
     td_stack_commit_addr = 0\<rparr>"

definition zero_layout :: layout_t where
  "zero_layout = LEntry \<lparr>le_id = 0, le_attributes = 0, le_page_count = 0, le_rva = 0, le_content_size = 0,
     le_content_offset = 0, le_si_flags = 0\<rparr>"

definition zero_global_data :: global_data_t where
  "zero_global_data = \<lparr>gd_enclave_size = 0, gd_heap_offset = 0, gd_heap_size = 0, gd_rsrv_offset = 0, gd_rsrv_size = 0,
     gd_thread_policy = 0, gd_td_template = zero_thread_data, gd_tcs_template = replicate 72 0,
     gd_layout_entry_num = 0, gd_layout_table = replicate LAYOUT_ENTRY_NUM zero_layout\<rparr>"

text \<open>The bytes of both structures; \<^verbatim>\<open>sizeof(global_data_t)\<close> is 1632.\<close>

definition thread_data_bytes :: "thread_data_t \<Rightarrow> bytes" where
  "thread_data_bytes t = concat (map (le_bytes 8)
     ([td_self_addr t, td_last_sp t, td_stack_base_addr t, td_stack_limit_addr t, td_first_ssa_gpr t,
       td_stack_guard t, td_flags t, td_xsave_size t, td_last_error t, td_m_next t, td_tls_addr t, td_tls_array t,
       td_exception_flag t] @ td_cxx_thread_info t @ [td_stack_commit_addr t]))"

definition global_data_bytes :: "global_data_t \<Rightarrow> bytes" where
  "global_data_bytes g =
     concat (map (le_bytes 8) [gd_enclave_size g, gd_heap_offset g, gd_heap_size g, gd_rsrv_offset g, gd_rsrv_size g,
       gd_thread_policy g])
     @ thread_data_bytes (gd_td_template g) @ gd_tcs_template g
     @ le_bytes 4 (gd_layout_entry_num g) @ le_bytes 4 (0 :: u32) @ concat (map encode_layout (gd_layout_table g))"

definition sizeof_global_data :: u32 where "sizeof_global_data = 1632"
definition sizeof_ssa_gpr :: u64 where "sizeof_ssa_gpr = 184"

text \<open>\<^verbatim>\<open>offsetof(thread_data_t, tls_addr)\<close>\<close>

definition tls_addr_offset :: u64 where "tls_addr_offset = 80"

section \<open>Filling the template\<close>

text \<open>The id of a record of the table, and the record read as an entry.\<close>

fun layout_id :: "layout_t \<Rightarrow> u16" where
  "layout_id (LEntry e) = le_id e"
| "layout_id (LGroup g) = lg_id g"

fun as_entry :: "layout_t \<Rightarrow> layout_entry_t" where
  "as_entry (LEntry e) = e"
| "as_entry (LGroup g) = \<lparr>le_id = lg_id g, le_attributes = lg_entry_count g, le_page_count = lg_load_times g,
     le_rva = lg_load_step g, le_content_size = 0, le_content_offset = 0, le_si_flags = 0\<rparr>"

definition get_entry_by_id :: "layout_t list \<Rightarrow> u16 \<Rightarrow> layout_entry_t option" where
  "get_entry_by_id ls i = map_option as_entry (find (\<lambda>l. layout_id l = i) ls)"

text \<open>The loop that copies the layout table; it fails when the template has no room left.\<close>

fun copy_layouts :: "layout_t list \<Rightarrow> global_data_t \<Rightarrow> global_data_t option" where
  "copy_layouts [] g = Some g"
| "copy_layouts (l # ls) g =
     (if 32 * LAYOUT_ENTRY_NUM - 32 * unat (gd_layout_entry_num g) < 32 then None
      else copy_layouts ls (g\<lparr>gd_layout_table := (gd_layout_table g)[unat (gd_layout_entry_num g) := l],
                              gd_layout_entry_num := gd_layout_entry_num g + 1\<rparr>))"

text \<open>
  \<^verbatim>\<open>do_update_global_data\<close>. A missing heap or TCS entry, where the code asserts, is \<^const>\<open>None\<close> as well.
\<close>

definition do_update_global_data :: "metadata_t \<Rightarrow> create_param_t \<Rightarrow> global_data_t \<Rightarrow> global_data_t option" where
  "do_update_global_data m cp g =
     (let ls = layout_table m in
      case get_entry_by_id ls LAYOUT_ID_HEAP_MIN of
        None \<Rightarrow> None
      | Some heap \<Rightarrow>
          let g = (case get_entry_by_id ls LAYOUT_ID_RSRV_MIN of
                     None \<Rightarrow> g\<lparr>gd_rsrv_offset := 0, gd_rsrv_size := 0\<rparr>
                   | Some rsrv \<Rightarrow> g\<lparr>gd_rsrv_offset := le_rva rsrv, gd_rsrv_size := cp_rsrv_init_size cp\<rparr>);
              td = (gd_td_template g)\<lparr>
                td_stack_limit_addr := cp_stack_limit_addr cp,
                td_stack_base_addr := cp_stack_base_addr cp,
                td_last_sp := cp_stack_base_addr cp,
                td_xsave_size := ucast (cp_xsave_size cp),
                td_first_ssa_gpr := cp_ssa_base_addr cp + ucast (md_ssa_frame_size m * ucast SE_PAGE_SIZE) - sizeof_ssa_gpr,
                td_flags := 0,
                td_tls_addr := cp_tls_addr cp,
                td_self_addr := cp_td_addr cp,
                td_tls_array := cp_td_addr cp + tls_addr_offset\<rparr>;
              g = g\<lparr>gd_enclave_size := md_enclave_size m, gd_heap_offset := le_rva heap,
                   gd_heap_size := cp_heap_init_size cp, gd_thread_policy := ucast (md_tcs_policy m), gd_td_template := td\<rparr>
          in case get_entry_by_id ls LAYOUT_ID_TCS of
            None \<Rightarrow> None
          | Some tcs \<Rightarrow>
              if 72 < unat (le_content_size tcs) then None
              else
                let g = g\<lparr>gd_tcs_template :=
                    put_at (gd_tcs_template g) 0 (rd (md_mem m) (unat (le_content_offset tcs)) (unat (le_content_size tcs)))\<rparr>
                in copy_layouts ls (g\<lparr>gd_layout_entry_num := 0\<rparr>))"

text \<open>\<^verbatim>\<open>ElfParser::update_global_data\<close> on a zeroed buffer: the new size and the filled template.\<close>

definition get_global_data_size :: u32 where "get_global_data_size = sizeof_global_data"

definition update_global_data :: "metadata_t \<Rightarrow> create_param_t \<Rightarrow> u32 \<Rightarrow> u32 \<times> global_data_t option" where
  "update_global_data m cp data_size =
     (if data_size < sizeof_global_data then (sizeof_global_data, None)
      else (sizeof_global_data, do_update_global_data m cp zero_global_data))"

section \<open>Reading it inside the enclave\<close>

definition used_layouts :: "global_data_t \<Rightarrow> layout_t list" where
  "used_layouts g = take (unat (gd_layout_entry_num g)) (gd_layout_table g)"

text \<open>\<^verbatim>\<open>(size_t)entry.page_count << SE_PAGE_SHIFT\<close>\<close>

definition layout_bytes :: "layout_t \<Rightarrow> u64" where
  "layout_bytes l = push_bit SE_PAGE_SHIFT (ucast (le_page_count (as_entry l)))"

definition add_dynamic :: "u16 \<Rightarrow> layout_t list \<Rightarrow> u64 \<Rightarrow> u64" where
  "add_dynamic i ls sz = fold (\<lambda>l sz. if layout_id l = i then sz + layout_bytes l else sz) ls sz"

definition first_size :: "u16 \<Rightarrow> layout_t list \<Rightarrow> u64" where
  "first_size i ls = (case find (\<lambda>l. layout_id l = i) ls of None \<Rightarrow> 0 | Some l \<Rightarrow> layout_bytes l)"

definition get_heap_size :: "bool \<Rightarrow> global_data_t \<Rightarrow> u64" where
  "get_heap_size EDMM_supported g =
     (if EDMM_supported then add_dynamic LAYOUT_ID_HEAP_MAX (used_layouts g) (gd_heap_size g) else gd_heap_size g)"

definition get_heap_min_size :: "global_data_t \<Rightarrow> u64" where
  "get_heap_min_size g = first_size LAYOUT_ID_HEAP_MIN (used_layouts g)"

definition get_rsrv_size :: "bool \<Rightarrow> global_data_t \<Rightarrow> u64" where
  "get_rsrv_size EDMM_supported g =
     (if EDMM_supported then add_dynamic LAYOUT_ID_RSRV_MAX (used_layouts g) (gd_rsrv_size g) else gd_rsrv_size g)"

definition get_rsrv_min_size :: "global_data_t \<Rightarrow> u64" where
  "get_rsrv_min_size g = first_size LAYOUT_ID_RSRV_MIN (used_layouts g)"

text \<open>The address functions, relative to \<^verbatim>\<open>__ImageBase\<close>.\<close>

definition get_enclave_end :: "u64 \<Rightarrow> global_data_t \<Rightarrow> u64" where
  "get_enclave_end base g = base + gd_enclave_size g - 1"

definition get_heap_base :: "u64 \<Rightarrow> global_data_t \<Rightarrow> u64" where
  "get_heap_base base g = base + gd_heap_offset g"

definition get_rsrv_base :: "u64 \<Rightarrow> global_data_t \<Rightarrow> u64" where
  "get_rsrv_base base g = base + gd_rsrv_offset g"

definition get_rsrv_end :: "u64 \<Rightarrow> bool \<Rightarrow> global_data_t \<Rightarrow> u64" where
  "get_rsrv_end base edmm g = get_rsrv_base base g + get_rsrv_size edmm g - 1"

text \<open>
  \<^verbatim>\<open>feature_supported\<close>: the loop over the words of the feature set with its 32-bit index, whose last
  word is marked by the most significant bit. The set is an array that the caller provides;
  \<open>Past_End\<close> is a read behind its end, and \<^const>\<open>None\<close> would be a loop that does not end.
\<close>

datatype feature_result = Feature bool | Past_End

partial_function (option) feature_supported_from :: "u64 list \<Rightarrow> u32 \<Rightarrow> u32 \<Rightarrow> feature_result option" where
  [code]: "feature_supported_from f_set feature_shift i =
     (if push_bit 6 (i + 1) \<le> feature_shift then
        (if length f_set \<le> unat i then Some Past_End
         else if f_set ! unat i AND push_bit 63 1 \<noteq> 0 then Some (Feature False)
         else feature_supported_from f_set feature_shift (i + 1))
      else
        (let bit_position = feature_shift - push_bit 6 i in
         if length f_set \<le> unat i then Some Past_End
         else Some (Feature (f_set ! unat i AND push_bit (unat bit_position) 1 \<noteq> 0))))"

definition feature_supported :: "u64 list option \<Rightarrow> u32 \<Rightarrow> feature_result option" where
  "feature_supported feature_set feature_shift =
     (case feature_set of None \<Rightarrow> Some (Feature False) | Some f_set \<Rightarrow> feature_supported_from f_set feature_shift 0)"

section \<open>The copied table\<close>

lemma copy_layouts_table:
  "unat (gd_layout_entry_num g) = n \<Longrightarrow> length (gd_layout_table g) = LAYOUT_ENTRY_NUM \<Longrightarrow> n \<le> LAYOUT_ENTRY_NUM \<Longrightarrow>
   copy_layouts ls g = (if n + length ls \<le> LAYOUT_ENTRY_NUM
    then Some (g\<lparr>gd_layout_table := take n (gd_layout_table g) @ ls @ drop (n + length ls) (gd_layout_table g),
                 gd_layout_entry_num := of_nat (n + length ls)\<rparr>) else None)"
proof (induction ls arbitrary: g n)
  case Nil
  then have "of_nat n = gd_layout_entry_num g" by auto
  then show ?case using Nil by simp
next
  case (Cons l ls)
  let ?g = "g\<lparr>gd_layout_table := (gd_layout_table g)[n := l], gd_layout_entry_num := gd_layout_entry_num g + 1\<rparr>"
  show ?case
  proof (cases "n < LAYOUT_ENTRY_NUM")
    case True
    then have "unat (gd_layout_entry_num ?g) = Suc n"
      using Cons.prems by (simp add: LAYOUT_ENTRY_NUM_def unat_word_ariths)
    then have "copy_layouts ls ?g = (if Suc n + length ls \<le> LAYOUT_ENTRY_NUM
      then Some (?g\<lparr>gd_layout_table := take (Suc n) (gd_layout_table ?g) @ ls @ drop (Suc n + length ls) (gd_layout_table ?g),
                   gd_layout_entry_num := of_nat (Suc n + length ls)\<rparr>) else None)"
      using Cons.prems True by (intro Cons.IH) simp_all
    moreover have "take (Suc n) ((gd_layout_table g)[n := l]) = take n (gd_layout_table g) @ [l]"
      using True Cons.prems(2) by (simp add: take_Suc_conv_app_nth)
    moreover have "\<not> 32 * LAYOUT_ENTRY_NUM - 32 * n < 32" using True by (simp add: LAYOUT_ENTRY_NUM_def)
    ultimately show ?thesis using Cons.prems True by simp
  next
    case False
    then show ?thesis using Cons.prems by (simp add: LAYOUT_ENTRY_NUM_def)
  qed
qed

lemma copy_layouts_zero:
  assumes "length ls \<le> LAYOUT_ENTRY_NUM"
  obtains g' where "copy_layouts ls (g\<lparr>gd_layout_table := gd_layout_table zero_global_data, gd_layout_entry_num := 0\<rparr>) = Some g'"
    "used_layouts g' = ls" "gd_heap_size g' = gd_heap_size g" "gd_rsrv_size g' = gd_rsrv_size g"
    "gd_heap_offset g' = gd_heap_offset g" "gd_rsrv_offset g' = gd_rsrv_offset g" "gd_enclave_size g' = gd_enclave_size g"
proof -
  let ?g = "g\<lparr>gd_layout_table := gd_layout_table zero_global_data, gd_layout_entry_num := 0\<rparr>"
  have "unat (of_nat (length ls) :: u32) = length ls" using assms by (simp add: LAYOUT_ENTRY_NUM_def unat_of_nat)
  then show ?thesis
    using copy_layouts_table [of ?g 0 ls] assms
    by (intro that [of "?g\<lparr>gd_layout_table := ls @ drop (length ls) (gd_layout_table ?g), gd_layout_entry_num := of_nat (length ls)\<rparr>"])
      (simp_all add: used_layouts_def zero_global_data_def)
qed

section \<open>Feature bits\<close>

text \<open>The index of the first word that is marked as the last one; the length of the set if there is none.\<close>

definition last_word :: "u64 list \<Rightarrow> nat" where
  "last_word fs = length (takeWhile (\<lambda>w. \<not> bit w 63) fs)"

lemma last_word_marked: "last_word fs < length fs \<Longrightarrow> bit (fs ! last_word fs) 63"
  using nth_length_takeWhile [of "\<lambda>w. \<not> bit w 63" fs] by (simp add: last_word_def)

lemma last_word_before: "j < last_word fs \<Longrightarrow> \<not> bit (fs ! j) 63"
  using takeWhile_nth [of j "\<lambda>w. \<not> bit w 63" fs] nth_mem [of j "takeWhile (\<lambda>w. \<not> bit w 63) fs"] set_takeWhileD
  unfolding last_word_def by metis

lemma last_word_le: "last_word fs \<le> length fs"
  by (simp add: last_word_def length_takeWhile_le)

text \<open>
  The loop condition in numbers. Above \<open>2\<^sup>3\<^sup>2 - 65\<close> the shifted index never exceeds the feature number,
  because the shift wraps around.
\<close>

lemma more_words:
  "push_bit 6 (i + 1) \<le> feature_shift \<longleftrightarrow> 2 ^ 32 - 64 \<le> unat feature_shift \<or> unat i < unat feature_shift div 64"
  if "unat i < 2 ^ 32 - 1" "unat feature_shift < 2 ^ 32 - 64 \<longrightarrow> unat i \<le> unat feature_shift div 64" for i :: u32
proof -
  have i1: "unat (i + 1) = unat i + 1" using that(1) by (simp add: unat_word_ariths)
  have "push_bit 6 (i + 1) = (i + 1) * 64" by (simp only: push_bit_eq_mult) simp
  then have "unat (push_bit 6 (i + 1)) = unat (i + 1) * unat (64 :: u32) mod 2 ^ LENGTH(32)" by (simp only: unat_word_ariths)
  then have p: "unat (push_bit 6 (i + 1)) = 64 * (unat i + 1) mod 2 ^ 32" unfolding i1 by (simp only: mult.commute) simp
  show ?thesis
  proof (cases "unat feature_shift < 2 ^ 32 - 64")
    case True
    then have "64 * (unat i + 1) < 2 ^ 32" using that(2) by simp
    then have "64 * (unat i + 1) mod 2 ^ 32 = 64 * (unat i + 1)" by (rule mod_less)
    then show ?thesis using True unfolding word_le_nat_alt p by auto
  next
    case False
    have "64 * (unat i + 1) mod (64 * 2 ^ 26) = 64 * ((unat i + 1) mod 2 ^ 26)" by (rule mult_mod_right [symmetric])
    moreover have "(unat i + 1) mod 2 ^ 26 < 2 ^ 26" by simp
    ultimately have "64 * (unat i + 1) mod 2 ^ 32 \<le> 2 ^ 32 - 64" by simp
    then show ?thesis using False unfolding word_le_nat_alt p by linarith
  qed
qed

text \<open>What the loop finds from an index on that it can reach.\<close>

definition feature_found :: "u64 list \<Rightarrow> u32 \<Rightarrow> feature_result" where
  "feature_found fs feature_shift =
     (let last = last_word fs; q = unat feature_shift div 64; wraps = 2 ^ 32 - 64 \<le> unat feature_shift in
      if last < length fs \<and> (last < q \<or> wraps) then Feature False
      else if q < length fs \<and> \<not> wraps then Feature (bit (fs ! q) (unat feature_shift mod 64))
      else Past_End)"

lemma feature_supported_from_found:
  assumes "length fs < 2 ^ 32 - 1" "unat i \<le> last_word fs" "unat feature_shift < 2 ^ 32 - 64 \<longrightarrow> unat i \<le> unat feature_shift div 64"
  shows "feature_supported_from fs feature_shift i = Some (feature_found fs feature_shift)"
  using assms(2,3)
proof (induction "last_word fs - unat i" arbitrary: i rule: less_induct)
  case less
  let ?q = "unat feature_shift div 64"
  have small: "unat i < 2 ^ 32 - 1" using less.prems(1) last_word_le [of fs] assms(1) by linarith
  note more = more_words [OF small less.prems(2)]
  have i1: "unat (i + 1) = unat i + 1" using small by (simp add: unat_word_ariths)
  show ?case
  proof (cases "2 ^ 32 - 64 \<le> unat feature_shift \<or> unat i < ?q")
    case True
    have msb: "w AND push_bit 63 1 \<noteq> 0 \<longleftrightarrow> bit w 63" for w :: u64 by (rule and_push_bit_1_iff)
    show ?thesis
    proof (cases "unat i = last_word fs")
      case at: True
      then show ?thesis
        using True more msb last_word_marked [of fs] last_word_le [of fs]
        by (subst feature_supported_from.simps) (auto simp: feature_found_def Let_def)
    next
      case False
      then have lt: "unat i < last_word fs" using less.prems(1) by linarith
      then have "feature_supported_from fs feature_shift (i + 1) = Some (feature_found fs feature_shift)"
        using True by (intro less.hyps) (auto simp: i1)
      then show ?thesis
        using True more msb last_word_before [OF lt] lt last_word_le [of fs] by (subst feature_supported_from.simps) simp
    qed
  next
    case False
    then have q: "unat i = ?q" "\<not> push_bit 6 (i + 1) \<le> feature_shift" using less.prems(2) more by auto
    have "unat (push_bit 6 i) = 64 * ?q"
      using q(1) unat_less_exp [of feature_shift] by (simp add: push_bit_eq_mult unat_word_ariths)
    then have "unat (feature_shift - push_bit 6 i) = unat feature_shift mod 64"
      by (subst unat_sub) (simp_all add: word_le_nat_alt minus_mult_div_eq_mod)
    then show ?thesis
      using q False less.prems(1)
      by (subst feature_supported_from.simps) (simp add: feature_found_def Let_def and_push_bit_1_iff del: push_bit_of_1)
  qed
qed

text \<open>
  C20: what \<^verbatim>\<open>feature_supported\<close> returns, for every feature number and every feature set. On a set in
  which some word is marked as the last one it never reads behind that word: it reports a feature
  exactly when its word is not behind the marked one and its bit is set. This includes bit 63 of the
  marked word, so that the mark itself counts as a feature. Feature numbers from \<open>2\<^sup>3\<^sup>2 - 64\<close> on are
  never reported, because the loop condition wraps around. A set without a mark is read behind its
  end when the feature number lies behind it or is one of these.
\<close>

theorem feature_supported_correct:
  assumes "length fs < 2 ^ 32 - 1"
  shows "feature_supported (Some fs) feature_shift = Some
    (if last_word fs < length fs
     then Feature (unat feature_shift div 64 \<le> last_word fs \<and> unat feature_shift < 2 ^ 32 - 64
                   \<and> bit (fs ! (unat feature_shift div 64)) (unat feature_shift mod 64))
     else if unat feature_shift div 64 < length fs \<and> unat feature_shift < 2 ^ 32 - 64
     then Feature (bit (fs ! (unat feature_shift div 64)) (unat feature_shift mod 64))
     else Past_End)"
  using feature_supported_from_found [OF assms, of 0 feature_shift]
  by (auto simp: feature_supported_def feature_found_def Let_def)

theorem feature_supported_correct_witness:
  "feature_supported (Some [5, 0x8000000000000004]) 66 = Some (Feature True)
   \<and> feature_supported (Some [5, 0x8000000000000004]) 130 = Some (Feature False)
   \<and> feature_supported (Some [5, 0x8000000000000004]) 127 = Some (Feature True)
   \<and> feature_supported (Some [5, 5]) 130 = Some Past_End"
proof -
  have "last_word [5, 0x8000000000000004] = 1" "last_word [5, 5] = 2" by (simp_all add: last_word_def bit_simps)
  then show ?thesis
    using feature_supported_correct [of "[5, 0x8000000000000004]" 66] feature_supported_correct [of "[5, 0x8000000000000004]" 130]
      feature_supported_correct [of "[5, 0x8000000000000004]" 127] feature_supported_correct [of "[5, 5]" 130]
    by (simp add: bit_simps)
qed

end
