(* ===== verification/Metadata_Build.thy ===== *)
theory Metadata_Build
  imports Enclave_Loader Global_Data "HOL-Library.Monad_Syntax"
begin

text \<open>
  The class \<^verbatim>\<open>CMetadata\<close> of \<^verbatim>\<open>sdk/sign_tool/SignTool/manage_metadata.cpp\<close>: the signing tool checks the
  configuration, fills the signature structure, lays out heap, thread contexts and reserved memory
  behind the sections, and writes the layout table, the patch table and the templates into the
  metadata. The reading of the XML configuration is modelled from the parsed document on. A method
  that returns \<^verbatim>\<open>false\<close> is \<^const>\<open>None\<close>.
\<close>

unbundle bit_operations_syntax

section \<open>The configuration\<close>

datatype para_type_t =
  PRODID | ISVSVN | RELEASETYPE | INTELSIGNED | PROVISIONKEY | LAUNCHKEY | DISABLEDEBUG | HW | TCSNUM | TCSMAXNUM
| TCSMINPOOL | TCSPOLICY | STACKMAXSIZE | STACKMINSIZE | HEAPMAXSIZE | HEAPMINSIZE | HEAPINITSIZE | RSRVMAXSIZE
| RSRVMINSIZE | RSRVINITSIZE | MISCSELECT | MISCMASK | ENABLEKSS | ISVFAMILYID_H | ISVFAMILYID_L | ISVEXTPRODID_H
| ISVEXTPRODID_L

definition para_types :: "para_type_t list" where
  "para_types = [PRODID, ISVSVN, RELEASETYPE, INTELSIGNED, PROVISIONKEY, LAUNCHKEY, DISABLEDEBUG, HW, TCSNUM, TCSMAXNUM,
     TCSMINPOOL, TCSPOLICY, STACKMAXSIZE, STACKMINSIZE, HEAPMAXSIZE, HEAPMINSIZE, HEAPINITSIZE, RSRVMAXSIZE,
     RSRVMINSIZE, RSRVINITSIZE, MISCSELECT, MISCMASK, ENABLEKSS, ISVFAMILYID_H, ISVFAMILYID_L, ISVEXTPRODID_H,
     ISVEXTPRODID_L]"

record xml_parameter_t =
  xp_name :: string
  xp_max_value :: u64
  xp_min_value :: u64
  xp_value :: u64
  xp_flag :: u32

text \<open>\<^verbatim>\<open>parameter[X]\<close>: the array has the order of the enumeration.\<close>

definition param :: "xml_parameter_t list \<Rightarrow> para_type_t \<Rightarrow> xml_parameter_t" where
  "param ps t = the (map_of (zip para_types ps) t)"

definition value_of :: "xml_parameter_t list \<Rightarrow> para_type_t \<Rightarrow> u64" where
  "value_of ps t = xp_value (param ps t)"

definition given :: "xml_parameter_t list \<Rightarrow> para_type_t \<Rightarrow> bool" where
  "given ps t \<longleftrightarrow> xp_flag (param ps t) \<noteq> 0"

text \<open>The table of names, bounds and defaults in \<^verbatim>\<open>main\<close>.\<close>

definition xml_param :: "string \<Rightarrow> u64 \<Rightarrow> u64 \<Rightarrow> u64 \<Rightarrow> xml_parameter_t" where
  "xml_param nm mx mn v = \<lparr>xp_name = nm, xp_max_value = mx, xp_min_value = mn, xp_value = v, xp_flag = 0\<rparr>"

definition default_parameters :: "xml_parameter_t list" where
  "default_parameters = [
     xml_param ''ProdID'' 0xFFFF 0 0,
     xml_param ''ISVSVN'' 0xFFFF 0 0,
     xml_param ''ReleaseType'' 1 0 0,
     xml_param ''IntelSigned'' 1 0 0,
     xml_param ''ProvisionKey'' 1 0 0,
     xml_param ''LaunchKey'' 1 0 0,
     xml_param ''DisableDebug'' 1 0 0,
     xml_param ''HW'' 0x10 0 0,
     xml_param ''TCSNum'' 0xFFFFFFFF 1 1,
     xml_param ''TCSMaxNum'' 0xFFFFFFFF 1 1,
     xml_param ''TCSMinPool'' 0xFFFFFFFF 0 1,
     xml_param ''TCSPolicy'' 1 0 1,
     xml_param ''StackMaxSize'' 0x1FFFFFFFFF 0x2000 0x40000,
     xml_param ''StackMinSize'' 0x1FFFFFFFFF 0x2000 0x2000,
     xml_param ''HeapMaxSize'' 0x1FFFFFFFFF 0 0x1000000,
     xml_param ''HeapMinSize'' 0x1FFFFFFFFF 0 0x1000,
     xml_param ''HeapInitSize'' 0x1FFFFFFFFF 0 0x1000,
     xml_param ''RsrvMaxSize'' 0x1FFFFFFFFF 0 0,
     xml_param ''RsrvMinSize'' 0x1FFFFFFFFF 0 0,
     xml_param ''RsrvInitSize'' 0x1FFFFFFFFF 0 0,
     xml_param ''MiscSelect'' 0xFFFFFFFF 0 0,
     xml_param ''MiscMask'' 0xFFFFFFFF 0 0xFFFFFFFF,
     xml_param ''EnableKSS'' 1 0 0,
     xml_param ''ISVFAMILYID_H'' 0xFFFFFFFFFFFFFFFF 0 0,
     xml_param ''ISVFAMILYID_L'' 0xFFFFFFFFFFFFFFFF 0 0,
     xml_param ''ISVEXTPRODID_H'' 0xFFFFFFFFFFFFFFFF 0 0,
     xml_param ''ISVEXTPRODID_L'' 0xFFFFFFFFFFFFFFFF 0 0]"

text \<open>
  \<^verbatim>\<open>strtoull(s, &endptr, 0)\<close> of the C library on a string without a minus sign: the value, what is left
  at \<^verbatim>\<open>endptr\<close>, and whether the value was out of range.
\<close>

definition is_space :: "char \<Rightarrow> bool" where
  "is_space c \<longleftrightarrow> of_char c \<in> {32, 9, 10, 11, 12, 13 :: nat}"

definition digit_value :: "char \<Rightarrow> nat" where
  "digit_value c = (let n = of_char c in
     if 48 \<le> n \<and> n \<le> 57 then n - 48
     else if 97 \<le> n \<and> n \<le> 122 then n - 87
     else if 65 \<le> n \<and> n \<le> 90 then n - 55
     else 36)"

definition scan_number :: "nat \<Rightarrow> string \<Rightarrow> nat \<times> string" where
  "scan_number base s =
     (foldl (\<lambda>a c. a * base + digit_value c) 0 (takeWhile (\<lambda>c. digit_value c < base) s),
      dropWhile (\<lambda>c. digit_value c < base) s)"

definition strtoull :: "string \<Rightarrow> nat \<times> string \<times> bool" where
  "strtoull s =
     (let t = dropWhile is_space s;
          t = (case t of CHR ''+'' # u \<Rightarrow> u | _ \<Rightarrow> t);
          hex = (case t of c0 # x # d # _ \<Rightarrow> c0 = CHR ''0'' \<and> (x = CHR ''x'' \<or> x = CHR ''X'') \<and> digit_value d < 16 | _ \<Rightarrow> False);
          base = (if hex then 16 else if t \<noteq> [] \<and> hd t = CHR ''0'' then 8 else 10);
          u = (if hex then drop 2 t else t)
      in if u = [] \<or> \<not> digit_value (hd u) < base then (0, s, False)
         else case scan_number base u of (v, rest) \<Rightarrow> (v, rest, v \<ge> 2 ^ 64))"

definition traverser_parameter :: "string \<Rightarrow> string option \<Rightarrow> xml_parameter_t list \<Rightarrow> xml_parameter_t list option" where
  "traverser_parameter temp_name temp_text ps =
     (case temp_text of
        None \<Rightarrow> None
      | Some text \<Rightarrow>
          if CHR ''-'' \<in> set text then None
          else case strtoull text of (v, endptr, erange) \<Rightarrow>
            if endptr \<noteq> [] \<or> erange then None
            else
              let temp_value = of_nat v;
                  i = length (takeWhile (\<lambda>p. xp_name p \<noteq> temp_name) ps)
              in if i \<ge> length ps then None
                 else
                   let p = ps ! i in
                   if xp_flag p = 1 then None
                   else if temp_value < xp_min_value p \<or> temp_value > xp_max_value p then None
                   else Some (ps[i := p\<lparr>xp_flag := 1, xp_value := temp_value\<rparr>]))"

text \<open>
  What tinyxml2 makes of the file: the first \<^verbatim>\<open>EnclaveConfiguration\<close> element with its own text and
  its child elements, or nothing when the file does not load or has no such element.
\<close>

record xml_element =
  xe_value :: string
  xe_text :: "string option"
  xe_has_attribute :: bool

record xml_root =
  xr_text :: "string option"
  xr_children :: "xml_element list"

fun parse_elements :: "xml_element list \<Rightarrow> xml_parameter_t list \<Rightarrow> xml_parameter_t list option" where
  "parse_elements [] ps = Some ps"
| "parse_elements (e # es) ps =
     (if xe_has_attribute e then None
      else case traverser_parameter (xe_value e) (xe_text e) ps of
        None \<Rightarrow> None
      | Some ps' \<Rightarrow> parse_elements es ps')"

definition parse_metadata_file ::
  "(string \<Rightarrow> xml_root option) \<Rightarrow> string option \<Rightarrow> xml_parameter_t list \<Rightarrow> xml_parameter_t list option" where
  "parse_metadata_file load_xml xmlpath ps =
     (case xmlpath of
        None \<Rightarrow> Some ps
      | Some path \<Rightarrow>
          case load_xml path of
            None \<Rightarrow> None
          | Some root \<Rightarrow> if xr_text root \<noteq> None then None else parse_elements (xr_children root) ps)"

section \<open>The class CMetadata\<close>

datatype bin_fmt_t = BF_UNKNOWN | BF_PE32 | BF_PE64 | BF_ELF32 | BF_ELF64

text \<open>
  What \<^verbatim>\<open>CMetadata\<close> asks of the \<^verbatim>\<open>BinParser\<close>, and the mapped file with its address.
\<close>

record meta_parser =
  mp_bin_format :: bin_fmt_t
  mp_enclave_max_size :: u64
  mp_sections :: "section_t list"
  mp_tls_section :: "section_t option"
  mp_symbol_rva :: "string \<Rightarrow> u64"
  mp_start_addr :: u64
  mp_file :: memory

record cmetadata =
  m_metadata :: metadata_t
  m_create_param :: create_param_t
  m_layouts :: "layout_t list"
  m_rva :: u64
  m_gd_size :: u32
  m_gd_template :: u32

definition zero_metadata :: metadata_t where
  "zero_metadata = \<lparr>md_magic_num = 0, md_version = 0, md_size = 0, md_tcs_policy = 0, md_ssa_frame_size = 0,
     md_max_save_buffer_size = 0, md_desired_misc_select = 0, md_tcs_min_pool = 0, md_enclave_size = 0,
     md_attributes = \<lparr>attr_flags = 0, attr_xfrm = 0\<rparr>, md_enclave_css = zero_css,
     md_dir_patch = \<lparr>dd_offset = 0, dd_size = 0\<rparr>, md_dir_layout = \<lparr>dd_offset = 0, dd_size = 0\<rparr>,
     md_mem = (\<lambda>a. 0)\<rparr>"

definition zero_create_param :: create_param_t where
  "zero_create_param = \<lparr>cp_enclave_size = 0, cp_stack_max_size = 0, cp_stack_min_size = 0, cp_stack_limit_addr = 0,
     cp_stack_base_addr = 0, cp_ssa_base_addr = 0, cp_heap_max_size = 0, cp_heap_min_size = 0, cp_rsrv_max_size = 0,
     cp_rsrv_min_size = 0, cp_heap_init_size = 0, cp_heap_offset = 0, cp_rsrv_init_size = 0, cp_rsrv_offset = 0,
     cp_first_ssa_gpr = 0, cp_td_addr = 0, cp_tls_addr = 0, cp_tcs_num = 0, cp_tcs_max_num = 0, cp_tcs_min_pool = 0,
     cp_tcs_policy = 0, cp_xsave_size = 0\<rparr>"

definition CMetadata :: cmetadata where
  "CMetadata = \<lparr>m_metadata = zero_metadata, m_create_param = zero_create_param, m_layouts = [], m_rva = 0,
     m_gd_size = 0, m_gd_template = 0\<rparr>"

subsection \<open>Configuration and signature structure\<close>

definition ALIGN_SIZE :: u64 where "ALIGN_SIZE = 0x1000"

definition unaligned :: "xml_parameter_t list \<Rightarrow> para_type_t \<Rightarrow> bool" where
  "unaligned ps t \<longleftrightarrow> value_of ps t mod ALIGN_SIZE \<noteq> 0"

text \<open>The checks on minimum, initial and maximum size that heap and reserved memory share.\<close>

definition bad_sizes :: "xml_parameter_t list \<Rightarrow> para_type_t \<Rightarrow> para_type_t \<Rightarrow> para_type_t \<Rightarrow> bool" where
  "bad_sizes ps max_p min_p init_p \<longleftrightarrow>
     (if given ps init_p then value_of ps init_p > value_of ps max_p \<or> value_of ps min_p > value_of ps init_p
      else value_of ps min_p > value_of ps max_p)"

definition bad_tcs :: "xml_parameter_t list \<Rightarrow> bool" where
  "bad_tcs ps \<longleftrightarrow>
     (if given ps TCSMAXNUM then
        value_of ps TCSMAXNUM < value_of ps TCSNUM
        \<or> given ps TCSMINPOOL \<and> value_of ps TCSMINPOOL > value_of ps TCSMAXNUM
      else given ps TCSMINPOOL \<and> value_of ps TCSMINPOOL > value_of ps TCSNUM)"

definition create_param_of :: "xml_parameter_t list \<Rightarrow> create_param_t \<Rightarrow> create_param_t" where
  "create_param_of ps cp = cp\<lparr>
        cp_heap_init_size := (if given ps HEAPINITSIZE then value_of ps HEAPINITSIZE else value_of ps HEAPMAXSIZE),
        cp_heap_min_size := value_of ps HEAPMINSIZE,
        cp_heap_max_size := value_of ps HEAPMAXSIZE,
        cp_rsrv_init_size := (if given ps RSRVINITSIZE then value_of ps RSRVINITSIZE else value_of ps RSRVMAXSIZE),
        cp_rsrv_min_size := value_of ps RSRVMINSIZE,
        cp_rsrv_max_size := value_of ps RSRVMAXSIZE,
        cp_stack_max_size := value_of ps STACKMAXSIZE,
        cp_stack_min_size := value_of ps STACKMINSIZE,
        cp_tcs_num := ucast (value_of ps TCSNUM),
        cp_tcs_max_num := ucast (if given ps TCSMAXNUM then value_of ps TCSMAXNUM else value_of ps TCSNUM),
        cp_tcs_min_pool := ucast (value_of ps TCSMINPOOL),
        cp_tcs_policy := ucast (value_of ps TCSPOLICY)\<rparr>"

definition check_xml_parameter :: "xml_parameter_t list \<Rightarrow> create_param_t \<Rightarrow> create_param_t option" where
  "check_xml_parameter ps cp =
     (if unaligned ps STACKMAXSIZE \<or> unaligned ps STACKMINSIZE then None
      else if value_of ps STACKMINSIZE > value_of ps STACKMAXSIZE then None
      else if unaligned ps HEAPMAXSIZE \<or> unaligned ps HEAPMINSIZE \<or> unaligned ps HEAPINITSIZE then None
      else if bad_sizes ps HEAPMAXSIZE HEAPMINSIZE HEAPINITSIZE then None
      else if unaligned ps RSRVMAXSIZE \<or> unaligned ps RSRVMINSIZE \<or> unaligned ps RSRVINITSIZE then None
      else if bad_sizes ps RSRVMAXSIZE RSRVMINSIZE RSRVINITSIZE then None
      else if value_of ps HW = 0 \<and> value_of ps LAUNCHKEY \<noteq> 0 \<or> value_of ps HW \<noteq> 0 \<and> value_of ps LAUNCHKEY = 0 then None
      else if bad_tcs ps then None
      else if (value_of ps ISVEXTPRODID_H \<noteq> 0 \<or> value_of ps ISVEXTPRODID_L \<noteq> 0
               \<or> value_of ps ISVFAMILYID_H \<noteq> 0 \<or> value_of ps ISVFAMILYID_L \<noteq> 0) \<and> value_of ps ENABLEKSS = 0 then None
      else Some (create_param_of ps cp))"

text \<open>
  \<^verbatim>\<open>get_time\<close>: the decimal digits of year, month and day (from \<^verbatim>\<open>gmtime\<close>, \<^const>\<open>None\<close> if that fails) read
  back as a hexadecimal number. A number that does not fit is read as the largest value.
\<close>

fun dec_as_hex :: "nat \<Rightarrow> nat" where
  "dec_as_hex n = (if n < 10 then n else 16 * dec_as_hex (n div 10) + n mod 10)"

declare dec_as_hex.simps [simp del]

definition get_time :: "(nat \<times> nat \<times> nat) option \<Rightarrow> u32 option" where
  "get_time gmtime = (case gmtime of
     None \<Rightarrow> None
   | Some (tm_year, tm_mon, tm_mday) \<Rightarrow>
       let v = dec_as_hex (unat (of_nat ((tm_year + 1900) * 10000 + (tm_mon + 1) * 100 + tm_mday) :: u32)) in
       Some (if v < 2 ^ 32 then of_nat v else 0xFFFFFFFF))"

text \<open>One of the flags that are set and enforced together.\<close>

definition css_flag :: "bool \<Rightarrow> u64 \<Rightarrow> enclave_css_t \<Rightarrow> enclave_css_t" where
  "css_flag on f css = (if on then
     css\<lparr>css_attributes := (css_attributes css)\<lparr>attr_flags := attr_flags (css_attributes css) OR f\<rparr>,
         css_attribute_mask := (css_attribute_mask css)\<lparr>attr_flags := attr_flags (css_attribute_mask css) OR f\<rparr>\<rparr>
     else css)"

definition fill_enclave_css ::
  "(nat \<times> nat \<times> nat) option \<Rightarrow> bin_fmt_t \<Rightarrow> xml_parameter_t list \<Rightarrow> enclave_css_t \<Rightarrow> enclave_css_t option" where
  "fill_enclave_css gmtime bf ps css =
     (case get_time gmtime of
        None \<Rightarrow> None
      | Some date \<Rightarrow>
          let css = css\<lparr>
                css_header := [6, 0, 0, 0, 0xE1, 0, 0, 0, 0, 0, 1, 0],
                css_header2 := [1, 1, 0, 0, 0x60, 0, 0, 0, 0x60, 0, 0, 0, 1, 0, 0, 0],
                css_type := (if value_of ps RELEASETYPE AND 1 \<noteq> 0 then push_bit 31 1 else 0),
                css_module_vendor := (if value_of ps INTELSIGNED AND 1 \<noteq> 0 then 0x8086 else 0),
                css_date := date,
                css_hw_version := ucast (value_of ps HW),
                css_misc_select := ucast (value_of ps MISCSELECT),
                css_misc_mask := ucast (value_of ps MISCMASK),
                css_attributes := (css_attributes css)\<lparr>attr_flags := 0\<rparr>,
                css_attribute_mask := (css_attribute_mask css)\<lparr>attr_flags := NOT SGX_FLAGS_DEBUG\<rparr>\<rparr>;
              css = (if value_of ps DISABLEDEBUG = 1 then
                css\<lparr>css_attributes := (css_attributes css)\<lparr>attr_flags := attr_flags (css_attributes css) AND NOT SGX_FLAGS_DEBUG\<rparr>,
                    css_attribute_mask := (css_attribute_mask css)\<lparr>attr_flags := attr_flags (css_attribute_mask css) OR SGX_FLAGS_DEBUG\<rparr>\<rparr>
                else css);
              css = css_flag (value_of ps PROVISIONKEY = 1) SGX_FLAGS_PROVISION_KEY css;
              css = css_flag (value_of ps LAUNCHKEY = 1) SGX_FLAGS_EINITTOKEN_KEY css;
              css = css_flag (value_of ps ENABLEKSS = 1) SGX_FLAGS_KSS css;
              css = css\<lparr>
                css_isvext_prod_id := le_bytes 8 (value_of ps ISVEXTPRODID_L) @ le_bytes 8 (value_of ps ISVEXTPRODID_H),
                css_isv_family_id := le_bytes 8 (value_of ps ISVFAMILYID_L) @ le_bytes 8 (value_of ps ISVFAMILYID_H)\<rparr>;
              css = css_flag (bf = BF_PE64 \<or> bf = BF_ELF64) SGX_FLAGS_MODE64BIT css
          in Some (css\<lparr>
                css_attributes := (css_attributes css)\<lparr>attr_xfrm := SGX_XFRM_LEGACY\<rparr>,
                css_attribute_mask := (css_attribute_mask css)\<lparr>attr_xfrm := SGX_XFRM_LEGACY OR SGX_XFRM_RESERVED\<rparr>,
                css_isv_prod_id := ucast (value_of ps PRODID),
                css_isv_svn := ucast (value_of ps ISVSVN)\<rparr>))"

definition SSA_NUM :: u32 where "SSA_NUM = 2"
definition SSA_FRAME_SIZE :: u32 where "SSA_FRAME_SIZE = 1"

definition modify_metadata ::
  "(nat \<times> nat \<times> nat) option \<Rightarrow> meta_parser \<Rightarrow> xml_parameter_t list \<Rightarrow> cmetadata \<Rightarrow> cmetadata option" where
  "modify_metadata gmtime P ps s = do {
     cp \<leftarrow> check_xml_parameter ps (m_create_param s);
     css \<leftarrow> fill_enclave_css gmtime (mp_bin_format P) ps (md_enclave_css (m_metadata s));
     let css = css\<lparr>css_misc_select := ucast (value_of ps MISCSELECT), css_misc_mask := ucast (value_of ps MISCMASK)\<rparr>;
     Some (s\<lparr>m_create_param := cp,
       m_metadata := (m_metadata s)\<lparr>
         md_enclave_css := css,
         md_version := META_DATA_MAKE_VERSION MAJOR_VERSION MINOR_VERSION,
         md_size := METADATA_DATA_OFFSET,
         md_tcs_policy := ucast (value_of ps TCSPOLICY),
         md_ssa_frame_size := SSA_FRAME_SIZE,
         md_max_save_buffer_size := MAX_SAVE_BUF_SIZE,
         md_magic_num := METADATA_MAGIC,
         md_desired_misc_select := 0,
         md_tcs_min_pool := ucast (value_of ps TCSMINPOOL),
         md_attributes := \<lparr>attr_flags = attr_flags (css_attributes css),
           attr_xfrm = NOT (attr_xfrm (css_attribute_mask css))
                       OR (attr_xfrm (css_attributes css) AND attr_xfrm (css_attribute_mask css))\<rparr>\<rparr>\<rparr>)
   }"

subsection \<open>The layout table\<close>

text \<open>A buffer from the data area of the metadata: its offset.\<close>

definition alloc_buffer_from_metadata :: "u32 \<Rightarrow> metadata_t \<Rightarrow> (u32 \<times> metadata_t) option" where
  "alloc_buffer_from_metadata sz m =
     (let addr = md_size m; m = m\<lparr>md_size := md_size m + sz\<rparr> in
      if md_size m < sz \<or> unat (md_size m) > METADATA_SIZE then None else Some (addr, m))"

definition SE_GUARD_PAGE_SIZE :: u64 where "SE_GUARD_PAGE_SIZE = 0x10000"
definition TCS_SIZE :: u64 where "TCS_SIZE = SE_PAGE_SIZE"

text \<open>\<^verbatim>\<open>(uint32_t)(x >> SE_PAGE_SHIFT)\<close>\<close>

definition pages_of :: "u64 \<Rightarrow> u32" where
  "pages_of x = ucast (drop_bit SE_PAGE_SHIFT x)"

definition entry_of :: "u16 \<Rightarrow> u32 \<Rightarrow> u32 \<Rightarrow> u64 \<Rightarrow> u32 \<Rightarrow> u32 \<Rightarrow> layout_entry_t" where
  "entry_of i page_count attributes flags content_size content_offset =
     \<lparr>le_id = i, le_attributes = ucast attributes, le_page_count = page_count, le_rva = 0,
      le_content_size = content_size, le_content_offset = content_offset, le_si_flags = flags\<rparr>"

definition group_of :: "u16 \<Rightarrow> nat \<Rightarrow> u32 \<Rightarrow> layout_group_t" where
  "group_of i entry_count load_times =
     \<lparr>lg_id = i, lg_entry_count = of_nat entry_count, lg_load_times = load_times, lg_load_step = 0\<rparr>"

text \<open>Minimum, initial and maximum part of the heap or of the reserved memory.\<close>

definition region_layouts :: "u16 \<Rightarrow> u16 \<Rightarrow> u16 \<Rightarrow> u64 \<Rightarrow> u64 \<Rightarrow> u64 \<Rightarrow> layout_entry_t list" where
  "region_layouts id_min id_init id_max min_size init_size max_size =
     [entry_of id_min (pages_of min_size) PAGE_ATTR_EADD SI_FLAGS_RW 0 0]
     @ (if init_size > min_size
        then [entry_of id_init (pages_of (init_size - min_size))
                (PAGE_ATTR_EADD OR PAGE_ATTR_POST_REMOVE OR PAGE_ATTR_POST_ADD) SI_FLAGS_RW 0 0] else [])
     @ (if max_size > init_size
        then [entry_of id_max (pages_of (max_size - init_size)) PAGE_ATTR_POST_ADD SI_FLAGS_RW 0 0] else [])"

definition heap_layouts :: "create_param_t \<Rightarrow> layout_entry_t list" where
  "heap_layouts cp = region_layouts LAYOUT_ID_HEAP_MIN LAYOUT_ID_HEAP_INIT LAYOUT_ID_HEAP_MAX
     (cp_heap_min_size cp) (cp_heap_init_size cp) (cp_heap_max_size cp)"

definition rsrv_layouts :: "create_param_t \<Rightarrow> layout_entry_t list" where
  "rsrv_layouts cp =
     (if cp_rsrv_min_size cp > 0 \<or> cp_rsrv_init_size cp > 0 \<or> cp_rsrv_max_size cp > 0
      then region_layouts LAYOUT_ID_RSRV_MIN LAYOUT_ID_RSRV_INIT LAYOUT_ID_RSRV_MAX
             (cp_rsrv_min_size cp) (cp_rsrv_init_size cp) (cp_rsrv_max_size cp)
      else [])"

definition guard_page :: layout_entry_t where
  "guard_page = entry_of LAYOUT_ID_GUARD (pages_of SE_GUARD_PAGE_SIZE) 0 0 0 0"

text \<open>
  The template of a thread context: guard, stack, guard, TCS, SSA, guard, thread data. The TCS entry
  refers to the template at offset \<open>tcs_off\<close> of the metadata; the stack is filled with \<^verbatim>\<open>0xCC\<close>.
\<close>

definition thread_layouts :: "create_param_t \<Rightarrow> section_t option \<Rightarrow> u32 \<Rightarrow> layout_entry_t list" where
  "thread_layouts cp tls tcs_off =
     [guard_page]
     @ (if cp_stack_max_size cp > cp_stack_min_size cp
        then [entry_of LAYOUT_ID_STACK_MAX (pages_of (cp_stack_max_size cp - cp_stack_min_size cp))
                (PAGE_ATTR_EADD OR PAGE_ATTR_EEXTEND OR PAGE_DIR_GROW_DOWN) SI_FLAGS_RW 0xCCCCCCCC 0] else [])
     @ [entry_of LAYOUT_ID_STACK_MIN (pages_of (cp_stack_min_size cp)) (PAGE_ATTR_EADD OR PAGE_ATTR_EEXTEND)
          SI_FLAGS_RW 0xCCCCCCCC 0,
        guard_page,
        entry_of LAYOUT_ID_TCS (pages_of TCS_SIZE) (PAGE_ATTR_EADD OR PAGE_ATTR_EEXTEND) SI_FLAGS_TCS TCS_TEMPLATE_SIZE tcs_off,
        entry_of LAYOUT_ID_SSA (SSA_FRAME_SIZE * SSA_NUM) (PAGE_ATTR_EADD OR PAGE_ATTR_EEXTEND) SI_FLAGS_RW 0 0,
        guard_page,
        entry_of LAYOUT_ID_TD (1 + (case tls of None \<Rightarrow> 0 | Some sec \<Rightarrow> pages_of (ROUND_TO_PAGE (sec_virtual_size sec))))
          (PAGE_ATTR_EADD OR PAGE_ATTR_EEXTEND) SI_FLAGS_RW 0 0]"

definition or_attributes :: "u32 \<Rightarrow> layout_entry_t \<Rightarrow> layout_entry_t" where
  "or_attributes a e = e\<lparr>le_attributes := le_attributes e OR ucast a\<rparr>"

definition utility_entry :: "layout_entry_t \<Rightarrow> layout_entry_t" where
  "utility_entry e = (if le_id e = LAYOUT_ID_STACK_MAX then or_attributes (PAGE_ATTR_POST_ADD OR PAGE_ATTR_POST_REMOVE) e else e)"

definition eremove_entry :: "layout_entry_t \<Rightarrow> layout_entry_t" where
  "eremove_entry e = (if le_id e \<noteq> LAYOUT_ID_GUARD then or_attributes PAGE_ATTR_EREMOVE e else e)"

definition dynamic_entry :: "layout_entry_t \<Rightarrow> layout_entry_t" where
  "dynamic_entry e =
     (if le_id e = LAYOUT_ID_STACK_MAX then
        e\<lparr>le_id := LAYOUT_ID_HEAP_DYN_MIN - LAYOUT_ID_HEAP_MIN + le_id e,
          le_attributes := ucast (PAGE_ATTR_POST_ADD OR PAGE_DIR_GROW_DOWN)\<rparr>
      else if le_id e \<noteq> LAYOUT_ID_GUARD then
        e\<lparr>le_id := LAYOUT_ID_HEAP_DYN_MIN - LAYOUT_ID_HEAP_MIN + le_id e,
          le_attributes := ucast (PAGE_ATTR_POST_ADD OR PAGE_ATTR_DYN_THREAD)\<rparr>
      else e)"

text \<open>The numbers of threads that stay and of threads that are added and removed again.\<close>

definition static_threads :: "create_param_t \<Rightarrow> u32 \<times> u32" where
  "static_threads cp =
     (if cp_tcs_min_pool cp > cp_tcs_num cp - 1 then (cp_tcs_num cp - 1, 0)
      else (cp_tcs_min_pool cp, cp_tcs_num cp - 1 - cp_tcs_min_pool cp))"

text \<open>Entries with a group that repeats them when there is more than one thread.\<close>

definition repeated :: "layout_entry_t list \<Rightarrow> u32 \<Rightarrow> layout_t list" where
  "repeated es n =
     (if n > 0 then map LEntry es
        @ (if n > 1 then [LGroup (group_of LAYOUT_ID_THREAD_GROUP (length es) (n - 1))] else [])
      else [])"

definition dynamic_layouts :: "layout_entry_t list \<Rightarrow> create_param_t \<Rightarrow> u32 \<Rightarrow> layout_t list" where
  "dynamic_layouts es cp tcs_min_pool =
     (if cp_tcs_max_num cp > tcs_min_pool + 1
      then map (LEntry \<circ> dynamic_entry) es
        @ [LGroup (group_of LAYOUT_ID_THREAD_GROUP_DYN (length es) (cp_tcs_max_num cp - tcs_min_pool - 1))]
      else [])"

definition all_layouts :: "create_param_t \<Rightarrow> section_t option \<Rightarrow> u32 \<Rightarrow> layout_t list" where
  "all_layouts cp tls tcs_off =
     (let es = thread_layouts cp tls tcs_off in
      case static_threads cp of (tcs_min_pool, tcs_eremove) \<Rightarrow>
        map LEntry (heap_layouts cp)
        @ map (LEntry \<circ> utility_entry) es
        @ repeated es tcs_min_pool
        @ repeated (map eremove_entry es) tcs_eremove
        @ dynamic_layouts es cp tcs_min_pool
        @ map LEntry (rsrv_layouts cp))"

text \<open>
  \<^verbatim>\<open>calculate_sections_size\<close>: the end of the section with the largest address; sections at address 0
  do not count.
\<close>

fun last_section_of :: "section_t list \<Rightarrow> u64 \<Rightarrow> section_t option \<Rightarrow> section_t option" where
  "last_section_of [] max_rva sec = sec"
| "last_section_of (x # xs) max_rva sec =
     (if sec_rva x > max_rva then last_section_of xs (sec_rva x) (Some x) else last_section_of xs max_rva sec)"

definition calculate_sections_size :: "section_t list \<Rightarrow> u64" where
  "calculate_sections_size secs = ROUND_TO_PAGE (case last_section_of secs 0 None of
     None \<Rightarrow> 0 | Some sec \<Rightarrow> sec_rva sec + sec_virtual_size sec)"

text \<open>
  The loop of \<^verbatim>\<open>update_layout_entries\<close>, with the records before the current one (the nearest first): an
  entry gets its address, a group the size of the \<^verbatim>\<open>entry_count\<close> records before it as its step.
\<close>

definition group_step :: "layout_group_t \<Rightarrow> layout_t list \<Rightarrow> u64" where
  "group_step g pre = fold (\<lambda>l step. step + layout_bytes l) (take (unat (lg_entry_count g)) pre) (lg_load_step g)"

fun assign_rvas :: "u64 \<Rightarrow> layout_t list \<Rightarrow> layout_t list \<Rightarrow> layout_t list \<times> u64" where
  "assign_rvas rva pre [] = ([], rva)"
| "assign_rvas rva pre (LEntry e # ls) =
     (let l = LEntry (e\<lparr>le_rva := rva\<rparr>) in
      case assign_rvas (rva + layout_bytes l) (l # pre) ls of (ls', rva') \<Rightarrow> (l # ls', rva'))"
| "assign_rvas rva pre (LGroup g # ls) =
     (let g = g\<lparr>lg_load_step := group_step g pre\<rparr> in
      case assign_rvas (rva + ucast (lg_load_times g) * lg_load_step g) (LGroup g # pre) ls of
        (ls', rva') \<Rightarrow> (LGroup g # ls', rva'))"

definition update_layout_entries :: "meta_parser \<Rightarrow> cmetadata \<Rightarrow> cmetadata option" where
  "update_layout_entries P s =
     (let rva = calculate_sections_size (mp_sections P) in
      if rva = 0 then None
      else case assign_rvas rva [] (m_layouts s) of (ls, rva') \<Rightarrow> Some (s\<lparr>m_layouts := ls, m_rva := rva'\<rparr>))"

text \<open>
  \<^verbatim>\<open>build_tcs_template\<close>: the 72 bytes of the template. A missing entry, where the code asserts, is
  \<^const>\<open>None\<close>.
\<close>

definition build_tcs_template :: "meta_parser \<Rightarrow> layout_t list \<Rightarrow> bytes option" where
  "build_tcs_template P ls =
     (let oentry = mp_symbol_rva P ''enclave_entry'' in
      if oentry = 0 then None
      else do {
        ssa \<leftarrow> get_entry_by_id ls LAYOUT_ID_SSA;
        tcs \<leftarrow> get_entry_by_id ls LAYOUT_ID_TCS;
        td \<leftarrow> get_entry_by_id ls LAYOUT_ID_TD;
        let ossa = le_rva ssa - le_rva tcs;
        let obase = le_rva td - le_rva tcs + push_bit SE_PAGE_SHIFT (ucast (le_page_count td) - 1);
        Some (replicate 16 0 @ le_bytes 8 ossa @ le_bytes 4 (0 :: u32) @ le_bytes 4 SSA_NUM @ le_bytes 8 oentry
              @ replicate 8 0 @ le_bytes 8 obase @ le_bytes 8 obase @ le_bytes 4 (- 1 :: u32) @ le_bytes 4 (- 1 :: u32))
      })"

definition wr_data :: "u32 \<Rightarrow> bytes \<Rightarrow> cmetadata \<Rightarrow> cmetadata" where
  "wr_data off bs s = s\<lparr>m_metadata := (m_metadata s)\<lparr>md_mem := wr (md_mem (m_metadata s)) (unat off) bs\<rparr>\<rparr>"

definition build_layout_table :: "meta_parser \<Rightarrow> cmetadata \<Rightarrow> cmetadata option" where
  "build_layout_table P s = do {
     (tcs_template, m) \<leftarrow> alloc_buffer_from_metadata TCS_TEMPLATE_SIZE (m_metadata s);
     s \<leftarrow> update_layout_entries P (s\<lparr>m_metadata := m,
            m_layouts := m_layouts s @ all_layouts (m_create_param s) (mp_tls_section P) tcs_template\<rparr>);
     tcs \<leftarrow> build_tcs_template P (m_layouts s);
     Some (wr_data tcs_template tcs s)
   }"

subsection \<open>The patch table\<close>

text \<open>
  \<^verbatim>\<open>get_rawdata_by_rva\<close>: a pointer into the mapped file, or the null pointer. The raw data of a section
  lie at its offset from the start of the file.
\<close>

fun get_rawdata_by_rva :: "u64 \<Rightarrow> section_t list \<Rightarrow> u64 \<Rightarrow> u64" where
  "get_rawdata_by_rva start_addr [] rva = 0"
| "get_rawdata_by_rva start_addr (sec # secs) rva =
     (if TRIM_TO_PAGE (sec_rva sec) \<le> rva \<and> rva < ROUND_TO_PAGE (sec_rva sec + sec_virtual_size sec)
      then (let off = rva - sec_rva sec in
            if off > sec_raw_data_size sec then 0 else start_addr + sec_offset sec + off)
      else get_rawdata_by_rva start_addr secs rva)"

definition PT_GNU_RELRO :: u32 where "PT_GNU_RELRO = 0x6474e552"

text \<open>The first \<^verbatim>\<open>PT_GNU_RELRO\<close> program header of a 32-bit file: its offset.\<close>

fun find_relro :: "memory \<Rightarrow> nat \<Rightarrow> nat \<Rightarrow> nat option" where
  "find_relro mem off 0 = None"
| "find_relro mem off (Suc n) =
     (if rd_word mem off 4 = PT_GNU_RELRO then Some off else find_relro mem (off + 32) n)"

text \<open>The header fields that are overwritten with zeros, and the size of the largest.\<close>

definition header_patches :: "meta_parser \<Rightarrow> u32 \<Rightarrow> patch_entry_t list" where
  "header_patches P zero =
     (case mp_bin_format P of
        BF_ELF32 \<Rightarrow>
          [\<lparr>pe_dst = 48, pe_src = zero, pe_size = 2\<rparr>, \<lparr>pe_dst = 32, pe_src = zero, pe_size = 4\<rparr>,
           \<lparr>pe_dst = 50, pe_src = zero, pe_size = 2\<rparr>]
          @ (case find_relro (mp_file P) (unat (rd_word (mp_file P) 28 4 :: u32)) (unat (rd_word (mp_file P) 44 2 :: u16)) of
               None \<Rightarrow> [] | Some off \<Rightarrow> [\<lparr>pe_dst = of_nat off, pe_src = zero, pe_size = 32\<rparr>])
      | BF_ELF64 \<Rightarrow>
          [\<lparr>pe_dst = 60, pe_src = zero, pe_size = 2\<rparr>, \<lparr>pe_dst = 40, pe_src = zero, pe_size = 8\<rparr>,
           \<lparr>pe_dst = 62, pe_src = zero, pe_size = 2\<rparr>]
      | _ \<Rightarrow> [])"

definition max_patch_size :: "patch_entry_t list \<Rightarrow> u32" where
  "max_patch_size patches = fold (\<lambda>p sz. if pe_size p > sz then pe_size p else sz) patches 0"

definition build_patch_entries :: "patch_entry_t list \<Rightarrow> cmetadata \<Rightarrow> cmetadata option" where
  "build_patch_entries patches s = (let sz = of_nat (length patches * 32) in do {
     (patch_table, m) \<leftarrow> alloc_buffer_from_metadata sz (m_metadata s);
     Some (wr_data patch_table (concat (map encode_patch patches))
       (s\<lparr>m_metadata := m\<lparr>md_dir_patch := \<lparr>dd_offset = patch_table, dd_size = sz\<rparr>\<rparr>\<rparr>))
   })"

definition build_patch_table :: "meta_parser \<Rightarrow> cmetadata \<Rightarrow> cmetadata option" where
  "build_patch_table P s = do {
     let gd_size = get_global_data_size;
     (gd_template, m) \<leftarrow> alloc_buffer_from_metadata gd_size (m_metadata s);
     let rva = mp_symbol_rva P ''g_global_data'';
     (if rva = 0 then None else do {
        let patch = \<lparr>pe_dst = get_rawdata_by_rva (mp_start_addr P) (mp_sections P) rva - mp_start_addr P,
                     pe_src = gd_template, pe_size = gd_size\<rparr>;
        (zero, m) \<leftarrow> alloc_buffer_from_metadata 0 m;
        let header = header_patches P zero;
        let sz = max_patch_size header;
        (zero, m) \<leftarrow> alloc_buffer_from_metadata sz m;
        build_patch_entries (patch # header)
          (wr_data zero (replicate (unat sz) 0) (s\<lparr>m_metadata := m, m_gd_size := gd_size, m_gd_template := gd_template\<rparr>))
      })
   }"

subsection \<open>Enclave size and layout entries\<close>

text \<open>
  The loop of \<^verbatim>\<open>calculate_enclave_size\<close>: the rounded size is doubled until it reaches the size or leaves
  64 bits.
\<close>

function double_to :: "u64 \<Rightarrow> u64 \<Rightarrow> u64" where
  "double_to sz round_size =
     (if round_size < sz \<and> round_size \<noteq> 0
      then (if push_bit 1 round_size = 0 then - 1 else double_to sz (push_bit 1 round_size))
      else round_size)"
  by pat_completeness auto

definition lowest_bit :: "u64 \<Rightarrow> nat" where
  "lowest_bit x = (LEAST i. bit x i)"

lemma lowest_bit_doubled:
  assumes "push_bit 1 x \<noteq> 0"
  shows "lowest_bit x < lowest_bit (push_bit 1 x)" "lowest_bit (push_bit 1 x) < 64"
proof -
  obtain n where "bit (push_bit 1 x) n" using assms by (metis bit_eqI bit_0_eq bot_apply bot_bool_def)
  then have b: "bit (push_bit 1 x) (lowest_bit (push_bit 1 x))" unfolding lowest_bit_def by (rule LeastI)
  then have s: "1 \<le> lowest_bit (push_bit 1 x)" "bit x (lowest_bit (push_bit 1 x) - 1)"
    unfolding bit_push_bit_iff by auto
  show "lowest_bit (push_bit 1 x) < 64" using bit_imp_le_length [OF b] by simp
  have "lowest_bit x \<le> lowest_bit (push_bit 1 x) - 1" unfolding lowest_bit_def [of x] using s(2) by (rule Least_le)
  then show "lowest_bit x < lowest_bit (push_bit 1 x)" using s(1) by simp
qed

termination double_to
proof (relation "measure (\<lambda>(sz, r). 64 - lowest_bit r)")
  fix sz r :: u64
  assume "push_bit 1 r \<noteq> 0"
  from lowest_bit_doubled [OF this] show "((sz, push_bit 1 r), sz, r) \<in> measure (\<lambda>(sz, r). 64 - lowest_bit r)"
    unfolding in_measure prod.case by arith
qed simp

declare double_to.simps [simp del]

definition calculate_enclave_size :: "meta_parser \<Rightarrow> u64 \<Rightarrow> u64" where
  "calculate_enclave_size P sz =
     (if sz > mp_enclave_max_size P then - 1
      else let round_size = double_to sz 1 in
        if round_size > mp_enclave_max_size P then - 1 else round_size)"

text \<open>
  The pages up to the rounded size go to the last part of the reserved memory or to a guard entry.
  \<^verbatim>\<open>extra_pages << SE_PAGE_SHIFT\<close> is computed in 32 bits; the test of \<^verbatim>\<open>LAYOUT_ID_RSRV_INIT\<close> is a
  constant and so always holds.
\<close>

definition extends_rsrv :: "layout_entry_t \<Rightarrow> bool" where
  "extends_rsrv e \<longleftrightarrow> le_id e = LAYOUT_ID_RSRV_INIT \<or> le_id e = LAYOUT_ID_RSRV_MAX
     \<or> le_id e = LAYOUT_ID_RSRV_MIN \<and> le_page_count e > 0"

definition add_extra_pages :: "u64 \<Rightarrow> cmetadata \<Rightarrow> cmetadata" where
  "add_extra_pages enclave_size s =
     (if enclave_size - m_rva s > 0 then
        let layout = as_entry (last (m_layouts s)); extra_pages = pages_of (enclave_size - m_rva s) in
        if extends_rsrv layout then
          let layout = layout\<lparr>le_page_count := le_page_count layout + extra_pages\<rparr>;
              bytes = ucast (push_bit SE_PAGE_SHIFT extra_pages);
              cp = m_create_param s
          in s\<lparr>m_layouts := butlast (m_layouts s) @ [LEntry layout],
               m_create_param :=
                 (if le_id layout = LAYOUT_ID_RSRV_MAX then cp\<lparr>cp_rsrv_max_size := cp_rsrv_max_size cp + bytes\<rparr>
                  else if LAYOUT_ID_RSRV_INIT \<noteq> 0 then cp\<lparr>cp_rsrv_init_size := cp_rsrv_init_size cp + bytes\<rparr>
                  else cp\<lparr>cp_rsrv_min_size := cp_rsrv_min_size cp + bytes\<rparr>)\<rparr>
        else s\<lparr>m_layouts := m_layouts s @ [LEntry ((entry_of LAYOUT_ID_GUARD extra_pages 0 0 0 0)\<lparr>le_rva := m_rva s\<rparr>)]\<rparr>
      else s)"

definition build_layout_entries :: "meta_parser \<Rightarrow> cmetadata \<Rightarrow> cmetadata option" where
  "build_layout_entries P s =
     (let enclave_size = calculate_enclave_size P (m_rva s) in
      if enclave_size = - 1 then None
      else do {
        let s = add_extra_pages enclave_size (s\<lparr>m_metadata := (m_metadata s)\<lparr>md_enclave_size := enclave_size\<rparr>\<rparr>);
        let sz = of_nat (length (m_layouts s) * 32);
        (layout_table, m) \<leftarrow> alloc_buffer_from_metadata sz (m_metadata s);
        Some (wr_data layout_table (concat (map encode_layout (m_layouts s)))
          (s\<lparr>m_metadata := m\<lparr>md_dir_layout := \<lparr>dd_offset = layout_table, dd_size = sz\<rparr>\<rparr>\<rparr>))
      })"

subsection \<open>The global data template\<close>

definition xsave_size_table :: "(u64 \<times> u32) list" where
  "xsave_size_table = [
     (SGX_XFRM_LEGACY, 512 + 64),
     (SGX_XFRM_AVX, 512 + 64 + 256),
     (SGX_XFRM_MPX, 512 + 64 + 256 + 256),
     (SGX_XFRM_AVX512, 512 + 64 + 256 + 256 + 1600)]"

definition get_xsave_size :: "u64 \<Rightarrow> u32 option" where
  "get_xsave_size xfrm =
     (if xfrm = 0 \<or> xfrm AND SGX_XFRM_RESERVED \<noteq> 0 then None
      else Some (fold (\<lambda>(b, sz) xsave_size. if xfrm AND b = b then sz else xsave_size) xsave_size_table 0))"

text \<open>
  \<^verbatim>\<open>build_gd_template\<close>: the addresses relative to the TCS, then the template itself, written at its
  place in the metadata. \<^verbatim>\<open>(page_count - 1) << SE_PAGE_SHIFT\<close> is computed in 32 bits here, so that the address
  of the thread data is too small when its entry has more than \<open>2 ^ 20\<close> pages. The assertion that the
  TLS data start on the page of the entry, which then fails, is compiled out of a release build and is
  no branch of the model: as in a release build, the addresses are stored as computed.
\<close>

definition set_addresses :: "meta_parser \<Rightarrow> cmetadata \<Rightarrow> u32 \<Rightarrow> create_param_t option" where
  "set_addresses P s xsave_size = do {
     let ls = m_layouts s;
     let cp = m_create_param s;
     stack \<leftarrow> get_entry_by_id ls LAYOUT_ID_STACK_MIN;
     tcs \<leftarrow> get_entry_by_id ls LAYOUT_ID_TCS;
     ssa \<leftarrow> get_entry_by_id ls LAYOUT_ID_SSA;
     heap \<leftarrow> get_entry_by_id ls LAYOUT_ID_HEAP_MIN;
     td \<leftarrow> get_entry_by_id ls LAYOUT_ID_TD;
     let stack_base = le_rva stack + cp_stack_min_size cp - le_rva tcs;
     let tmp_tls_addr = le_rva td - le_rva tcs;
     let td_addr = tmp_tls_addr + ucast (push_bit SE_PAGE_SHIFT (le_page_count td - 1));
     Some (cp\<lparr>
       cp_xsave_size := xsave_size,
       cp_stack_base_addr := stack_base,
       cp_stack_limit_addr := stack_base - cp_stack_max_size cp,
       cp_ssa_base_addr := le_rva ssa - le_rva tcs,
       cp_enclave_size := md_enclave_size (m_metadata s),
       cp_heap_offset := le_rva heap,
       cp_rsrv_offset := (case get_entry_by_id ls LAYOUT_ID_RSRV_MIN of None \<Rightarrow> 0 | Some rsrv \<Rightarrow> le_rva rsrv),
       cp_td_addr := td_addr,
       cp_tls_addr := (case mp_tls_section P of None \<Rightarrow> tmp_tls_addr | Some sec \<Rightarrow> td_addr - sec_virtual_size sec)\<rparr>)
   }"

definition build_gd_template :: "meta_parser \<Rightarrow> cmetadata \<Rightarrow> (cmetadata \<times> global_data_t) option" where
  "build_gd_template P s = do {
     xsave_size \<leftarrow> get_xsave_size (attr_xfrm (md_attributes (m_metadata s)));
     cp \<leftarrow> set_addresses P s xsave_size;
     let (gd_size, gd) = update_global_data (m_metadata s) cp (m_gd_size s);
     g \<leftarrow> gd;
     Some (wr_data (m_gd_template s) (global_data_bytes g) (s\<lparr>m_create_param := cp, m_gd_size := gd_size\<rparr>), g)
   }"

text \<open>The whole: the object after \<^verbatim>\<open>build_metadata\<close>, and the global data it has written.\<close>

definition build_metadata ::
  "(nat \<times> nat \<times> nat) option \<Rightarrow> meta_parser \<Rightarrow> xml_parameter_t list \<Rightarrow> (cmetadata \<times> global_data_t) option" where
  "build_metadata gmtime P ps = do {
     s \<leftarrow> modify_metadata gmtime P ps CMetadata;
     s \<leftarrow> build_layout_table P s;
     s \<leftarrow> build_patch_table P s;
     s \<leftarrow> build_layout_entries P s;
     build_gd_template P s
   }"

section \<open>What a configuration file sets\<close>

definition in_range :: "xml_parameter_t \<Rightarrow> bool" where
  "in_range p \<longleftrightarrow> xp_min_value p \<le> xp_value p \<and> xp_value p \<le> xp_max_value p"

text \<open>The value that a document gives to a parameter: that of the element with its name, if any.\<close>

definition named :: "xml_element list \<Rightarrow> xml_parameter_t \<Rightarrow> xml_element list" where
  "named es p = filter (\<lambda>e. xe_value e = xp_name p) es"

definition configured :: "xml_element list \<Rightarrow> xml_parameter_t \<Rightarrow> xml_parameter_t" where
  "configured es p = (case named es p of
     [] \<Rightarrow> p
   | e # _ \<Rightarrow> p\<lparr>xp_flag := 1, xp_value := of_nat (fst (strtoull (the (xe_text e))))\<rparr>)"

lemma traverser_parameter_Some:
  assumes "traverser_parameter nm txt ps = Some ps'" "distinct (map xp_name ps)"
  shows "ps' = map (\<lambda>p. if xp_name p = nm then p\<lparr>xp_flag := 1, xp_value := of_nat (fst (strtoull (the txt)))\<rparr> else p) ps"
    and "\<exists>p \<in> set ps. xp_name p = nm"
    and "p \<in> set ps \<Longrightarrow> xp_name p = nm \<Longrightarrow> xp_flag p \<noteq> 1"
    and "p \<in> set ps \<Longrightarrow> xp_name p = nm \<Longrightarrow> in_range (p\<lparr>xp_flag := 1, xp_value := of_nat (fst (strtoull (the txt)))\<rparr>)"
proof -
  let ?i = "length (takeWhile (\<lambda>p. xp_name p \<noteq> nm) ps)"
  obtain w where t: "txt = Some w" using assms(1) by (auto simp: traverser_parameter_def split: option.splits)
  let ?v = "of_nat (fst (strtoull w)) :: u64"
  have i: "?i < length ps" and f: "xp_flag (ps ! ?i) \<noteq> 1"
    and r: "\<not> ?v < xp_min_value (ps ! ?i)" "\<not> ?v > xp_max_value (ps ! ?i)"
    and ps': "ps' = ps[?i := (ps ! ?i)\<lparr>xp_flag := 1, xp_value := ?v\<rparr>]"
    using assms(1) by (auto simp: traverser_parameter_def t Let_def split: if_splits prod.splits)
  have n: "xp_name (ps ! ?i) = nm" using nth_length_takeWhile [OF i] by simp
  have only: "xp_name (ps ! j) = nm \<longleftrightarrow> j = ?i" if "j < length ps" for j
    using assms(2) that i n by (metis length_map nth_eq_iff_index_eq nth_map)
  show "ps' = map (\<lambda>p. if xp_name p = nm then p\<lparr>xp_flag := 1, xp_value := of_nat (fst (strtoull (the txt)))\<rparr> else p) ps"
    by (rule nth_equalityI) (auto simp: ps' t only nth_list_update)
  show "\<exists>p \<in> set ps. xp_name p = nm" using i n nth_mem by blast
  { fix p assume "p \<in> set ps" "xp_name p = nm"
    then have p: "p = ps ! ?i" using only by (metis in_set_conv_nth)
    then show "xp_flag p \<noteq> 1" using f by simp
    show "in_range (p\<lparr>xp_flag := 1, xp_value := of_nat (fst (strtoull (the txt)))\<rparr>)"
      using p r by (simp add: in_range_def t not_less) }
qed

lemma parse_elements_Some:
  assumes "parse_elements es ps = Some ps'" "distinct (map xp_name ps)"
  shows "ps' = map (configured es) ps
    \<and> (\<forall>p \<in> set ps. length (named es p) \<le> 1 \<and> (xp_flag p = 1 \<longrightarrow> named es p = []) \<and> (in_range p \<longrightarrow> in_range (configured es p)))
    \<and> (\<forall>e \<in> set es. \<exists>p \<in> set ps. xp_name p = xe_value e)"
  using assms
proof (induction es arbitrary: ps)
  case Nil
  then show ?case by (simp add: configured_def named_def map_idI)
next
  case (Cons e es)
  let ?set = "\<lambda>p. if xp_name p = xe_value e then p\<lparr>xp_flag := 1, xp_value := of_nat (fst (strtoull (the (xe_text e))))\<rparr> else p"
  obtain ps1 where ps1: "traverser_parameter (xe_value e) (xe_text e) ps = Some ps1" and rest: "parse_elements es ps1 = Some ps'"
    using Cons.prems(1) by (auto split: if_splits option.splits)
  note t = traverser_parameter_Some [OF ps1 Cons.prems(2)]
  have names: "xp_name (?set p) = xp_name p" for p by simp
  have "distinct (map xp_name ps1)" using Cons.prems(2) by (simp add: t(1) comp_def if_distrib cong: if_cong)
  note ih = Cons.IH [OF rest this]
  have none: "named es p = []" if "p \<in> set ps" "xp_name p = xe_value e" for p
  proof -
    have "?set p \<in> set ps1" using that(1) by (auto simp: t(1))
    then have "named es (?set p) = []" using ih that(2) by auto
    then show ?thesis using that(2) by (simp add: named_def)
  qed
  have step: "configured es (?set p) = configured (e # es) p" if "p \<in> set ps" for p
    using none [OF that] by (auto simp: configured_def named_def split: list.splits)
  have "ps' = map (configured (e # es)) ps" using ih step by (simp add: t(1))
  moreover have "length (named (e # es) p) \<le> 1 \<and> (xp_flag p = 1 \<longrightarrow> named (e # es) p = [])
      \<and> (in_range p \<longrightarrow> in_range (configured (e # es) p))" if p: "p \<in> set ps" for p
  proof -
    have "?set p \<in> set ps1" using p by (auto simp: t(1))
    then have q: "length (named es (?set p)) \<le> 1" "xp_flag (?set p) = 1 \<longrightarrow> named es (?set p) = []"
        "in_range (?set p) \<longrightarrow> in_range (configured es (?set p))"
      using ih by blast+
    show ?thesis
      using q t(3,4) [OF p] none [OF p] step [OF p] by (auto simp: named_def split: if_splits)
  qed
  moreover have "\<exists>p \<in> set ps. xp_name p = xe_value d" if d: "d \<in> set (e # es)" for d
  proof (cases "d = e")
    case False
    then obtain q where "q \<in> set ps1" "xp_name q = xe_value d" using ih d by auto
    moreover have "xp_name ` set ps1 = xp_name ` set ps" by (simp only: t(1) set_map image_image names)
    ultimately show ?thesis by (metis imageE imageI)
  qed (use t(2) in simp)
  ultimately show ?case by blast
qed

lemma default_names [simp]: "distinct (map xp_name default_parameters)"
  by (simp add: default_parameters_def xml_param_def)

lemma default_in_range: "p \<in> set default_parameters \<Longrightarrow> in_range p \<and> xp_flag p = 0"
  by (auto simp: default_parameters_def xml_param_def in_range_def)

text \<open>
  C19: a configuration file that is read without an error sets every parameter it names, once, to the
  value of the element with its name and leaves the others at their defaults; all values lie within the
  bounds of the table of parameters, and every element of the file is a parameter.
\<close>
theorem parse_metadata_file_correct:
  assumes "parse_metadata_file load_xml (Some path) default_parameters = Some ps" "load_xml path = Some root"
  shows "ps = map (configured (xr_children root)) default_parameters
    \<and> (\<forall>p \<in> set ps. in_range p)
    \<and> (\<forall>p \<in> set default_parameters. length (named (xr_children root) p) \<le> 1)
    \<and> (\<forall>e \<in> set (xr_children root). xe_value e \<in> xp_name ` set default_parameters)"
proof -
  have "parse_elements (xr_children root) default_parameters = Some ps"
    using assms by (simp add: parse_metadata_file_def split: if_splits)
  note P = parse_elements_Some [OF this default_names]
  then have "ps = map (configured (xr_children root)) default_parameters" by (elim conjE)
  moreover have "\<forall>p \<in> set default_parameters. in_range (configured (xr_children root) p)" using P default_in_range by blast
  ultimately show ?thesis using P by (simp add: image_iff) metis
qed

definition example_root :: xml_root where
  "example_root = \<lparr>xr_text = None, xr_children =
     [\<lparr>xe_value = ''TCSNum'', xe_text = Some ''10'', xe_has_attribute = False\<rparr>,
      \<lparr>xe_value = ''HeapMaxSize'', xe_text = Some ''0x100000'', xe_has_attribute = False\<rparr>]\<rparr>"

lemma example_parse:
  "parse_metadata_file (\<lambda>_. Some example_root) (Some ''config.xml'') default_parameters
     = Some (default_parameters[8 := (xml_param ''TCSNum'' 0xFFFFFFFF 1 10)\<lparr>xp_flag := 1\<rparr>,
                                14 := (xml_param ''HeapMaxSize'' 0x1FFFFFFFFF 0 0x100000)\<lparr>xp_flag := 1\<rparr>])"
  by (simp add: parse_metadata_file_def example_root_def traverser_parameter_def default_parameters_def xml_param_def
      strtoull_def scan_number_def digit_value_def is_space_def of_char_def Let_def)

theorem parse_metadata_file_correct_witness:
  "default_parameters[8 := (xml_param ''TCSNum'' 0xFFFFFFFF 1 10)\<lparr>xp_flag := 1\<rparr>,
                      14 := (xml_param ''HeapMaxSize'' 0x1FFFFFFFFF 0 0x100000)\<lparr>xp_flag := 1\<rparr>]
   = map (configured (xr_children example_root)) default_parameters"
  by (rule conjunct1 [OF parse_metadata_file_correct [OF example_parse]]) simp

end
