(* ===== verification/Layout_Assign.thy ===== *)
theory Layout_Assign
  imports Metadata_Build
begin

text \<open>
  The addresses that \<^verbatim>\<open>CMetadata::update_layout_entries\<close> of the signing tool assigns. The load
  sequence of the table that the tool lays out is contiguous and ends with a non-empty entry, so the
  loader's \<^verbatim>\<open>validate_layout_table\<close> accepts it: its sorted ranges are the sequence itself.
\<close>

unbundle bit_operations_syntax

section \<open>Contiguous ranges\<close>

fun contiguous :: "nat \<Rightarrow> (u64 \<times> u64) list \<Rightarrow> nat \<Rightarrow> bool" where
  "contiguous a [] b \<longleftrightarrow> a = b"
| "contiguous a ((r, n) # v) b \<longleftrightarrow> unat r = a \<and> contiguous (a + unat n) v b"

lemma contiguous_append:
  "contiguous a v b \<Longrightarrow> contiguous b w c \<Longrightarrow> contiguous a (v @ w) c"
  by (induction a v b rule: contiguous.induct) auto

lemma contiguous_le: "contiguous a v b \<Longrightarrow> a \<le> b"
  by (induction a v b rule: contiguous.induct) auto

lemma contiguous_starts: "contiguous a v b \<Longrightarrow> p \<in> set v \<Longrightarrow> a \<le> unat (fst p)"
  by (induction a v b rule: contiguous.induct) auto

lemma contiguous_sorted: "contiguous a v b \<Longrightarrow> sorted v"
proof (induction a v b rule: contiguous.induct)
  case (2 a r n v b)
  have "(r, n) \<le> q" if "q \<in> set v" for q
  proof -
    obtain r' n' where q: "q = (r', n')" by (cases q)
    have "a + unat n \<le> unat r'" using contiguous_starts [OF _ that] 2(2) q by auto
    then show ?thesis using 2(2) by (cases "n = 0") (auto simp: q less_eq_prod_def word_le_nat_alt word_less_nat_alt unat_eq_zero)
  qed
  then show ?case using 2 by simp
qed simp

lemma contiguous_last: "contiguous a v b \<Longrightarrow> v \<noteq> [] \<Longrightarrow> a + unat (snd (last v)) \<le> b"
  by (induction a v b rule: contiguous.induct) fastforce+

lemma contiguous_check:
  assumes "contiguous a v b" "a mod 4096 = 0" "\<forall>p \<in> set v. unat (snd p) mod 4096 = 0"
    "v \<noteq> [] \<longrightarrow> snd (last v) \<noteq> 0" "b \<le> unat (md_enclave_size m)"
  shows "check_rvas m v"
  using assms
proof (induction a v b rule: contiguous.induct)
  case (2 a r n v b)
  have c: "contiguous (a + unat n) v b" and r: "unat r = a" using 2 by auto
  have "(a + unat n) mod 4096 = 0" using 2 by (simp add: mod_0_imp_dvd)
  then have ih: "check_rvas m v" using 2 c by (intro "2.IH") (auto split: if_splits)
  have "0 < unat (snd (last ((r, n) # v)))" using 2(5) by (simp add: unat_gt_0)
  then have lt: "a < b" using contiguous_last [OF 2(2)] by simp
  have nle: "\<not> r + n > r'" if "v = (r', n') # w" for r' n' w
  proof -
    have "unat r' = a + unat n" using c that by simp
    then have "unat (r + n) = unat r'" using r unat_less_exp [of r'] by (simp add: unat_word_ariths)
    then show ?thesis by (simp add: word_less_nat_alt)
  qed
  have "IS_PAGE_ALIGNED r" using 2(3) r
    by (simp add: IS_PAGE_ALIGNED_unat)
  moreover have "is_enclave_buffer m r n"
    using lt r contiguous_le [OF c] 2(6) by (simp add: is_enclave_buffer_iff)
  ultimately show ?case using ih nle by (auto split: list.splits)
qed simp

section \<open>The addresses that the tool assigns\<close>

definition entry_bytes :: "layout_t \<Rightarrow> nat" where
  "entry_bytes l = 4096 * unat (le_page_count (as_entry l))"

definition span :: "nat \<Rightarrow> layout_t list \<Rightarrow> nat" where
  "span k rp = sum_list (take k (map entry_bytes rp))"

text \<open>The size of the load sequence over the natural numbers, given the sizes of the records before.\<close>

fun total_bytes :: "nat list \<Rightarrow> layout_t list \<Rightarrow> nat" where
  "total_bytes sz [] = 0"
| "total_bytes sz (LEntry e # ls) = entry_bytes (LEntry e) + total_bytes (entry_bytes (LEntry e) # sz) ls"
| "total_bytes sz (LGroup g # ls) =
     unat (lg_load_times g) * sum_list (take (unat (lg_entry_count g)) sz) + total_bytes (entry_bytes (LGroup g) # sz) ls"

text \<open>The nearest \<open>k\<close> records before an address are entries that end there, one after the other.\<close>

fun ends_at :: "nat \<Rightarrow> layout_t list \<Rightarrow> nat \<Rightarrow> bool" where
  "ends_at 0 rp r = True"
| "ends_at (Suc k) (LEntry e # rp) r \<longleftrightarrow>
     unat (le_rva e) + entry_bytes (LEntry e) = r \<and> ends_at k rp (unat (le_rva e))"
| "ends_at (Suc k) rp r = False"

text \<open>A group repeats at most the entries since the group before it.\<close>

fun groups_ok :: "nat \<Rightarrow> layout_t list \<Rightarrow> bool" where
  "groups_ok c [] = True"
| "groups_ok c (LEntry e # ls) = groups_ok (Suc c) ls"
| "groups_ok c (LGroup g # ls) \<longleftrightarrow> unat (lg_entry_count g) \<le> c \<and> lg_load_step g = 0 \<and> groups_ok 0 ls"

fun nonempty_end :: "layout_t list \<Rightarrow> bool" where
  "nonempty_end (LEntry e # rp) \<longleftrightarrow> le_page_count e \<noteq> 0"
| "nonempty_end (LGroup g # LEntry e # rp) \<longleftrightarrow> lg_load_times g \<noteq> 0 \<and> lg_entry_count g \<noteq> 0 \<and> le_page_count e \<noteq> 0"
| "nonempty_end rp = False"

definition whole_pages :: "(u64 \<times> u64) list \<Rightarrow> bool" where
  "whole_pages v \<longleftrightarrow> (\<forall>p \<in> set v. unat (snd p) mod 4096 = 0)"

lemma whole_pages_simps [simp]:
  "whole_pages []" "whole_pages (v @ w) \<longleftrightarrow> whole_pages v \<and> whole_pages w"
  "whole_pages (p # v) \<longleftrightarrow> unat (snd p) mod 4096 = 0 \<and> whole_pages v"
  by (auto simp: whole_pages_def)

lemma unat_layout_bytes: "unat (layout_bytes l) = entry_bytes l"
  by (simp add: layout_bytes_def entry_bytes_def unat_page_bytes)

lemma entry_range_size [simp]: "unat (snd (entry_range d e)) = entry_bytes (LEntry e)"
  by (simp add: entry_range_def entry_bytes_def unat_page_bytes)

lemma entry_range_rva: "unat (le_rva e) + unat d < 2 ^ 64 \<Longrightarrow> unat (fst (entry_range d e)) = unat (le_rva e) + unat d"
  by (simp add: entry_range_def unat_word_ariths)

lemma entry_range_empty: "snd (entry_range d e) = 0 \<longleftrightarrow> le_page_count e = 0"
proof -
  have "unat (snd (entry_range d e)) = 0 \<longleftrightarrow> unat (le_page_count e) = 0" by (simp add: entry_bytes_def)
  then show ?thesis by (simp only: unat_eq_0)
qed

lemma contiguous_Cons: "contiguous a (p # v) b \<longleftrightarrow> unat (fst p) = a \<and> contiguous (a + unat (snd p)) v b"
  by (cases p) simp

lemma span_le: "ends_at k rp r \<Longrightarrow> span k rp \<le> r"
  by (induction k rp r rule: ends_at.induct) (auto simp: span_def)

lemma ends_at_length: "ends_at k rp r \<Longrightarrow> k \<le> length rp"
  by (induction k rp r rule: ends_at.induct) auto

lemma ends_at_mono: "ends_at k rp r \<Longrightarrow> j \<le> k \<Longrightarrow> ends_at j rp r"
proof (induction k rp r arbitrary: j rule: ends_at.induct)
  case (2 k e rp r)
  then show ?case by (cases j) auto
qed auto

lemma group_entries_append:
  "group_entries d (xs @ [LEntry e]) = map_option (\<lambda>v. v @ [entry_range d e]) (group_entries d xs)"
  by (induction d xs rule: group_entries.induct) (auto simp: option.map_comp comp_def)

lemma group_round:
  assumes "ends_at k rp r" "r + unat d < 2 ^ 64"
  shows "\<exists>w a. group_entries d (rev (take k rp)) = Some w \<and> a + span k rp = r
    \<and> contiguous (a + unat d) w (r + unat d) \<and> whole_pages w
    \<and> (k \<noteq> 0 \<longrightarrow> w \<noteq> [] \<and> unat (snd (last w)) = entry_bytes (hd rp))"
  using assms
proof (induction k rp r rule: ends_at.induct)
  case (2 k e rp r)
  have e: "unat (le_rva e) + entry_bytes (LEntry e) = r" "ends_at k rp (unat (le_rva e))" using 2 by auto
  obtain w a where w: "group_entries d (rev (take k rp)) = Some w" "a + span k rp = unat (le_rva e)"
      "contiguous (a + unat d) w (unat (le_rva e) + unat d)" "whole_pages w"
    using 2 e by auto
  have "contiguous (unat (le_rva e) + unat d) [entry_range d e] (r + unat d)"
    using e 2 by (simp add: contiguous_Cons entry_range_rva)
  then have "contiguous (a + unat d) (w @ [entry_range d e]) (r + unat d)" using w(3) contiguous_append by blast
  moreover have "a + span (Suc k) (LEntry e # rp) = r" using w(2) e(1) by (simp add: span_def)
  moreover have "whole_pages (w @ [entry_range d e])" using w(4) by (simp add: entry_bytes_def)
  ultimately show ?case using w(1) by (auto simp: group_entries_append)
qed (auto simp: span_def)

lemma group_rounds_contiguous:
  assumes "ends_at k rp r" "unat step = span k rp" "unat encl \<ge> r + unat acc + n * span k rp"
  shows "\<exists>w. group_rounds encl step (rev (take k rp)) n acc = Some w
    \<and> contiguous (r + unat acc) w (r + unat acc + n * span k rp) \<and> whole_pages w
    \<and> (k \<noteq> 0 \<longrightarrow> n \<noteq> 0 \<longrightarrow> w \<noteq> [] \<and> unat (snd (last w)) = entry_bytes (hd rp))"
  using assms(3)
proof (induction n arbitrary: acc)
  case (Suc n)
  have acc: "unat (acc + step) = unat acc + span k rp"
    using Suc.prems assms(2) unat_less_exp [of encl] by (simp add: unat_word_ariths)
  have small: "r + unat (acc + step) < 2 ^ 64" using Suc.prems acc unat_less_exp [of encl] by simp
  obtain v a where v: "group_entries (acc + step) (rev (take k rp)) = Some v" "a + span k rp = r"
      "contiguous (a + unat (acc + step)) v (r + unat (acc + step))" "whole_pages v"
      "k \<noteq> 0 \<longrightarrow> v \<noteq> [] \<and> unat (snd (last v)) = entry_bytes (hd rp)"
    using group_round [OF assms(1) small] by blast
  obtain w where w: "group_rounds encl step (rev (take k rp)) n (acc + step) = Some w"
      "contiguous (r + unat (acc + step)) w (r + unat (acc + step) + n * span k rp)" "whole_pages w"
      "k \<noteq> 0 \<longrightarrow> n \<noteq> 0 \<longrightarrow> w \<noteq> [] \<and> unat (snd (last w)) = entry_bytes (hd rp)"
    using Suc.IH [of "acc + step"] Suc.prems acc by (auto simp: algebra_simps)
  have "\<not> encl < acc + step" using Suc.prems acc by (simp add: word_less_nat_alt)
  moreover have "contiguous (r + unat acc) (v @ w) (r + unat acc + Suc n * span k rp)"
  proof -
    have "a + unat (acc + step) = r + unat acc"
        "r + unat (acc + step) + n * span k rp = r + unat acc + Suc n * span k rp" using acc v(2) by simp_all
    then show ?thesis using contiguous_append [OF v(3) w(2)] by metis
  qed
  moreover have "group_rounds encl step (rev (take k rp)) 0 (acc + step) = Some []" by simp
  ultimately show ?case using v w by (cases n) (auto simp: Let_def)
qed simp

lemma unat_group_step:
  assumes "lg_load_step g = 0" "ends_at (unat (lg_entry_count g)) rp r" "r < 2 ^ 64"
  shows "unat (group_step g rp) = span (unat (lg_entry_count g)) rp"
proof -
  have "unat (fold (\<lambda>l step. step + layout_bytes l) ls x) = unat x + sum_list (map entry_bytes ls)"
    if "unat x + sum_list (map entry_bytes ls) < 2 ^ 64" for ls and x :: u64
    using that
  proof (induction ls arbitrary: x)
    case (Cons l ls)
    then have "unat (x + layout_bytes l) = unat x + entry_bytes l"
      by (simp add: unat_word_ariths unat_layout_bytes)
    then show ?case using Cons by simp
  qed simp
  from this [of 0 "take (unat (lg_entry_count g)) rp"] show ?thesis
    using assms span_le [OF assms(2)] by (simp add: group_step_def span_def take_map)
qed

definition content_ok :: "metadata_t \<Rightarrow> layout_t list \<Rightarrow> bool" where
  "content_ok m ls \<longleftrightarrow> (\<forall>e. LEntry e \<in> set ls \<longrightarrow>
     le_content_offset e = 0 \<or> is_metadata_buffer m (le_content_offset e) (le_content_size e))"

lemma content_ok_Cons [simp]:
  "content_ok m (LEntry e # ls) \<longleftrightarrow>
     (le_content_offset e = 0 \<or> is_metadata_buffer m (le_content_offset e) (le_content_size e)) \<and> content_ok m ls"
  "content_ok m (LGroup g # ls) \<longleftrightarrow> content_ok m ls"
  by (auto simp: content_ok_def)

lemma group_vector:
  assumes "ends_at c rp (unat rva)" "unat (lg_entry_count g) \<le> c" "lg_load_step g = 0"
    and "unat rva + unat (lg_load_times g) * span (unat (lg_entry_count g)) rp \<le> unat encl"
  defines "step \<equiv> group_step g rp"
  shows "unat (rva + ucast (lg_load_times g) * step) = unat rva + unat (lg_load_times g) * span (unat (lg_entry_count g)) rp"
    and "\<exists>w. group_rounds encl step (drop (length (rev rp) - unat (lg_entry_count g)) (rev rp)) (unat (lg_load_times g)) 0 = Some w
      \<and> contiguous (unat rva) w (unat (rva + ucast (lg_load_times g) * step)) \<and> whole_pages w
      \<and> (nonempty_end (LGroup g # rp) \<longrightarrow> w \<noteq> [] \<and> snd (last w) \<noteq> 0)"
proof -
  let ?k = "unat (lg_entry_count g)" and ?n = "unat (lg_load_times g)"
  have k: "ends_at ?k rp (unat rva)" by (rule ends_at_mono [OF assms(1,2)])
  have step: "unat step = span ?k rp"
    unfolding step_def using unat_group_step [OF assms(3) k] unat_less_exp [of rva] by simp
  have n: "unat (ucast (lg_load_times g) :: u64) = ?n" 
    using unat_less_exp [of "lg_load_times g"] by (simp add: unsigned_ucast_eq take_bit_eq_mod)
  show r: "unat (rva + ucast (lg_load_times g) * step) = unat rva + ?n * span ?k rp"
    using assms(4) step n unat_less_exp [of encl] by (simp add: unat_word_ariths)
  have d: "drop (length (rev rp) - ?k) (rev rp) = rev (take ?k rp)"
    using ends_at_length [OF k] by (simp add: drop_rev)
  obtain w where w: "group_rounds encl step (rev (take ?k rp)) ?n 0 = Some w"
      "contiguous (unat rva) w (unat rva + ?n * span ?k rp)" "whole_pages w"
      "?k \<noteq> 0 \<longrightarrow> ?n \<noteq> 0 \<longrightarrow> w \<noteq> [] \<and> unat (snd (last w)) = entry_bytes (hd rp)"
    using group_rounds_contiguous [OF k step, of 0 ?n encl] assms(4) by auto
  have "w \<noteq> [] \<and> snd (last w) \<noteq> 0" if ne: "nonempty_end (LGroup g # rp)"
  proof -
    obtain e rp' where e: "rp = LEntry e # rp'" "le_page_count e \<noteq> 0" "?k \<noteq> 0" "?n \<noteq> 0"
      using ne by (cases rp; cases "hd rp") (auto simp: unat_eq_0)
    then have "w \<noteq> []" "unat (snd (last w)) \<noteq> 0" using w(4) by (auto simp: entry_bytes_def unat_eq_0)
    then show ?thesis by auto
  qed
  then show "\<exists>w. group_rounds encl step (drop (length (rev rp) - ?k) (rev rp)) ?n 0 = Some w
      \<and> contiguous (unat rva) w (unat (rva + ucast (lg_load_times g) * step)) \<and> whole_pages w
      \<and> (nonempty_end (LGroup g # rp) \<longrightarrow> w \<noteq> [] \<and> snd (last w) \<noteq> 0)"
    using w r d by auto
qed

lemma assign_rvas_contiguous:
  assumes "assign_rvas rva rp ls = (ls', rva')" "ends_at c rp (unat rva)" "groups_ok c ls" "content_ok m ls"
    and "unat rva + total_bytes (map entry_bytes rp) ls \<le> unat (md_enclave_size m)"
  shows "\<exists>v. rva_vector m (rev rp) ls' = Some v \<and> contiguous (unat rva) v (unat rva') \<and> whole_pages v
    \<and> unat rva' = unat rva + total_bytes (map entry_bytes rp) ls
    \<and> (ls \<noteq> [] \<longrightarrow> nonempty_end (rev ls' @ rp) \<longrightarrow> v \<noteq> [] \<and> snd (last v) \<noteq> 0)"
  using assms
proof (induction rva rp ls arbitrary: c ls' rva' rule: assign_rvas.induct)
  case (1 rva rp)
  then show ?case by simp
next
  case (2 rva rp e ls)
  let ?l = "LEntry (e\<lparr>le_rva := rva\<rparr>)"
  have sz: "entry_bytes ?l = entry_bytes (LEntry e)" by (simp add: entry_bytes_def)
  obtain ls2 where a: "assign_rvas (rva + layout_bytes ?l) (?l # rp) ls = (ls2, rva')" and ls': "ls' = ?l # ls2"
    using "2.prems"(1) by (auto simp: Let_def split: prod.splits)
  have r: "unat (rva + layout_bytes ?l) = unat rva + entry_bytes ?l"
    using "2.prems"(5) unat_less_exp [of "md_enclave_size m"] sz by (simp add: unat_word_ariths unat_layout_bytes)
  have "ends_at (Suc c) (?l # rp) (unat (rva + layout_bytes ?l))" using r "2.prems"(2) by simp
  note IH = "2.IH" [OF refl a this]
  have "\<exists>v. rva_vector m (rev (?l # rp)) ls2 = Some v \<and> contiguous (unat (rva + layout_bytes ?l)) v (unat rva') \<and> whole_pages v
    \<and> unat rva' = unat (rva + layout_bytes ?l) + total_bytes (map entry_bytes (?l # rp)) ls
    \<and> (ls \<noteq> [] \<longrightarrow> nonempty_end (rev ls2 @ ?l # rp) \<longrightarrow> v \<noteq> [] \<and> snd (last v) \<noteq> 0)"
    using "2.prems" r sz by (intro IH) simp_all
  then obtain v where v: "rva_vector m (rev rp @ [?l]) ls2 = Some v" "contiguous (unat rva + entry_bytes ?l) v (unat rva')"
    "whole_pages v" "unat rva' = unat rva + entry_bytes ?l + total_bytes (entry_bytes ?l # map entry_bytes rp) ls"
    "ls \<noteq> [] \<longrightarrow> nonempty_end (rev ls2 @ ?l # rp) \<longrightarrow> v \<noteq> [] \<and> snd (last v) \<noteq> 0" using r by auto
  have single: "ls = [] \<Longrightarrow> ls2 = [] \<and> v = []" using a v(1) by auto
  show ?case
  proof (intro exI conjI)
    show "rva_vector m (rev rp) ls' = Some (entry_range 0 (e\<lparr>le_rva := rva\<rparr>) # v)" using v(1) "2.prems"(4) by (auto simp: ls')
    show "contiguous (unat rva) (entry_range 0 (e\<lparr>le_rva := rva\<rparr>) # v) (unat rva')"
      using v(2) sz by (simp add: contiguous_Cons) (simp add: entry_range_def)
    show "whole_pages (entry_range 0 (e\<lparr>le_rva := rva\<rparr>) # v)" using v(3) by (simp add: entry_bytes_def)
    show "unat rva' = unat rva + total_bytes (map entry_bytes rp) (LEntry e # ls)" using v(4) sz by simp
  qed (use v(5) single in \<open>cases "ls = []", auto simp: ls' entry_range_empty\<close>)
next
  case (3 rva rp g ls)
  let ?k = "unat (lg_entry_count g)"
  let ?g = "g\<lparr>lg_load_step := group_step g rp\<rparr>"
  let ?rva = "rva + ucast (lg_load_times ?g) * lg_load_step ?g"
  let ?n = "unat (lg_load_times g)"
  have sum: "sum_list (take ?k (map entry_bytes rp)) = span ?k rp" by (simp add: span_def)
  obtain ls2 where a: "assign_rvas ?rva (LGroup ?g # rp) ls = (ls2, rva')" and ls': "ls' = LGroup ?g # ls2"
    using "3.prems"(1) by (auto simp: Let_def split: prod.splits)
  have sz: "entry_bytes (LGroup ?g) = entry_bytes (LGroup g)" by (simp add: entry_bytes_def)
  have G: "unat (lg_entry_count g) \<le> c" "lg_load_step g = 0" "groups_ok 0 ls"
      "unat rva + ?n * span ?k rp \<le> unat (md_enclave_size m)" using "3.prems"(3,5) sum by auto
  note gv = group_vector [OF "3.prems"(2) G(1,2,4)]
  obtain w where w: "group_rounds (md_enclave_size m) (group_step g rp) (drop (length (rev rp) - ?k) (rev rp)) ?n 0 = Some w"
      "contiguous (unat rva) w (unat ?rva)" "whole_pages w" "nonempty_end (LGroup g # rp) \<longrightarrow> w \<noteq> [] \<and> snd (last w) \<noteq> 0"
    using gv(2) by auto
  have "ends_at 0 (LGroup ?g # rp) (unat ?rva)" by simp
  note IH = "3.IH" [OF refl a this G(3)]
  have "\<exists>v. rva_vector m (rev (LGroup ?g # rp)) ls2 = Some v \<and> contiguous (unat ?rva) v (unat rva') \<and> whole_pages v
    \<and> unat rva' = unat ?rva + total_bytes (map entry_bytes (LGroup ?g # rp)) ls
    \<and> (ls \<noteq> [] \<longrightarrow> nonempty_end (rev ls2 @ LGroup ?g # rp) \<longrightarrow> v \<noteq> [] \<and> snd (last v) \<noteq> 0)"
    using "3.prems"(4,5) gv(1) sum sz by (intro IH) simp_all
  then obtain v where v: "rva_vector m (rev rp @ [LGroup ?g]) ls2 = Some v" "contiguous (unat ?rva) v (unat rva')"
    "whole_pages v" "unat rva' = unat ?rva + total_bytes (map entry_bytes (LGroup ?g # rp)) ls"
    "ls \<noteq> [] \<longrightarrow> nonempty_end (rev ls2 @ LGroup ?g # rp) \<longrightarrow> v \<noteq> [] \<and> snd (last v) \<noteq> 0" by auto
  have single: "ls = [] \<Longrightarrow> ls2 = [] \<and> v = []" using a v(1) by auto
  have le: "\<not> length (rev rp) < ?k" using ends_at_length [OF "3.prems"(2)] G(1) by simp
  have ne: "nonempty_end (LGroup ?g # rp) \<longleftrightarrow> nonempty_end (LGroup g # rp)" by (cases rp; cases "hd rp") auto
  show ?case
  proof (intro exI conjI)
    show "rva_vector m (rev rp) ls' = Some (w @ v)" using v(1) w(1) le by (simp add: ls')
    show "contiguous (unat rva) (w @ v) (unat rva')" by (rule contiguous_append [OF w(2) v(2)])
    show "whole_pages (w @ v)" using w(3) v(3) by simp
    show "unat rva' = unat rva + total_bytes (map entry_bytes rp) (LGroup g # ls)" using v(4) gv(1) sum sz by simp
  qed (use v(5) w(4) single ne in \<open>cases "ls = []", auto simp: ls'\<close>)
qed

lemma assign_rvas_snoc:
  "assign_rvas rva rp (ls @ [LEntry e]) = (case assign_rvas rva rp ls of (ls', rva') \<Rightarrow>
     (ls' @ [LEntry (e\<lparr>le_rva := rva'\<rparr>)], rva' + layout_bytes (LEntry e)))"
  by (induction rva rp ls rule: assign_rvas.induct) (auto simp: Let_def layout_bytes_def split: prod.splits)

lemma total_bytes_snoc: "total_bytes sz (ls @ [LEntry e]) = total_bytes sz ls + entry_bytes (LEntry e)"
  by (induction sz ls rule: total_bytes.induct) auto

lemma groups_ok_snoc: "groups_ok c (ls @ [LEntry e]) \<longleftrightarrow> groups_ok c ls"
  by (induction c ls rule: groups_ok.induct) auto

lemma groups_ok_entries [simp]: "groups_ok c (map LEntry es @ ls) \<longleftrightarrow> groups_ok (c + length es) ls"
  by (induction es arbitrary: c) auto

lemma content_ok_append [simp]: "content_ok m (xs @ ys) \<longleftrightarrow> content_ok m xs \<and> content_ok m ys"
  by (auto simp: content_ok_def)

text \<open>The assignment changes nothing but the addresses and the steps.\<close>

fun erase :: "layout_t \<Rightarrow> layout_t" where
  "erase (LEntry e) = LEntry (e\<lparr>le_rva := 0\<rparr>)"
| "erase (LGroup g) = LGroup (g\<lparr>lg_load_step := 0\<rparr>)"

lemma erase_assign_rvas: "map erase (fst (assign_rvas rva rp ls)) = map erase ls"
  by (induction rva rp ls rule: assign_rvas.induct) (auto simp: Let_def split: prod.splits)

lemma erase_simps [simp]:
  "layout_id (erase l) = layout_id l" "entry_bytes (erase l) = entry_bytes l" "layout_bytes (erase l) = layout_bytes l"
  "well_tagged (erase l) = well_tagged l"
  by (cases l; simp add: entry_bytes_def layout_bytes_def)+

lemma nonempty_end_erase: "nonempty_end (map erase ls) = nonempty_end ls"
  by (induction ls rule: nonempty_end.induct) auto

lemma same_erase:
  assumes "map erase ls' = map erase ls"
  shows "length ls' = length ls" "nonempty_end (rev ls') = nonempty_end (rev ls)"
    "list_all well_tagged ls' = list_all well_tagged ls"
proof -
  show "length ls' = length ls" using assms by (metis length_map)
  show "nonempty_end (rev ls') = nonempty_end (rev ls)"
    using assms nonempty_end_erase by (metis rev_map)
  have "list_all well_tagged ls = list_all well_tagged (map erase ls)" for ls by (induction ls) simp_all
  then show "list_all well_tagged ls' = list_all well_tagged ls" using assms by metis
qed

text \<open>The table with the extra pages, before its addresses are assigned.\<close>

definition extended :: "u32 \<Rightarrow> layout_t list \<Rightarrow> layout_t list" where
  "extended x ls =
     (if extends_rsrv (as_entry (last ls))
      then butlast ls @ [LEntry ((as_entry (last ls))\<lparr>le_page_count := le_page_count (as_entry (last ls)) + x\<rparr>)]
      else ls @ [LEntry (entry_of LAYOUT_ID_GUARD x 0 0 0 0)])"

lemma extends_rsrv_entry: "well_tagged l \<Longrightarrow> extends_rsrv (as_entry l) \<Longrightarrow> \<exists>e. l = LEntry e"
  by (cases l) (auto simp: extends_rsrv_def LAYOUT_ID_RSRV_INIT_def LAYOUT_ID_RSRV_MAX_def LAYOUT_ID_RSRV_MIN_def
      IS_GROUP_ID_def GROUP_FLAG_def)

lemma extends_rsrv_rva [simp]: "extends_rsrv (e\<lparr>le_rva := r\<rparr>) = extends_rsrv e"
  by (simp add: extends_rsrv_def)

lemma extends_rsrv_erase: "extends_rsrv (as_entry (erase l)) = extends_rsrv (as_entry l)"
  by (cases l) (simp_all add: extends_rsrv_def)

lemma add_extra_pages_layouts:
  assumes "assign_rvas rva [] ls = (m_layouts s, m_rva s)" "ls \<noteq> []" "list_all well_tagged ls" "es \<noteq> m_rva s"
  shows "m_layouts (add_extra_pages es s) = fst (assign_rvas rva [] (extended (pages_of (es - m_rva s)) ls))"
proof -
  let ?x = "pages_of (es - m_rva s)"
  have pos: "es - m_rva s > 0" using assms(4) by (simp add: word_gt_0)
  obtain ls0 l where ls: "ls = ls0 @ [l]" using assms(2) by (metis append_butlast_last_id)
  have wt: "well_tagged l" using assms(3) ls by simp
  show ?thesis
  proof (cases "extends_rsrv (as_entry l)")
    case True
    then obtain e where e: "l = LEntry e" using extends_rsrv_entry [OF wt] by blast
    obtain ls1 r1 where a: "assign_rvas rva [] ls0 = (ls1, r1)" by fastforce
    have m: "m_layouts s = ls1 @ [LEntry (e\<lparr>le_rva := r1\<rparr>)]"
      using assms(1) by (simp add: ls e assign_rvas_snoc a)
    show ?thesis using pos True by (simp add: add_extra_pages_def Let_def m ls e extended_def assign_rvas_snoc a)
  next
    case False
    have "map erase (m_layouts s) = map erase ls" using erase_assign_rvas [of rva "[]" ls] assms(1) by simp
    then have "erase (last (m_layouts s)) = erase l" using ls assms(2) same_erase(1)
      by (metis last_map last_snoc length_0_conv)
    then have "extends_rsrv (as_entry (last (m_layouts s))) = extends_rsrv (as_entry l)"
      by (metis extends_rsrv_erase)
    moreover have "last ls = l" by (simp add: ls)
    ultimately show ?thesis using pos False
      by (simp add: add_extra_pages_def Let_def extended_def assign_rvas_snoc assms(1) entry_of_def)
  qed
qed

lemma extended_facts:
  assumes "ls \<noteq> []" "list_all well_tagged ls" "groups_ok 0 ls" "content_ok m ls" "x \<noteq> 0"
    and "total_bytes [] ls div 4096 + unat x < 2 ^ 32"
  shows "groups_ok 0 (extended x ls)" "content_ok m (extended x ls)" "nonempty_end (rev (extended x ls))"
    "total_bytes [] (extended x ls) = total_bytes [] ls + 4096 * unat x" "list_all well_tagged (extended x ls)"
proof -
  obtain ls0 l where ls: "ls = ls0 @ [l]" using assms(1) by (metis append_butlast_last_id)
  have "groups_ok 0 (extended x ls) \<and> content_ok m (extended x ls) \<and> nonempty_end (rev (extended x ls))
    \<and> total_bytes [] (extended x ls) = total_bytes [] ls + 4096 * unat x \<and> list_all well_tagged (extended x ls)"
  proof (cases "extends_rsrv (as_entry l)")
    case True
    then obtain e where e: "l = LEntry e" using extends_rsrv_entry assms(2) ls by auto
    have "unat (le_page_count e) + unat x < 2 ^ 32"
      using assms(6) by (simp add: ls e total_bytes_snoc entry_bytes_def)
    then have p: "unat (le_page_count e + x) = unat (le_page_count e) + unat x" by (simp add: unat_word_ariths)
    then have "le_page_count e + x \<noteq> 0" using assms(5) by (metis add_is_0 unat_0 unat_eq_zero)
    then show ?thesis
      using assms True p by (simp add: extended_def ls e groups_ok_snoc total_bytes_snoc entry_bytes_def)
  next
    case False
    moreover have "last ls = l" by (simp add: ls)
    moreover have "content_ok m []" by (simp add: content_ok_def)
    ultimately show ?thesis
      using assms by (simp add: extended_def groups_ok_snoc total_bytes_snoc entry_of_def entry_bytes_def
        LAYOUT_ID_GUARD_def IS_GROUP_ID_def GROUP_FLAG_def)
  qed
  then show "groups_ok 0 (extended x ls)" "content_ok m (extended x ls)" "nonempty_end (rev (extended x ls))"
    "total_bytes [] (extended x ls) = total_bytes [] ls + 4096 * unat x" "list_all well_tagged (extended x ls)" by auto
qed

lemma assigned_valid:
  assumes "groups_ok 0 ls" "content_ok m ls" "nonempty_end (rev ls)" "unat rva mod 4096 = 0"
    and "unat rva + total_bytes [] ls \<le> unat (md_enclave_size m)" "layout_table m = fst (assign_rvas rva [] ls)"
  shows "validate_layout_table m = SGX_SUCCESS"
proof -
  obtain ls' rva' where a: "assign_rvas rva [] ls = (ls', rva')" by fastforce
  have "nonempty_end (rev ls')" using same_erase(2) [OF erase_assign_rvas [of rva "[]" ls]] a assms(3) by simp
  moreover have "ls \<noteq> []" using assms(3) by auto
  ultimately obtain v where v: "rva_vector m [] ls' = Some v" "contiguous (unat rva) v (unat rva')" "whole_pages v"
      "unat rva' = unat rva + total_bytes [] ls" "v \<noteq> []" "snd (last v) \<noteq> 0"
    using assign_rvas_contiguous [OF a _ assms(1,2)] assms(5) by auto
  have "sort v = v" using contiguous_sorted [OF v(2)] by (simp add: sorted_sort_id)
  moreover have "check_rvas m v"
    using v assms(4,5) by (intro contiguous_check [OF v(2)]) (auto simp: whole_pages_def)
  ultimately show ?thesis using v(1) assms(6) a by (simp add: validate_layout_table_def)
qed

section \<open>The table of the tool\<close>

lemmas layout_ids = LAYOUT_ID_HEAP_MIN_def LAYOUT_ID_HEAP_INIT_def LAYOUT_ID_HEAP_MAX_def LAYOUT_ID_TCS_def
  LAYOUT_ID_TD_def LAYOUT_ID_SSA_def LAYOUT_ID_STACK_MAX_def LAYOUT_ID_STACK_MIN_def LAYOUT_ID_GUARD_def
  LAYOUT_ID_HEAP_DYN_MIN_def LAYOUT_ID_RSRV_MIN_def LAYOUT_ID_RSRV_INIT_def LAYOUT_ID_RSRV_MAX_def
  LAYOUT_ID_THREAD_GROUP_def LAYOUT_ID_THREAD_GROUP_DYN_def GROUP_ID_def GROUP_FLAG_def IS_GROUP_ID_def

lemma length_thread_layouts: "length (thread_layouts cp tls off) \<in> {7, 8}"
  by (simp add: thread_layouts_def)

lemma unat_thread_count:
  "unat (of_nat (length (thread_layouts cp tls off)) :: u16) = length (thread_layouts cp tls off)"
  using length_thread_layouts [of cp tls off] by (auto simp: unat_of_nat)

lemma all_layouts_length: "length (all_layouts cp tls off) \<le> 41"
proof -
  have "length (repeated es n) \<le> length es + 1" "length (dynamic_layouts es cp n) \<le> length es + 1" for es n
    by (simp_all add: repeated_def dynamic_layouts_def)
  note rd = this(1) [of "thread_layouts cp tls off"] this(1) [of "map eremove_entry (thread_layouts cp tls off)"]
    this(2) [of "thread_layouts cp tls off"]
  have "length (heap_layouts cp) \<le> 3" "length (rsrv_layouts cp) \<le> 3"
    by (simp_all add: heap_layouts_def rsrv_layouts_def region_layouts_def)
  moreover have "length (thread_layouts cp tls off) \<le> 8" using length_thread_layouts [of cp tls off] by auto
  ultimately show ?thesis
    using rd [of "fst (static_threads cp)"] rd [of "snd (static_threads cp)"]
    by (simp add: all_layouts_def Let_def case_prod_unfold)
qed

lemma all_layouts_groups: "groups_ok 0 (all_layouts cp tls off)"
proof -
  let ?es = "thread_layouts cp tls off"
  have r: "groups_ok c (repeated es n @ ls) \<longleftrightarrow> groups_ok (if n > 0 then (if n > 1 then 0 else c + length es) else c) ls"
    if "unat (of_nat (length es) :: u16) = length es" for c es n ls
    using that by (auto simp: repeated_def group_of_def)
  have d: "groups_ok c (dynamic_layouts ?es cp n @ map LEntry rs)" for c n rs
    using unat_thread_count [of cp tls off] groups_ok_entries [of c "map dynamic_entry ?es"]
      groups_ok_entries [of _ rs "[]"] by (auto simp: dynamic_layouts_def group_of_def)
  have "groups_ok c (map (LEntry \<circ> f) es @ ls) \<longleftrightarrow> groups_ok (c + length es) ls" for c f ls and es :: "layout_entry_t list"
    using groups_ok_entries [of c "map f es"] by simp
  then show ?thesis using unat_thread_count [of cp tls off]
    by (simp add: all_layouts_def Let_def r d split: prod.splits)
qed

lemma thread_layouts_ids:
  "e \<in> set (thread_layouts cp tls off) \<Longrightarrow>
     le_id e \<in> {LAYOUT_ID_GUARD, LAYOUT_ID_STACK_MAX, LAYOUT_ID_STACK_MIN, LAYOUT_ID_TCS, LAYOUT_ID_SSA, LAYOUT_ID_TD}"
  by (auto simp: thread_layouts_def guard_page_def entry_of_def)

lemma thread_layouts_content:
  "e \<in> set (thread_layouts cp tls off) \<Longrightarrow>
     le_content_offset e = 0 \<or> le_content_offset e = off \<and> le_content_size e = TCS_TEMPLATE_SIZE"
  by (auto simp: thread_layouts_def guard_page_def entry_of_def)

lemma derived_entry_simps [simp]:
  "le_id (utility_entry e) = le_id e" "le_id (eremove_entry e) = le_id e"
  "le_content_offset (utility_entry e) = le_content_offset e" "le_content_size (utility_entry e) = le_content_size e"
  "le_content_offset (eremove_entry e) = le_content_offset e" "le_content_size (eremove_entry e) = le_content_size e"
  "le_content_offset (dynamic_entry e) = le_content_offset e" "le_content_size (dynamic_entry e) = le_content_size e"
  "le_page_count (utility_entry e) = le_page_count e" "le_page_count (eremove_entry e) = le_page_count e"
  "le_page_count (dynamic_entry e) = le_page_count e"
  by (simp_all add: utility_entry_def eremove_entry_def dynamic_entry_def or_attributes_def)

lemma region_layouts_facts:
  "e \<in> set (region_layouts a b c x y z) \<Longrightarrow> le_id e \<in> {a, b, c} \<and> le_content_offset e = 0"
  by (auto simp: region_layouts_def entry_of_def split: if_splits)

text \<open>A record of the table after the heap entries: a thread record, perhaps changed, a group or a reserved entry.\<close>

lemma set_all_layouts:
  "set (all_layouts cp tls off) \<subseteq> LEntry ` set (heap_layouts cp)
     \<union> (\<Union>f \<in> {id, utility_entry, eremove_entry, dynamic_entry}. LEntry ` f ` set (thread_layouts cp tls off))
     \<union> {LGroup g |g. lg_id g \<in> {LAYOUT_ID_THREAD_GROUP, LAYOUT_ID_THREAD_GROUP_DYN}}
     \<union> LEntry ` set (rsrv_layouts cp)" (is "_ \<subseteq> ?H \<union> ?T \<union> ?G \<union> ?R")
proof -
  let ?es = "thread_layouts cp tls off"
  have "set (repeated ?es n) \<subseteq> ?T \<union> ?G" "set (repeated (map eremove_entry ?es) n) \<subseteq> ?T \<union> ?G"
      "set (dynamic_layouts ?es cp n) \<subseteq> ?T \<union> ?G" for n
    by (auto simp: repeated_def dynamic_layouts_def group_of_def)
  then have parts: "set (repeated ?es a) \<union> set (repeated (map eremove_entry ?es) b) \<union> set (dynamic_layouts ?es cp a) \<subseteq> ?T \<union> ?G" for a b
    by (simp only: Un_subset_iff)
  have "set (all_layouts cp tls off) = ?H \<union> LEntry ` utility_entry ` set ?es
      \<union> (set (repeated ?es (fst (static_threads cp))) \<union> set (repeated (map eremove_entry ?es) (snd (static_threads cp)))
         \<union> set (dynamic_layouts ?es cp (fst (static_threads cp)))) \<union> ?R"
    by (simp add: all_layouts_def Let_def case_prod_unfold image_comp Un_assoc)
  also have "\<dots> \<subseteq> ?H \<union> ?T \<union> (?T \<union> ?G) \<union> ?R" by (intro Un_mono parts) auto
  finally show ?thesis by (simp only: Un_ac Un_absorb)
qed

lemma all_layouts_cases:
  assumes "l \<in> set (all_layouts cp tls off)"
  obtains (heap) e where "l = LEntry e" "e \<in> set (heap_layouts cp)"
  | (thread) e f where "l = LEntry (f e)" "e \<in> set (thread_layouts cp tls off)"
      "f \<in> {id, utility_entry, eremove_entry, dynamic_entry}"
  | (group) g where "l = LGroup g" "lg_id g \<in> {LAYOUT_ID_THREAD_GROUP, LAYOUT_ID_THREAD_GROUP_DYN}"
  | (rsrv) e where "l = LEntry e" "e \<in> set (rsrv_layouts cp)"
  using subsetD [OF set_all_layouts assms] by (elim UnE) (use that in blast)+

lemma all_layouts_id:
  assumes "l \<in> set (all_layouts cp tls off)"
  shows "layout_id l \<in> {1, 2, 3, 4, 5, 6, 7, 8, 10, 14, 15, 16, 17, 18, 20, 21, 22, 0x1009, 0x1013}
    \<and> well_tagged l \<and> (layout_id l = 3 \<longrightarrow> (\<exists>e \<in> set (heap_layouts cp). l = LEntry e))"
  using assms
proof (cases rule: all_layouts_cases)
  case (thread e f)
  have "le_id e \<in> {10, 7, 8, 4, 6, 5}" using thread_layouts_ids [OF thread(2)] by (simp add: layout_ids)
  moreover have "le_id (dynamic_entry e) = (if le_id e = 10 then 10 else 10 + le_id e)"
    by (simp add: dynamic_entry_def layout_ids)
  ultimately show ?thesis using thread(1,3) by (auto simp: IS_GROUP_ID_def GROUP_FLAG_def)
next
  case heap
  then show ?thesis using region_layouts_facts by (fastforce simp: heap_layouts_def layout_ids)
next
  case rsrv
  then show ?thesis using region_layouts_facts by (fastforce simp: rsrv_layouts_def layout_ids split: if_splits)
qed (auto simp: layout_ids)

lemma all_layouts_tagged: "list_all well_tagged (all_layouts cp tls off)"
  using all_layouts_id by (auto simp: list_all_iff)

lemma all_layouts_content:
  "is_metadata_buffer m off TCS_TEMPLATE_SIZE \<Longrightarrow> content_ok m (all_layouts cp tls off)"
  unfolding content_ok_def
proof (intro allI impI)
  fix e assume m: "is_metadata_buffer m off TCS_TEMPLATE_SIZE" and e: "LEntry e \<in> set (all_layouts cp tls off)"
  from e show "le_content_offset e = 0 \<or> is_metadata_buffer m (le_content_offset e) (le_content_size e)"
  proof (cases rule: all_layouts_cases)
    case (thread e' f)
    then show ?thesis using thread_layouts_content [OF thread(2)] m by auto
  next
    case heap
    then show ?thesis using region_layouts_facts by (fastforce simp: heap_layouts_def)
  next
    case rsrv
    then show ?thesis using region_layouts_facts by (fastforce simp: rsrv_layouts_def split: if_splits)
  qed simp
qed

text \<open>The last record is not empty.\<close>

lemma pages_of_pos:
  assumes "x \<noteq> 0" "unat x mod 4096 = 0" "unat x < 2 ^ 44"
  shows "pages_of x \<noteq> 0" "4096 * unat (pages_of x) = unat x"
proof -
  have p: "unat (pages_of x) = unat x div 4096"
    using assms(3) by (simp add: pages_of_def SE_PAGE_SHIFT_def drop_bit_eq_div unsigned_ucast_eq take_bit_eq_mod unat_div)
  then show u: "4096 * unat (pages_of x) = unat x" using assms(2) by auto
  then show "pages_of x \<noteq> 0" using assms(1) by (auto simp: unat_eq_0)
qed

lemma nonempty_end_append: "nonempty_end rp \<Longrightarrow> nonempty_end (rp @ ls)"
  by (induction rp rule: nonempty_end.induct) auto

lemma nonempty_rev_append:
  "nonempty_end (rev xs) \<Longrightarrow> ys = [] \<or> nonempty_end (rev ys) \<Longrightarrow> nonempty_end (rev (xs @ ys))"
  by (auto intro: nonempty_end_append)

definition page_sizes :: "u64 \<Rightarrow> u64 \<Rightarrow> u64 \<Rightarrow> bool" where
  "page_sizes mn ini mx \<longleftrightarrow> mn \<le> ini \<and> ini \<le> mx \<and> unat mx < 2 ^ 44
     \<and> unat mn mod 4096 = 0 \<and> unat ini mod 4096 = 0 \<and> unat mx mod 4096 = 0"

lemma diff_pages:
  assumes "x < (y :: u64)" "unat x mod 4096 = 0" "unat y mod 4096 = 0" "unat y < 2 ^ 44"
  shows "pages_of (y - x) \<noteq> 0" "4096 * unat (pages_of (y - x)) = unat y - unat x"
proof -
  have "unat (y - x) = unat y - unat x" using assms(1) by (simp add: unat_sub word_le_nat_alt word_less_nat_alt)
  moreover have "(unat y - unat x) mod 4096 = 0" using assms(2,3) by (auto simp: mod_eq_0_iff_dvd intro: dvd_diff_nat)
  moreover have "y - x \<noteq> 0" using assms(1) by auto
  ultimately show "pages_of (y - x) \<noteq> 0" "4096 * unat (pages_of (y - x)) = unat y - unat x"
    using pages_of_pos [of "y - x"] assms(4) by auto
qed

lemma rsrv_nonempty:
  assumes "page_sizes (cp_rsrv_min_size cp) (cp_rsrv_init_size cp) (cp_rsrv_max_size cp)" "rsrv_layouts cp \<noteq> []"
  shows "nonempty_end (rev (map LEntry (rsrv_layouts cp)))"
  using assms
proof -
  let ?mn = "cp_rsrv_min_size cp" and ?ini = "cp_rsrv_init_size cp" and ?mx = "cp_rsrv_max_size cp"
  have s: "?mn \<le> ?ini" "?ini \<le> ?mx" "unat ?mx < 2 ^ 44" "unat ?mn mod 4096 = 0" "unat ?ini mod 4096 = 0" "unat ?mx mod 4096 = 0"
    using assms(1) by (auto simp: page_sizes_def)
  have b: "unat ?mn < 2 ^ 44" "unat ?ini < 2 ^ 44" using s by (auto simp: word_le_nat_alt)
  have "?mn > 0 \<or> ?ini > 0 \<or> ?mx > 0" using assms(2) by (auto simp: rsrv_layouts_def split: if_splits)
  moreover have "?mx > ?ini \<Longrightarrow> pages_of (?mx - ?ini) \<noteq> 0" "?ini > ?mn \<Longrightarrow> pages_of (?ini - ?mn) \<noteq> 0"
    using diff_pages(1) [of ?ini ?mx] diff_pages(1) [of ?mn ?ini] s b by auto
  moreover have "pages_of ?mn \<noteq> 0" if "\<not> ?mx > ?ini" "\<not> ?ini > ?mn"
  proof -
    have "?mn = ?ini" "?ini = ?mx" using that s by auto
    then have "?mn \<noteq> 0" using calculation(1) by auto
    then show ?thesis by (rule pages_of_pos(1) [OF _ s(4) b(1)])
  qed
  ultimately show ?thesis by (simp add: rsrv_layouts_def region_layouts_def entry_of_def)
qed

lemma unat_ROUND_TO_PAGE:
  assumes "unat x + 4095 < 2 ^ 64"
  shows "unat (ROUND_TO_PAGE x) = (unat x + 4095) div 4096 * 4096"
proof -
  have "unat (x + (SE_PAGE_SIZE - 1)) = unat x + 4095" using assms by (simp add: SE_PAGE_SIZE_def unat_word_ariths)
  then show ?thesis
    using unat_and_not_mask [of "x + (SE_PAGE_SIZE - 1)" 12]
    by (simp add: ROUND_TO_PAGE_def ROUND_TO_def page_mask_eq minus_mod_eq_div_mult)
qed

lemma rev_map_last: "xs \<noteq> [] \<Longrightarrow> rev (map f xs) = f (last xs) # rev (map f (butlast xs))"
  by (cases xs rule: rev_cases) auto

lemma nonempty_repeated:
  assumes "es \<noteq> []" "le_page_count (last es) \<noteq> 0" "(of_nat (length es) :: u16) \<noteq> 0" "n > 0"
  shows "nonempty_end (rev (repeated es n))"
  using assms rev_map_last [OF assms(1), of LEntry] by (auto simp: repeated_def group_of_def)

lemma td_pages:
  assumes "case tls of None \<Rightarrow> True | Some sec \<Rightarrow> unat (sec_virtual_size sec) < 2 ^ 43"
  shows "le_page_count (last (thread_layouts cp tls off)) \<noteq> 0"
proof -
  let ?n = "case tls of None \<Rightarrow> 0 | Some sec \<Rightarrow> pages_of (ROUND_TO_PAGE (sec_virtual_size sec))"
  have "unat ?n \<le> 2 ^ 31 + 1"
  proof (cases tls)
    case (Some sec)
    have "unat (ROUND_TO_PAGE (sec_virtual_size sec)) \<le> 2 ^ 43 + 4095"
      using assms Some unat_ROUND_TO_PAGE [of "sec_virtual_size sec"] by simp
    then show ?thesis
      using Some by (simp add: pages_of_def SE_PAGE_SHIFT_def drop_bit_eq_div unsigned_ucast_eq take_bit_eq_mod unat_div)
  qed simp
  then have "unat (1 + ?n) \<noteq> 0" by (simp add: unat_word_ariths)
  then have "1 + ?n \<noteq> 0" by (metis unat_0)
  then show ?thesis by (simp add: thread_layouts_def entry_of_def)
qed

lemma all_layouts_nonempty:
  assumes "page_sizes (cp_rsrv_min_size cp) (cp_rsrv_init_size cp) (cp_rsrv_max_size cp)"
    and "case tls of None \<Rightarrow> True | Some sec \<Rightarrow> unat (sec_virtual_size sec) < 2 ^ 43"
  shows "nonempty_end (rev (all_layouts cp tls off))"
proof -
  let ?es = "thread_layouts cp tls off"
  obtain pool er where st: "static_threads cp = (pool, er)" by fastforce
  have len: "(of_nat (length ?es) :: u16) \<noteq> 0" "?es \<noteq> []" using length_thread_layouts [of cp tls off] by auto
  note td = td_pages [OF assms(2), of cp off]
  have last_map: "le_page_count (last (map f ?es)) \<noteq> 0" if "\<And>e. le_page_count (f e) = le_page_count e" for f
    using that len(2) td by (simp add: last_map)
  have dyn: "nonempty_end (rev (dynamic_layouts ?es cp pool))" if "cp_tcs_max_num cp > pool + 1"
  proof -
    have "rev (map (LEntry \<circ> dynamic_entry) ?es)
        = LEntry (dynamic_entry (last ?es)) # rev (map (LEntry \<circ> dynamic_entry) (butlast ?es))"
      using rev_map_last [OF len(2), of "LEntry \<circ> dynamic_entry"] by simp
    moreover have "cp_tcs_max_num cp - pool - 1 \<noteq> 0" using that by (auto simp: diff_eq_eq add.commute)
    ultimately show ?thesis using that len(1) td by (simp add: dynamic_layouts_def group_of_def)
  qed
  have parts1: "dynamic_layouts ?es cp pool = [] \<or> nonempty_end (rev (dynamic_layouts ?es cp pool))"
    using dyn by (cases "cp_tcs_max_num cp > pool + 1") (simp_all add: dynamic_layouts_def)
  have parts2: "repeated es n = [] \<or> nonempty_end (rev (repeated es n))" if "es = ?es \<or> es = map eremove_entry ?es" for es n
  proof (cases "n > 0")
    case True
    then show ?thesis
      using that len td last_map [of eremove_entry] nonempty_repeated [OF _ _ _ True, of es] by auto
  qed (simp add: repeated_def)
  note parts = parts1 parts2
  have "nonempty_end (rev (map (LEntry \<circ> utility_entry) ?es))"
    using rev_map_last [OF len(2), of "LEntry \<circ> utility_entry"] td by simp
  moreover define hu where "hu = map LEntry (heap_layouts cp) @ map (LEntry \<circ> utility_entry) ?es"
  ultimately have "nonempty_end (rev hu)" by (simp add: nonempty_end_append)
  moreover note parts
  moreover have "map LEntry (rsrv_layouts cp) = [] \<or> nonempty_end (rev (map LEntry (rsrv_layouts cp)))"
    using rsrv_nonempty [OF assms(1)] by auto
  ultimately have "nonempty_end (rev ((((hu @ repeated ?es pool) @ repeated (map eremove_entry ?es) er)
      @ dynamic_layouts ?es cp pool) @ map LEntry (rsrv_layouts cp)))"
    by (intro nonempty_rev_append) simp_all
  then show ?thesis by (simp add: all_layouts_def Let_def st hu_def)
qed

end
