(* ===== verification/Metadata_Accepted.thy ===== *)
theory Metadata_Accepted
  imports Layout_Assign
begin

text \<open>
  The metadata that \<^verbatim>\<open>CMetadata::build_metadata\<close> of the signing tool writes are metadata that
  \<^verbatim>\<open>CLoader::validate_metadata\<close> of the loader accepts, and the global data template in them gives the
  run-time library of the enclave the configured heap: the three components agree on the structures that
  pass between them. For 64-bit ELF files.
\<close>

unbundle bit_operations_syntax

section \<open>The enclave size\<close>

lemma unat_pow2: "k < 64 \<Longrightarrow> unat (2 ^ k :: u64) = 2 ^ k"
proof -
  assume "k < 64"
  then have "(2 :: nat) ^ k < 2 ^ 64" by (intro power_strict_increasing) simp_all
  then have "unat (of_nat (2 ^ k) :: u64) = 2 ^ k" unfolding unat_of_nat by simp
  then show ?thesis by simp
qed

lemma double_to_step:
  assumes "j \<le> k" "k < 64" "unat sz \<le> 2 ^ k" "\<forall>i. j \<le> i \<longrightarrow> i < k \<longrightarrow> 2 ^ i < unat sz"
  shows "double_to sz (2 ^ j) = 2 ^ k"
  using assms
proof (induction "k - j" arbitrary: j)
  case 0
  then have "j = k" by simp
  moreover have "unat (2 ^ k :: u64) = 2 ^ k" using assms(2) by (rule unat_pow2)
  ultimately show ?case using assms(3) by (simp add: double_to.simps word_less_nat_alt)
next
  case (Suc n)
  then have jk: "j < k" by simp
  have p: "unat (2 ^ j :: u64) = 2 ^ j" "unat (2 ^ Suc j :: u64) = 2 ^ Suc j"
    using jk Suc.prems(2) by (auto intro!: unat_pow2 simp del: power_Suc)
  have "2 ^ j < unat sz" using Suc.prems(4) jk by simp
  then have "(2 ^ j :: u64) < sz" using p by (simp add: word_less_nat_alt)
  moreover have "push_bit 1 (2 ^ j :: u64) = 2 ^ Suc j" by (simp add: push_bit_eq_mult)
  moreover have "(2 ^ j :: u64) \<noteq> 0" "(2 ^ Suc j :: u64) \<noteq> 0" using jk Suc.prems(2) by (simp_all del: power_Suc)
  moreover have "double_to sz (2 ^ Suc j) = 2 ^ k"
    using Suc by (intro Suc.hyps(1)) simp_all
  ultimately show ?case by (subst double_to.simps) (simp del: power_Suc)
qed

lemma double_to_1:
  assumes "unat sz \<le> 2 ^ 63"
  shows "\<exists>k<64. double_to sz 1 = 2 ^ k \<and> unat sz \<le> 2 ^ k \<and> (\<forall>i<k. 2 ^ i < unat sz)"
proof -
  let ?k = "LEAST k. unat sz \<le> 2 ^ k"
  have k: "unat sz \<le> 2 ^ ?k" using assms by (rule LeastI)
  have "?k \<le> 63" using assms by (rule Least_le)
  moreover have least: "2 ^ i < unat sz" if "i < ?k" for i using not_less_Least [OF that] by simp
  ultimately have "double_to sz 1 = 2 ^ ?k" using double_to_step [of 0 ?k sz] k by simp
  then show ?thesis using \<open>?k \<le> 63\<close> k least by (intro exI [of _ ?k]) auto
qed

lemma double_to_overflow:
  assumes "j \<le> 63" "2 ^ 63 < unat sz"
  shows "double_to sz (2 ^ j) = - 1"
  using assms(1)
proof (induction "63 - j" arbitrary: j)
  case 0
  then have "(2 ^ j :: u64) < sz" "push_bit 1 (2 ^ j :: u64) = 0"
    using assms(2) unat_pow2 [of j] by (simp_all add: word_less_nat_alt push_bit_eq_mult)
  then show ?case using 0 by (subst double_to.simps) simp
next
  case (Suc n)
  have "(2 :: nat) ^ j \<le> 2 ^ 63" using Suc.prems by (intro power_increasing) simp_all
  then have lt: "(2 ^ j :: u64) < sz" using assms(2) unat_pow2 [of j] Suc.prems by (simp add: word_less_nat_alt)
  have nz: "(2 ^ j :: u64) \<noteq> 0" "(2 ^ Suc j :: u64) \<noteq> 0" using Suc by (simp_all del: power_Suc)
  have "push_bit 1 (2 ^ j :: u64) = 2 ^ Suc j" by (simp add: push_bit_eq_mult)
  moreover have "double_to sz (2 ^ Suc j) = - 1" using Suc by (intro Suc.hyps(1)) simp_all
  ultimately show ?case using lt nz by (subst double_to.simps) (simp del: power_Suc)
qed

text \<open>
  C18: \<^verbatim>\<open>calculate_enclave_size\<close> always returns: the smallest power of two that holds the given size, or the
  error value if no such power is within the maximum of the parser. Doubling past 64 bits is an error too.
\<close>
theorem calculate_enclave_size_least:
  "calculate_enclave_size P sz =
     (if \<exists>k. unat sz \<le> 2 ^ k \<and> 2 ^ k \<le> unat (mp_enclave_max_size P) then 2 ^ (LEAST k. unat sz \<le> 2 ^ k) else - 1)"
proof (cases "unat sz \<le> 2 ^ 63")
  case True
  then obtain k where k: "k < 64" "double_to sz 1 = 2 ^ k" "unat sz \<le> 2 ^ k" "\<forall>i<k. 2 ^ i < unat sz"
    using double_to_1 by blast
  have least: "(LEAST k. unat sz \<le> 2 ^ k) = k"
    using k(3,4) by (intro Least_equality) (auto simp: not_le [symmetric] intro: leI)
  have "(\<exists>k'. unat sz \<le> 2 ^ k' \<and> 2 ^ k' \<le> unat (mp_enclave_max_size P)) \<longleftrightarrow> 2 ^ k \<le> unat (mp_enclave_max_size P)"
  proof
    assume "\<exists>k'. unat sz \<le> 2 ^ k' \<and> 2 ^ k' \<le> unat (mp_enclave_max_size P)"
    then obtain k' where k': "unat sz \<le> 2 ^ k'" "2 ^ k' \<le> unat (mp_enclave_max_size P)" by blast
    then have "k \<le> k'" using k(4) by (meson leI not_le)
    then have "(2 :: nat) ^ k \<le> 2 ^ k'" by (intro power_increasing) simp_all
    then show "2 ^ k \<le> unat (mp_enclave_max_size P)" using k'(2) by linarith
  qed (use k(3) in blast)
  then show ?thesis
    using k(2,3) least unat_pow2 [OF k(1)]
    by (auto simp: calculate_enclave_size_def Let_def word_less_nat_alt)
next
  case False
  then have "double_to sz 1 = - 1" using double_to_overflow [of 0 sz] by simp
  moreover have "\<not> (\<exists>k. unat sz \<le> 2 ^ k \<and> 2 ^ k \<le> unat (mp_enclave_max_size P))"
  proof
    assume "\<exists>k. unat sz \<le> 2 ^ k \<and> 2 ^ k \<le> unat (mp_enclave_max_size P)"
    then obtain k where k: "unat sz \<le> 2 ^ k" "2 ^ k \<le> unat (mp_enclave_max_size P)" by blast
    have "(2 :: nat) ^ 63 < 2 ^ k" using False k(1) by linarith
    then have "63 < k" by (rule power_less_imp_less_exp [rotated]) simp
    then have "(2 :: nat) ^ 64 \<le> 2 ^ k" by (intro power_increasing) simp_all
    then show False using k(2) unat_less_exp [of "mp_enclave_max_size P"] by simp
  qed
  ultimately show ?thesis by (auto simp: calculate_enclave_size_def Let_def)
qed

section \<open>Looking records up\<close>

lemma as_entry_erase: "as_entry (erase l) = (as_entry l)\<lparr>le_rva := 0\<rparr>"
  by (cases l) simp_all

lemma add_dynamic_erase: "add_dynamic i (map erase ls) = add_dynamic i ls"
  by (simp add: add_dynamic_def fold_map comp_def fun_eq_iff cong: if_cong)

lemma add_dynamic_append: "add_dynamic i (xs @ ys) sz = add_dynamic i ys (add_dynamic i xs sz)"
  by (simp add: add_dynamic_def)

lemma add_dynamic_none: "(\<And>l. l \<in> set ls \<Longrightarrow> layout_id l \<noteq> i) \<Longrightarrow> add_dynamic i ls sz = sz"
  by (induction ls arbitrary: sz) (simp_all add: add_dynamic_def)

lemma extended_split:
  assumes "ls \<noteq> []" "list_all well_tagged ls"
  obtains xs e where "extended x ls = xs @ [LEntry e]" "le_id e \<in> {10, 20, 21, 22}"
    and "ls = xs \<or> (\<exists>l. ls = xs @ [l] \<and> layout_id l \<in> {20, 21, 22})"
proof (cases "extends_rsrv (as_entry (last ls))")
  case True
  then obtain e where e: "last ls = LEntry e" using extends_rsrv_entry assms by (metis last_in_set list_all_iff)
  show ?thesis
  proof (rule that)
    show "extended x ls = butlast ls @ [LEntry (e\<lparr>le_page_count := le_page_count e + x\<rparr>)]"
      using True e by (simp add: extended_def)
    show "le_id (e\<lparr>le_page_count := le_page_count e + x\<rparr>) \<in> {10, 20, 21, 22}"
      using True e by (auto simp: extends_rsrv_def layout_ids)
    have "layout_id (LEntry e) \<in> {20, 21, 22}" using True e by (auto simp: extends_rsrv_def layout_ids)
    moreover have "ls = butlast ls @ [LEntry e]" using assms(1) e by (metis append_butlast_last_id)
    ultimately show "ls = butlast ls \<or> (\<exists>l. ls = butlast ls @ [l] \<and> layout_id l \<in> {20, 21, 22})" by blast
  qed
next
  case False
  then show ?thesis
    using that [of ls "entry_of LAYOUT_ID_GUARD x 0 0 0 0"] by (simp add: extended_def entry_of_def layout_ids)
qed

lemma set_extended:
  assumes "ls \<noteq> []" "list_all well_tagged ls"
  shows "l \<in> set (extended x ls) \<Longrightarrow> l \<in> set ls \<or> layout_id l \<in> {10, 20, 21, 22}"
    and "l \<in> set ls \<Longrightarrow> layout_id l \<notin> {20, 21, 22} \<Longrightarrow> l \<in> set (extended x ls)"
    and "i \<notin> {10, 20, 21, 22} \<Longrightarrow> add_dynamic i (extended x ls) sz = add_dynamic i ls sz"
    and "length (extended x ls) \<le> length ls + 1"
    and "list_all well_tagged (extended x ls)"
proof -
  obtain xs e where x: "extended x ls = xs @ [LEntry e]" "le_id e \<in> {10, 20, 21, 22}"
      "ls = xs \<or> (\<exists>l. ls = xs @ [l] \<and> layout_id l \<in> {20, 21, 22})"
    using extended_split [OF assms] .
  show "l \<in> set (extended x ls) \<Longrightarrow> l \<in> set ls \<or> layout_id l \<in> {10, 20, 21, 22}" using x by auto
  show "l \<in> set ls \<Longrightarrow> layout_id l \<notin> {20, 21, 22} \<Longrightarrow> l \<in> set (extended x ls)" using x by auto
  show "length (extended x ls) \<le> length ls + 1" using x by auto
  have "well_tagged (LEntry e)" using x(2) by (auto simp: IS_GROUP_ID_def GROUP_FLAG_def)
  then show "list_all well_tagged (extended x ls)" using x(1,3) assms(2) by auto
  show "add_dynamic i (extended x ls) sz = add_dynamic i ls sz" if "i \<notin> {10, 20, 21, 22}"
    using x that by (auto simp: add_dynamic_append) (auto simp: add_dynamic_def)
qed

lemma tcs_entries:
  assumes "l \<in> set (all_layouts cp tls off)" "layout_id l = LAYOUT_ID_TCS"
  shows "le_content_size (as_entry l) = TCS_TEMPLATE_SIZE"
proof -
  have t: "le_content_size e = TCS_TEMPLATE_SIZE" if "e \<in> set (thread_layouts cp tls off)" "le_id e = LAYOUT_ID_TCS" for e
    using that by (auto simp: thread_layouts_def guard_page_def entry_of_def layout_ids split: if_splits)
  from assms(1) show ?thesis
  proof (cases rule: all_layouts_cases)
    case (thread e f)
    have "le_id e \<in> {10, 7, 8, 4, 6, 5}" using thread_layouts_ids [OF thread(2)] by (simp add: layout_ids)
    moreover have "le_id (dynamic_entry e) = (if le_id e = 10 then 10 else 10 + le_id e)"
      by (simp add: dynamic_entry_def layout_ids)
    ultimately have "le_id e = LAYOUT_ID_TCS" using thread(1,3) assms(2) by (auto simp: LAYOUT_ID_TCS_def)
    then show ?thesis using t [OF thread(2)] thread(1,3) by auto
  next
    case (heap e)
    then show ?thesis using region_layouts_facts [of e] assms(2) by (fastforce simp: heap_layouts_def layout_ids)
  next
    case (rsrv e)
    then show ?thesis using region_layouts_facts [of e] assms(2) by (fastforce simp: rsrv_layouts_def layout_ids split: if_splits)
  qed (use assms(2) in \<open>auto simp: layout_ids\<close>)
qed

lemma ids_present:
  assumes "i \<in> {LAYOUT_ID_HEAP_MIN, LAYOUT_ID_STACK_MIN, LAYOUT_ID_TCS, LAYOUT_ID_SSA, LAYOUT_ID_TD}"
  shows "\<exists>l \<in> set (all_layouts cp tls off). layout_id l = i"
proof -
  have "LAYOUT_ID_HEAP_MIN \<in> le_id ` set (heap_layouts cp)"
    by (simp add: heap_layouts_def region_layouts_def entry_of_def)
  moreover have "{LAYOUT_ID_STACK_MIN, LAYOUT_ID_TCS, LAYOUT_ID_SSA, LAYOUT_ID_TD} \<subseteq> le_id ` set (thread_layouts cp tls off)"
    by (simp add: thread_layouts_def entry_of_def)
  ultimately have "i \<in> le_id ` set (heap_layouts cp) \<union> le_id ` set (thread_layouts cp tls off)" using assms by blast
  then consider e where "e \<in> set (heap_layouts cp)" "le_id e = i" | e where "e \<in> set (thread_layouts cp tls off)" "le_id e = i"
    by blast
  then show ?thesis
  proof cases
    case (1 e)
    then have "LEntry e \<in> set (all_layouts cp tls off)" by (simp add: all_layouts_def Let_def case_prod_unfold)
    then show ?thesis using 1 by (intro bexI [of _ "LEntry e"]) simp_all
  next
    case (2 e)
    then have "LEntry (utility_entry e) \<in> set (all_layouts cp tls off)" by (simp add: all_layouts_def Let_def case_prod_unfold)
    then show ?thesis using 2 by (intro bexI [of _ "LEntry (utility_entry e)"]) simp_all
  qed
qed

lemma first_size_erase: "first_size i (map erase ls) = first_size i ls"
  by (induction ls) (simp_all add: first_size_def)

lemma all_layouts_hd:
  obtains ls where "all_layouts cp tls off
    = LEntry (entry_of LAYOUT_ID_HEAP_MIN (pages_of (cp_heap_min_size cp)) PAGE_ATTR_EADD SI_FLAGS_RW 0 0) # ls"
  by (simp add: all_layouts_def Let_def case_prod_unfold heap_layouts_def region_layouts_def)

lemma all_layouts_first_size:
  "first_size LAYOUT_ID_HEAP_MIN (all_layouts cp tls off) = push_bit SE_PAGE_SHIFT (ucast (pages_of (cp_heap_min_size cp)))"
  "first_size LAYOUT_ID_HEAP_MIN (extended x (all_layouts cp tls off))
     = push_bit SE_PAGE_SHIFT (ucast (pages_of (cp_heap_min_size cp)))"
proof -
  let ?hm = "LEntry (entry_of LAYOUT_ID_HEAP_MIN (pages_of (cp_heap_min_size cp)) PAGE_ATTR_EADD SI_FLAGS_RW 0 0)"
  obtain ls where ls: "all_layouts cp tls off = ?hm # ls" by (rule all_layouts_hd)
  obtain xs e where x: "extended x (all_layouts cp tls off) = xs @ [LEntry e]"
      "all_layouts cp tls off = xs \<or> (\<exists>l. all_layouts cp tls off = xs @ [l] \<and> layout_id l \<in> {20, 21, 22})"
    using extended_split [OF _ all_layouts_tagged, of cp tls off x] ls by (metis list.distinct(1))
  have "layout_id ?hm = 1" by (simp add: entry_of_def layout_ids)
  then obtain ys where "xs = ?hm # ys" using x(2) ls by (cases xs) auto
  then show "first_size LAYOUT_ID_HEAP_MIN (all_layouts cp tls off) = push_bit SE_PAGE_SHIFT (ucast (pages_of (cp_heap_min_size cp)))"
    "first_size LAYOUT_ID_HEAP_MIN (extended x (all_layouts cp tls off))
     = push_bit SE_PAGE_SHIFT (ucast (pages_of (cp_heap_min_size cp)))"
    using ls x(1) by (simp_all add: first_size_def layout_bytes_def entry_of_def)
qed

lemma all_layouts_heap_max:
  "add_dynamic LAYOUT_ID_HEAP_MAX (all_layouts cp tls off) sz
     = sz + (if cp_heap_max_size cp > cp_heap_init_size cp
             then push_bit SE_PAGE_SHIFT (ucast (pages_of (cp_heap_max_size cp - cp_heap_init_size cp))) else 0)"
proof -
  let ?rest = "drop (length (heap_layouts cp)) (all_layouts cp tls off)"
  have split: "all_layouts cp tls off = map LEntry (heap_layouts cp) @ ?rest"
    by (simp add: all_layouts_def Let_def case_prod_unfold)
  have "layout_id l \<noteq> LAYOUT_ID_HEAP_MAX" if "l \<in> set ?rest" for l
  proof -
    have no: "LAYOUT_ID_HEAP_MAX \<notin> le_id ` set (rsrv_layouts cp)" "LAYOUT_ID_HEAP_MAX \<notin> le_id ` set (thread_layouts cp tls off)"
        "LAYOUT_ID_HEAP_MAX \<notin> (le_id \<circ> dynamic_entry) ` set (thread_layouts cp tls off)"
      using region_layouts_facts thread_layouts_ids
      by (fastforce simp: rsrv_layouts_def dynamic_entry_def layout_ids split: if_splits)+
    from that have "l \<in> (LEntry \<circ> utility_entry) ` set (thread_layouts cp tls off) \<union> LEntry ` set (thread_layouts cp tls off)
        \<union> (LEntry \<circ> eremove_entry) ` set (thread_layouts cp tls off) \<union> (LEntry \<circ> dynamic_entry) ` set (thread_layouts cp tls off)
        \<union> LEntry ` set (rsrv_layouts cp) \<union> {LGroup g |g. lg_id g \<in> {LAYOUT_ID_THREAD_GROUP, LAYOUT_ID_THREAD_GROUP_DYN}}"
      by (auto simp: all_layouts_def Let_def case_prod_unfold repeated_def dynamic_layouts_def group_of_def split: if_splits)
    then show ?thesis using no by (auto simp: layout_ids)
  qed
  then have "add_dynamic LAYOUT_ID_HEAP_MAX (all_layouts cp tls off) sz
      = add_dynamic LAYOUT_ID_HEAP_MAX (map LEntry (heap_layouts cp)) sz"
    by (subst split, subst add_dynamic_append) (rule add_dynamic_none)
  then show ?thesis
    by (simp add: heap_layouts_def region_layouts_def add_dynamic_def layout_bytes_def entry_of_def layout_ids)
qed

text \<open>The final table: that of the tool, perhaps with extra pages, and with addresses.\<close>

definition laid_out :: "layout_t list \<Rightarrow> layout_t list \<Rightarrow> bool" where
  "laid_out L ls \<longleftrightarrow> map erase L = map erase ls \<or> (\<exists>x. map erase L = map erase (extended x ls))"

lemma erase_content: "le_content_size (as_entry (erase l)) = le_content_size (as_entry l)"
  by (simp add: as_entry_erase)

lemma found_erase:
  assumes "map erase L = map erase ls" "l \<in> set ls" "layout_id l = i"
  obtains e where "get_entry_by_id L i = Some e"
    and "\<exists>l' \<in> set ls. layout_id l' = i \<and> le_content_size (as_entry l') = le_content_size e"
proof -
  have img: "erase ` set L = erase ` set ls" using arg_cong [OF assms(1), of set] by simp
  have "erase l \<in> erase ` set L" using img assms(2) by blast
  then obtain k0 where "k0 \<in> set L" "erase k0 = erase l" by auto
  then have "layout_id k0 = i" using assms(3) by (metis erase_simps(1))
  then obtain k where k: "find (\<lambda>l. layout_id l = i) L = Some k" 
    using \<open>k0 \<in> set L\<close> by (cases "find (\<lambda>l. layout_id l = i) L") (auto simp: find_None_iff)
  then have kL: "k \<in> set L" "layout_id k = i" by (auto simp: find_Some_iff)
  then obtain l' where l': "l' \<in> set ls" "erase l' = erase k" using img by (metis imageE imageI)
  have "layout_id l' = i" using l'(2) kL(2) by (metis erase_simps(1))
  moreover have "le_content_size (as_entry l') = le_content_size (as_entry k)" using l'(2) by (metis erase_content)
  ultimately show ?thesis using that [of "as_entry k"] k l'(1) by (auto simp: get_entry_by_id_def)
qed

lemma laid_out_facts:
  assumes "laid_out L (all_layouts cp tls off)"
  shows "length L \<le> 42" "list_all well_tagged L"
    and "add_dynamic LAYOUT_ID_HEAP_MAX L sz = add_dynamic LAYOUT_ID_HEAP_MAX (all_layouts cp tls off) sz"
    and "first_size LAYOUT_ID_HEAP_MIN L = first_size LAYOUT_ID_HEAP_MIN (all_layouts cp tls off)"
    and "i \<in> {LAYOUT_ID_HEAP_MIN, LAYOUT_ID_STACK_MIN, LAYOUT_ID_TCS, LAYOUT_ID_SSA, LAYOUT_ID_TD} \<Longrightarrow>
      \<exists>e. get_entry_by_id L i = Some e \<and> (i = LAYOUT_ID_TCS \<longrightarrow> le_content_size e = TCS_TEMPLATE_SIZE)"
proof -
  let ?ls = "all_layouts cp tls off"
  have ne: "?ls \<noteq> []" using all_layouts_hd [of cp tls off] by (metis list.distinct(1))
  note ext = set_extended [OF ne all_layouts_tagged]
  obtain ls x where ls: "map erase L = map erase ls" "ls = ?ls \<or> ls = extended x ?ls"
    using assms unfolding laid_out_def by blast
  show "length L \<le> 42"
    using same_erase(1) [OF ls(1)] ls(2) ext(4) [of x] all_layouts_length [of cp tls off] by auto
  show "list_all well_tagged L"
    using same_erase(3) [OF ls(1)] ls(2) all_layouts_tagged ext(5) [of x] by auto
  show "add_dynamic LAYOUT_ID_HEAP_MAX L sz = add_dynamic LAYOUT_ID_HEAP_MAX ?ls sz"
  proof -
    have "add_dynamic LAYOUT_ID_HEAP_MAX L sz = add_dynamic LAYOUT_ID_HEAP_MAX ls sz"
      using add_dynamic_erase [of _ L] add_dynamic_erase [of _ ls] ls(1) by simp
    then show ?thesis using ls(2) ext(3) [of LAYOUT_ID_HEAP_MAX x sz] by (auto simp: layout_ids)
  qed
  show "first_size LAYOUT_ID_HEAP_MIN L = first_size LAYOUT_ID_HEAP_MIN ?ls"
  proof -
    have "first_size LAYOUT_ID_HEAP_MIN L = first_size LAYOUT_ID_HEAP_MIN ls"
      using first_size_erase [of _ L] first_size_erase [of _ ls] ls(1) by simp
    then show ?thesis using ls(2) all_layouts_first_size by auto
  qed
  assume i: "i \<in> {LAYOUT_ID_HEAP_MIN, LAYOUT_ID_STACK_MIN, LAYOUT_ID_TCS, LAYOUT_ID_SSA, LAYOUT_ID_TD}"
  obtain l where "l \<in> set ?ls" "layout_id l = i" using ids_present [OF i] by blast
  then have "l \<in> set ls" using ls(2) ext(2) [of l x] i by (auto simp: layout_ids)
  then obtain e l' where e: "get_entry_by_id L i = Some e" "l' \<in> set ls" "layout_id l' = i"
      "le_content_size (as_entry l') = le_content_size e"
    using found_erase [OF ls(1) _ \<open>layout_id l = i\<close>] by blast
  moreover have "l' \<in> set ?ls" using e(2,3) ls(2) ext(1) [of l' x] i by (auto simp: layout_ids)
  ultimately show "\<exists>e. get_entry_by_id L i = Some e \<and> (i = LAYOUT_ID_TCS \<longrightarrow> le_content_size e = TCS_TEMPLATE_SIZE)"
    using tcs_entries [of l' cp tls off] by auto
qed

section \<open>The stages of the tool\<close>

text \<open>
  What a 64-bit ELF file and a checked configuration must satisfy: the entry point and the global data
  have symbols, the global data lie in the file below the end of the sections, and sections and layout
  fit into the largest power of two below the maximal enclave size.
\<close>

definition signable :: "meta_parser \<Rightarrow> create_param_t \<Rightarrow> bool" where
  "signable P cp \<longleftrightarrow>
     mp_bin_format P = BF_ELF64 \<and> mp_enclave_max_size P = 0x1FFFFFFFFF
     \<and> (case mp_tls_section P of None \<Rightarrow> True | Some sec \<Rightarrow> unat (sec_virtual_size sec) < 2 ^ 43)
     \<and> mp_symbol_rva P ''enclave_entry'' \<noteq> 0 \<and> mp_symbol_rva P ''g_global_data'' \<noteq> 0
     \<and> calculate_sections_size (mp_sections P) \<noteq> 0
     \<and> unat (calculate_sections_size (mp_sections P)) + total_bytes [] (all_layouts cp (mp_tls_section P) 1888) \<le> 2 ^ 36
     \<and> unat (get_rawdata_by_rva (mp_start_addr P) (mp_sections P) (mp_symbol_rva P ''g_global_data'') - mp_start_addr P) + 1632
         \<le> unat (calculate_sections_size (mp_sections P))"

lemma modify_metadata_ok:
  assumes "check_xml_parameter ps zero_create_param = Some cp"
  obtains m where "modify_metadata (Some t) P ps CMetadata = Some (CMetadata\<lparr>m_create_param := cp, m_metadata := m\<rparr>)"
    and "md_size m = 1888" "md_version m = META_DATA_MAKE_VERSION MAJOR_VERSION MINOR_VERSION" "md_ssa_frame_size m = 1"
    and "md_tcs_policy m = ucast (value_of ps TCSPOLICY)" "attr_xfrm (md_attributes m) = 0xE7"
proof -
  obtain css where css: "fill_enclave_css (Some t) (mp_bin_format P) ps (md_enclave_css (m_metadata CMetadata)) = Some css"
      "attr_xfrm (css_attributes css) = SGX_XFRM_LEGACY"
      "attr_xfrm (css_attribute_mask css) = SGX_XFRM_LEGACY OR SGX_XFRM_RESERVED"
    by (cases t) (auto simp: fill_enclave_css_def get_time_def Let_def)
  have "NOT (SGX_XFRM_LEGACY OR SGX_XFRM_RESERVED) OR SGX_XFRM_LEGACY AND (SGX_XFRM_LEGACY OR SGX_XFRM_RESERVED) = 0xE7"
    by (simp add: SGX_XFRM_LEGACY_def SGX_XFRM_RESERVED_def SGX_XFRM_AVX_def SGX_XFRM_AVX512_def)
  then show ?thesis
    using that assms css by (simp add: modify_metadata_def CMetadata_def METADATA_DATA_OFFSET_def SSA_FRAME_SIZE_def)
qed

lemma xsave_size_ok: "get_xsave_size 0xE7 = Some 2688"
  by (simp add: get_xsave_size_def xsave_size_table_def SGX_XFRM_LEGACY_def SGX_XFRM_RESERVED_def SGX_XFRM_AVX_def
      SGX_XFRM_AVX512_def SGX_XFRM_MPX_def)

lemma alloc_ok:
  assumes "unat (md_size m) + unat sz \<le> 20480"
  shows "alloc_buffer_from_metadata sz m = Some (md_size m, m\<lparr>md_size := md_size m + sz\<rparr>)"
proof -
  have "unat (md_size m + sz) = unat (md_size m) + unat sz" using assms by (simp add: unat_word_ariths)
  then show ?thesis
    using assms by (simp add: alloc_buffer_from_metadata_def METADATA_SIZE_def word_less_nat_alt Let_def)
qed

lemma build_layout_table_ok:
  assumes "md_size (m_metadata s) = 1888" "m_layouts s = []" "mp_symbol_rva P ''enclave_entry'' \<noteq> 0"
    and "calculate_sections_size (mp_sections P) \<noteq> 0"
    and "assign_rvas (calculate_sections_size (mp_sections P)) []
           (all_layouts (m_create_param s) (mp_tls_section P) 1888) = (L, r)"
  obtains tcs where "length tcs = 72"
    and "build_layout_table P s = Some (s\<lparr>m_layouts := L, m_rva := r,
      m_metadata := (m_metadata s)\<lparr>md_size := 1960, md_mem := wr (md_mem (m_metadata s)) 1888 tcs\<rparr>\<rparr>)"
proof -
  let ?ls = "all_layouts (m_create_param s) (mp_tls_section P) 1888"
  have "map erase L = map erase ?ls" using erase_assign_rvas assms(5) by (metis fst_conv)
  then have "laid_out L ?ls" by (simp add: laid_out_def)
  note f = laid_out_facts(5) [OF this]
  obtain ssa tcs td where "get_entry_by_id L LAYOUT_ID_SSA = Some ssa" "get_entry_by_id L LAYOUT_ID_TCS = Some tcs"
      "get_entry_by_id L LAYOUT_ID_TD = Some td"
    using f [of LAYOUT_ID_SSA] f [of LAYOUT_ID_TCS] f [of LAYOUT_ID_TD] by auto
  then obtain tb where tb: "build_tcs_template P L = Some tb" "length tb = 72"
    using assms(3) by (simp add: build_tcs_template_def Let_def)
  have al: "alloc_buffer_from_metadata TCS_TEMPLATE_SIZE m = Some (1888, m\<lparr>md_size := 1960\<rparr>)" if "md_size m = 1888" for m
    using alloc_ok [of m TCS_TEMPLATE_SIZE] that by (simp add: TCS_TEMPLATE_SIZE_def)
  have "build_layout_table P s = Some (s\<lparr>m_layouts := L, m_rva := r,
      m_metadata := (m_metadata s)\<lparr>md_size := 1960, md_mem := wr (md_mem (m_metadata s)) 1888 tb\<rparr>\<rparr>)"
    using assms tb(1) by (cases s) (simp add: build_layout_table_def al update_layout_entries_def wr_data_def Let_def)
  then show ?thesis using that tb(2) by blast
qed

definition tool_patches :: "meta_parser \<Rightarrow> patch_entry_t list" where
  "tool_patches P = [
     \<lparr>pe_dst = get_rawdata_by_rva (mp_start_addr P) (mp_sections P) (mp_symbol_rva P ''g_global_data'') - mp_start_addr P,
      pe_src = 1960, pe_size = 1632\<rparr>,
     \<lparr>pe_dst = 60, pe_src = 3592, pe_size = 2\<rparr>, \<lparr>pe_dst = 40, pe_src = 3592, pe_size = 8\<rparr>,
     \<lparr>pe_dst = 62, pe_src = 3592, pe_size = 2\<rparr>]"

lemma build_patch_table_ok:
  assumes "md_size (m_metadata s) = 1960" "mp_bin_format P = BF_ELF64" "mp_symbol_rva P ''g_global_data'' \<noteq> 0"
  shows "build_patch_table P s = Some (s\<lparr>m_gd_size := 1632, m_gd_template := 1960,
    m_metadata := (m_metadata s)\<lparr>md_size := 3728, md_dir_patch := \<lparr>dd_offset = 3600, dd_size = 128\<rparr>,
      md_mem := wr (wr (md_mem (m_metadata s)) 3592 (replicate 8 0)) 3600 (concat (map encode_patch (tool_patches P)))\<rparr>\<rparr>)"
proof -
  have al: "alloc_buffer_from_metadata get_global_data_size m = Some (1960, m\<lparr>md_size := 3592\<rparr>)" if "md_size m = 1960" for m
    using alloc_ok [of m get_global_data_size] that by (simp add: get_global_data_size_def sizeof_global_data_def)
  have al0: "alloc_buffer_from_metadata 0 m = Some (3592, m)" if "md_size m = 3592" for m
    using alloc_ok [of m 0] that by simp
  have al8: "alloc_buffer_from_metadata 8 m = Some (3592, m\<lparr>md_size := 3600\<rparr>)" if "md_size m = 3592" for m
    using alloc_ok [of m 8] that by simp
  have alp: "alloc_buffer_from_metadata 128 m = Some (3600, m\<lparr>md_size := 3728\<rparr>)" if "md_size m = 3600" for m
    using alloc_ok [of m 128] that by simp
  have sz: "get_global_data_size = 1632" by (simp add: get_global_data_size_def sizeof_global_data_def)
  have h: "header_patches P 3592 = [\<lparr>pe_dst = 60, pe_src = 3592, pe_size = 2\<rparr>, \<lparr>pe_dst = 40, pe_src = 3592, pe_size = 8\<rparr>,
     \<lparr>pe_dst = 62, pe_src = 3592, pe_size = 2\<rparr>]" using assms(2) by (simp add: header_patches_def)
  have mx: "max_patch_size [\<lparr>pe_dst = 60, pe_src = 3592, pe_size = 2\<rparr>, \<lparr>pe_dst = 40, pe_src = 3592, pe_size = 8\<rparr>,
     \<lparr>pe_dst = 62, pe_src = 3592, pe_size = 2\<rparr>] = 8" by (simp add: max_patch_size_def)
  show ?thesis using assms(1,3)
    by (cases s) (simp add: build_patch_table_def al al0 al8 alp mx build_patch_entries_def wr_data_def Let_def h tool_patches_def sz [symmetric])
qed

lemma add_extra_pages_keeps [simp]:
  "m_metadata (add_extra_pages es s) = m_metadata s" "m_gd_size (add_extra_pages es s) = m_gd_size s"
  "m_gd_template (add_extra_pages es s) = m_gd_template s"
  "cp_heap_init_size (m_create_param (add_extra_pages es s)) = cp_heap_init_size (m_create_param s)"
  by (simp_all add: add_extra_pages_def Let_def)

lemma add_extra_pages_metadata [simp]:
  "add_extra_pages es (s\<lparr>m_metadata := m\<rparr>) = (add_extra_pages es s)\<lparr>m_metadata := m\<rparr>"
  by (cases s) (simp add: add_extra_pages_def Let_def)

lemma unat_of_nat_32: "n < 2 ^ 32 \<Longrightarrow> unat (of_nat n :: u32) = n"
  by (simp add: unat_of_nat)

lemma build_layout_entries_ok:
  assumes "md_size (m_metadata s) = 3728" "calculate_enclave_size P (m_rva s) = es" "es \<noteq> - 1"
    and "m_layouts (add_extra_pages es s) = L" "length L \<le> 42"
  shows "build_layout_entries P s = Some ((add_extra_pages es s)\<lparr>
    m_metadata := (m_metadata s)\<lparr>md_enclave_size := es, md_size := of_nat (3728 + 32 * length L),
      md_dir_layout := \<lparr>dd_offset = 3728, dd_size = of_nat (32 * length L)\<rparr>,
      md_mem := wr (md_mem (m_metadata s)) 3728 (concat (map encode_layout L))\<rparr>\<rparr>)"
proof -
  have u: "unat (of_nat (32 * length L) :: u32) = 32 * length L" using assms(5) by (intro unat_of_nat_32) simp
  have al: "alloc_buffer_from_metadata (of_nat (32 * length L)) m = Some (3728, m\<lparr>md_size := of_nat (3728 + 32 * length L)\<rparr>)"
    if "md_size m = 3728" for m
    using alloc_ok [of m "of_nat (32 * length L)"] that assms(5) unfolding u by simp
  show ?thesis
    using assms(1-4) al by (simp add: build_layout_entries_def Let_def mult.commute [of "of_nat (length L) :: u32" 32] wr_data_def)
qed

lemma layout_written:
  assumes "md_dir_layout m = \<lparr>dd_offset = 3728, dd_size = of_nat (32 * length L)\<rparr>" "length L \<le> 42" "list_all well_tagged L"
    and "rd (md_mem m) 3728 (32 * length L) = concat (map encode_layout L)"
  shows "layout_table m = L"
  unfolding layout_table_def
proof (rule table_of_written)
  show "unat (dd_size (md_dir_layout m)) = 32 * length L"
    using unat_of_nat_32 [of "32 * length L"] assms(2) unfolding assms(1) by simp
  show "rd (md_mem m) (unat (dd_offset (md_dir_layout m))) (32 * length L) = concat (map encode_layout L)"
    using assms(1,4) by simp
qed (use assms(3) decode_encode_layout in \<open>auto simp: list_all_iff\<close>)

lemma length_concat_encode [simp]:
  "length (concat (map encode_layout L)) = 32 * length L" "length (concat (map encode_patch ps)) = 32 * length ps"
  by (induction L, simp_all, induction ps, simp_all)

lemma rd_wr_other:
  "off + n \<le> a \<or> a + length bs \<le> off \<Longrightarrow> rd (wr mem a bs) off n = rd mem off n"
  by (rule nth_equalityI) (auto simp: wr_def)

lemma length_concat_u64s [simp]: "length (concat (map (le_bytes n) ws)) = n * length ws"
  by (induction ws) simp_all

lemma update_global_data_ok:
  assumes "layout_table m = L" "laid_out L (all_layouts cp tls off)"
  obtains g where "do_update_global_data m cp' zero_global_data = Some g" "used_layouts g = L"
    and "gd_heap_size g = cp_heap_init_size cp'" "length (global_data_bytes g) = 1632"
proof -
  note f = laid_out_facts(5) [OF assms(2)]
  obtain heap tcs where e: "get_entry_by_id L LAYOUT_ID_HEAP_MIN = Some heap" "get_entry_by_id L LAYOUT_ID_TCS = Some tcs"
      "le_content_size tcs = 72"
    using f [of LAYOUT_ID_HEAP_MIN] f [of LAYOUT_ID_TCS] by (auto simp: TCS_TEMPLATE_SIZE_def)
  have "\<exists>G. do_update_global_data m cp' zero_global_data = copy_layouts L G \<and> gd_layout_entry_num G = 0
      \<and> gd_layout_table G = gd_layout_table zero_global_data \<and> length (gd_tcs_template G) = 72
      \<and> length (td_cxx_thread_info (gd_td_template G)) = 6 \<and> gd_heap_size G = cp_heap_init_size cp'"
    unfolding do_update_global_data_def Let_def assms(1) e option.case
    by (cases "get_entry_by_id L LAYOUT_ID_RSRV_MIN"; simp; rule exI; rule conjI [OF refl])
      (simp_all add: zero_global_data_def zero_thread_data_def)
  then obtain G where G: "do_update_global_data m cp' zero_global_data = copy_layouts L G" "gd_layout_entry_num G = 0"
      "gd_layout_table G = gd_layout_table zero_global_data" "length (gd_tcs_template G) = 72"
      "length (td_cxx_thread_info (gd_td_template G)) = 6" "gd_heap_size G = cp_heap_init_size cp'"
    by blast
  have len: "length L \<le> LAYOUT_ENTRY_NUM" using laid_out_facts(1) [OF assms(2)] by (simp add: LAYOUT_ENTRY_NUM_def)
  have n: "unat (of_nat (length L) :: u32) = length L" using len by (intro unat_of_nat_32) (simp add: LAYOUT_ENTRY_NUM_def)
  have lt: "length (gd_layout_table G) = LAYOUT_ENTRY_NUM" using G(3) by (simp add: zero_global_data_def)
  let ?g = "G\<lparr>gd_layout_table := L @ drop (length L) (gd_layout_table G), gd_layout_entry_num := of_nat (length L)\<rparr>"
  have "copy_layouts L G = Some ?g" using copy_layouts_table [of G 0 L] len lt G(2) by simp
  moreover have "length (global_data_bytes ?g) = 1632"
    using G(4,5) lt len by (simp add: global_data_bytes_def thread_data_bytes_def LAYOUT_ENTRY_NUM_def)
  moreover have "used_layouts ?g = L" using n lt len by (simp add: used_layouts_def)
  ultimately show ?thesis using that [of ?g] G(1,6) by simp
qed

lemma build_gd_template_ok:
  assumes "attr_xfrm (md_attributes (m_metadata s)) = 0xE7" "m_gd_size s = 1632"
    and "layout_table (m_metadata s) = m_layouts s" "laid_out (m_layouts s) (all_layouts cp tls off)"
  obtains cp' g where "build_gd_template P s
      = Some (wr_data (m_gd_template s) (global_data_bytes g) (s\<lparr>m_create_param := cp', m_gd_size := 1632\<rparr>), g)"
    and "used_layouts g = m_layouts s" "gd_heap_size g = cp_heap_init_size (m_create_param s)" "length (global_data_bytes g) = 1632"
proof -
  note f = laid_out_facts(5) [OF assms(4)]
  obtain e1 e2 e3 e4 e5 where e: "get_entry_by_id (m_layouts s) LAYOUT_ID_STACK_MIN = Some e1"
      "get_entry_by_id (m_layouts s) LAYOUT_ID_TCS = Some e2" "get_entry_by_id (m_layouts s) LAYOUT_ID_SSA = Some e3"
      "get_entry_by_id (m_layouts s) LAYOUT_ID_HEAP_MIN = Some e4" "get_entry_by_id (m_layouts s) LAYOUT_ID_TD = Some e5"
    using f [of LAYOUT_ID_STACK_MIN] f [of LAYOUT_ID_TCS] f [of LAYOUT_ID_SSA] f [of LAYOUT_ID_HEAP_MIN]
      f [of LAYOUT_ID_TD] by auto
  obtain cp' where cp': "set_addresses P s 2688 = Some cp'" "cp_heap_init_size cp' = cp_heap_init_size (m_create_param s)"
    by (simp add: set_addresses_def e Let_def)
  obtain g where g: "do_update_global_data (m_metadata s) cp' zero_global_data = Some g" "used_layouts g = m_layouts s"
      "gd_heap_size g = cp_heap_init_size cp'" "length (global_data_bytes g) = 1632"
    using update_global_data_ok [OF assms(3,4)] by metis
  show ?thesis
    using that [of g cp'] g cp' assms(1,2)
    by (simp add: build_gd_template_def xsave_size_ok update_global_data_def sizeof_global_data_def Let_def)
qed

section \<open>The values of a checked configuration\<close>

lemma para_types_length: "length para_types = 27"
  by (simp add: para_types_def)

lemma param_map:
  assumes "length ps = 27"
  shows "param (map f ps) t = f (param ps t)"
proof -
  have "t \<in> set para_types" by (cases t) (simp_all add: para_types_def)
  then obtain v where "map_of (zip para_types ps) t = Some v"
    using assms para_types_length by (metis map_of_zip_is_Some)
  moreover have "map_of (zip para_types (map f ps)) = map_option f \<circ> map_of (zip para_types ps)"
    by (simp add: zip_map2 map_of_map)
  ultimately show ?thesis by (simp add: param_def)
qed

lemma param_in_set: "length ps = 27 \<Longrightarrow> param ps t \<in> set ps"
proof -
  assume l: "length ps = 27"
  have "t \<in> set para_types" by (cases t) (simp_all add: para_types_def)
  then obtain v where "map_of (zip para_types ps) t = Some v"
    using l para_types_length by (metis map_of_zip_is_Some)
  then show ?thesis by (auto simp: param_def dest!: map_of_SomeD set_zip_rightD)
qed

lemma parsed_values:
  assumes "parse_metadata_file load_xml path default_parameters = Some ps"
  shows "value_of ps t \<le> xp_max_value (param default_parameters t)"
proof -
  obtain es where ps: "ps = map (configured es) default_parameters" "\<forall>p \<in> set default_parameters. in_range (configured es p)"
  proof (cases path)
    case None
    have "configured [] = (\<lambda>p. p)" by (simp add: configured_def named_def fun_eq_iff)
    then show ?thesis using that [of "[]"] assms None default_in_range by (simp add: parse_metadata_file_def)
  next
    case (Some f)
    then obtain children where "parse_elements children default_parameters = Some ps"
      using assms by (auto simp: parse_metadata_file_def split: option.splits if_splits)
    from parse_elements_Some [OF this default_names] show ?thesis
      using that [of children] default_in_range by blast
  qed
  have len: "length default_parameters = 27" by (simp add: default_parameters_def)
  have "xp_max_value (configured es p) = xp_max_value p" for p by (simp add: configured_def split: list.splits)
  then show ?thesis
    using ps(2) param_in_set [OF len, of t] param_map [OF len, of "configured es" t]
    by (auto simp: value_of_def ps(1) in_range_def)
qed

lemma unaligned_unat: "\<not> unaligned ps t \<longleftrightarrow> unat (value_of ps t) mod 4096 = 0"
proof -
  have "\<not> unaligned ps t \<longleftrightarrow> unat (value_of ps t mod ALIGN_SIZE) = 0" by (simp add: unaligned_def unat_eq_0)
  then show ?thesis by (simp add: ALIGN_SIZE_def unat_mod)
qed

lemma checked_values:
  assumes "check_xml_parameter ps zero_create_param = Some cp"
    and "unat (value_of ps HEAPMAXSIZE) < 2 ^ 44" "unat (value_of ps RSRVMAXSIZE) < 2 ^ 44"
  shows "page_sizes (cp_heap_min_size cp) (cp_heap_init_size cp) (cp_heap_max_size cp)"
    and "page_sizes (cp_rsrv_min_size cp) (cp_rsrv_init_size cp) (cp_rsrv_max_size cp)"
    and "cp_heap_max_size cp = value_of ps HEAPMAXSIZE" "cp_heap_min_size cp = value_of ps HEAPMINSIZE"
    and "cp_heap_init_size cp = (if given ps HEAPINITSIZE then value_of ps HEAPINITSIZE else value_of ps HEAPMAXSIZE)"
proof -
  have c: "\<not> (unaligned ps HEAPMAXSIZE \<or> unaligned ps HEAPMINSIZE \<or> unaligned ps HEAPINITSIZE)"
      "\<not> bad_sizes ps HEAPMAXSIZE HEAPMINSIZE HEAPINITSIZE"
      "\<not> (unaligned ps RSRVMAXSIZE \<or> unaligned ps RSRVMINSIZE \<or> unaligned ps RSRVINITSIZE)"
      "\<not> bad_sizes ps RSRVMAXSIZE RSRVMINSIZE RSRVINITSIZE"
    and cp: "cp = create_param_of ps zero_create_param"
    using assms(1) by (simp_all add: check_xml_parameter_def split: if_split_asm)
  show v: "cp_heap_max_size cp = value_of ps HEAPMAXSIZE" "cp_heap_min_size cp = value_of ps HEAPMINSIZE"
      "cp_heap_init_size cp = (if given ps HEAPINITSIZE then value_of ps HEAPINITSIZE else value_of ps HEAPMAXSIZE)"
    by (simp_all add: cp create_param_of_def)
  have r: "cp_rsrv_max_size cp = value_of ps RSRVMAXSIZE" "cp_rsrv_min_size cp = value_of ps RSRVMINSIZE"
      "cp_rsrv_init_size cp = (if given ps RSRVINITSIZE then value_of ps RSRVINITSIZE else value_of ps RSRVMAXSIZE)"
    by (simp_all add: cp create_param_of_def)
  show "page_sizes (cp_heap_min_size cp) (cp_heap_init_size cp) (cp_heap_max_size cp)"
    using c(1,2) assms(2) by (cases "given ps HEAPINITSIZE") (simp_all add: v page_sizes_def bad_sizes_def unaligned_unat not_less)
  show "page_sizes (cp_rsrv_min_size cp) (cp_rsrv_init_size cp) (cp_rsrv_max_size cp)"
    using c(3,4) assms(3) by (cases "given ps RSRVINITSIZE") (simp_all add: r page_sizes_def bad_sizes_def unaligned_unat not_less)
qed

text \<open>The heap that the run-time library sees.\<close>

lemma page_bytes_of:
  assumes "unat x mod 4096 = 0" "unat x < 2 ^ 44"
  shows "push_bit SE_PAGE_SHIFT (ucast (pages_of x) :: u64) = x"
proof (cases "x = 0")
  case False
  from pages_of_pos(2) [OF this assms] have "unat (push_bit SE_PAGE_SHIFT (ucast (pages_of x) :: u64)) = unat x"
    by (simp add: unat_page_bytes)
  then show ?thesis by (simp only: word_unat_eq_iff)
qed (simp add: pages_of_def)

lemma heap_sizes:
  assumes "used_layouts g = L" "laid_out L (all_layouts cp tls off)" "gd_heap_size g = cp_heap_init_size cp"
    and "page_sizes (cp_heap_min_size cp) (cp_heap_init_size cp) (cp_heap_max_size cp)"
  shows "get_heap_size True g = cp_heap_max_size cp" "get_heap_min_size g = cp_heap_min_size cp"
proof -
  let ?mn = "cp_heap_min_size cp" and ?ini = "cp_heap_init_size cp" and ?mx = "cp_heap_max_size cp"
  have s: "?mn \<le> ?ini" "?ini \<le> ?mx" "unat ?mx < 2 ^ 44" "unat ?mn mod 4096 = 0" "unat ?ini mod 4096 = 0" "unat ?mx mod 4096 = 0"
    using assms(4) by (auto simp: page_sizes_def)
  have d: "push_bit SE_PAGE_SHIFT (ucast (pages_of (?mx - ?ini))) = ?mx - ?ini" if "?mx > ?ini"
  proof (rule page_bytes_of)
    have u: "unat (?mx - ?ini) = unat ?mx - unat ?ini" using s(2) by (simp add: unat_sub)
    show "unat (?mx - ?ini) mod 4096 = 0" unfolding u using s(5,6) by (auto simp: mod_eq_0_iff_dvd intro: dvd_diff_nat)
    show "unat (?mx - ?ini) < 2 ^ 44" unfolding u using s(3) by linarith
  qed
  have "?ini = ?mx" if "\<not> ?mx > ?ini" using that s(2) by simp
  then show "get_heap_size True g = ?mx"
    using assms(1,3) d by (auto simp: get_heap_size_def laid_out_facts(3) [OF assms(2)] all_layouts_heap_max)
  have "unat ?mn < 2 ^ 44" using s(1-3) by (simp add: word_le_nat_alt)
  then show "get_heap_min_size g = ?mn"
    using page_bytes_of [OF s(4)] assms(1)
    by (simp add: get_heap_min_size_def laid_out_facts(4) [OF assms(2)] all_layouts_first_size(1))
qed

section \<open>The loader accepts what the tool wrote\<close>

lemma tool_metadata_valid:
  assumes "md_version m = META_DATA_MAKE_VERSION MAJOR_VERSION MINOR_VERSION" "md_tcs_policy m \<le> 1" "md_ssa_frame_size m = 1"
    and "md_enclave_size m = 2 ^ k" "k < 64" "2 ^ k \<le> max_size" "12 \<le> k"
    and "md_size m = of_nat (3728 + 32 * n)" "1 \<le> n" "n \<le> 42"
    and "md_dir_patch m = \<lparr>dd_offset = 3600, dd_size = 128\<rparr>" "md_dir_layout m = \<lparr>dd_offset = 3728, dd_size = of_nat (32 * n)\<rparr>"
    and "patch_table m = tool_patches P" "validate_layout_table m = SGX_SUCCESS"
    and "unat (get_rawdata_by_rva (mp_start_addr P) (mp_sections P) (mp_symbol_rva P ''g_global_data'') - mp_start_addr P) + 1632 \<le> 2 ^ k"
  shows "validate_metadata max_size (Some m) = SGX_SUCCESS"
proof -
  have sz: "unat (md_size m) = 3728 + 32 * n" "unat (of_nat (32 * n) :: u32) = 32 * n"
    using assms(8,10) unat_of_nat_32 [of "3728 + 32 * n"] unat_of_nat_32 [of "32 * n"] by auto
  have k: "unat (2 ^ k :: u64) = 2 ^ k" using assms(5) by (rule unat_pow2)
  have "(2 :: nat) ^ 12 \<le> 2 ^ k" using assms(7) by (intro power_increasing) simp_all
  then have big: "(4096 :: nat) \<le> 2 ^ k" by simp
  have mb: "is_metadata_buffer m (pe_src p) (pe_size p)" and eb: "is_enclave_buffer m (pe_dst p) (ucast (pe_size p))"
    if "p \<in> set (tool_patches P)" for p
    using that sz(1) assms(4,9,15) k big by (auto simp: is_metadata_buffer_iff is_enclave_buffer_iff tool_patches_def)
  have "is_metadata_buffer m 3600 128" "is_metadata_buffer m 3728 (of_nat (32 * n))"
    using sz assms(9) by (simp_all only: is_metadata_buffer_iff) simp_all
  moreover have "validate_patch_table m = SGX_SUCCESS" using mb eb by (simp add: validate_patch_table_def assms(13))
  moreover have "shift_out (md_enclave_size m) = 1" using shift_out_of_pow2 assms(4,5) by simp
  ultimately show ?thesis
    using assms by (simp add: validate_metadata_def TCS_POLICY_UNBIND_def SSA_FRAME_SIZE_MIN_def SSA_FRAME_SIZE_MAX_def not_less)
qed

lemma calculate_enclave_size_fits:
  assumes "mp_enclave_max_size P = 0x1FFFFFFFFF" "unat r \<le> 2 ^ 36" "4096 \<le> unat r"
  obtains k where "calculate_enclave_size P r = 2 ^ k" "12 \<le> k" "k \<le> 36" "unat r \<le> 2 ^ k"
proof -
  obtain k where k: "k < 64" "double_to r 1 = 2 ^ k" "unat r \<le> 2 ^ k" "\<forall>i<k. 2 ^ i < unat r"
    using double_to_1 [of r] assms(2) by auto
  have "k \<le> 36"
  proof (rule ccontr)
    assume "\<not> k \<le> 36"
    then have "36 < k" by simp
    then have "2 ^ 36 < unat r" by (rule k(4) [rule_format])
    then show False using assms(2) by simp
  qed
  moreover have "12 \<le> k"
  proof (rule ccontr)
    assume "\<not> 12 \<le> k"
    then have "(2 :: nat) ^ k \<le> 2 ^ 11" by (intro power_increasing) simp_all
    then show False using k(3) assms(3) by simp
  qed
  moreover have "unat (2 ^ k :: u64) \<le> 2 ^ 36"
    unfolding unat_pow2 [OF k(1)] using \<open>k \<le> 36\<close> by (intro power_increasing) simp_all
  then have "calculate_enclave_size P r = 2 ^ k"
    using assms k(2) by (simp add: calculate_enclave_size_def Let_def word_less_nat_alt)
  ultimately show ?thesis using that k(3) by blast
qed

lemma total_bytes_dvd: "(\<And>x. x \<in> set sz \<Longrightarrow> 4096 dvd x) \<Longrightarrow> 4096 dvd total_bytes sz ls"
proof (induction sz ls rule: total_bytes.induct)
  case (2 sz e ls)
  have "4096 dvd total_bytes (entry_bytes (LEntry e) # sz) ls"
    using "2.prems" by (intro "2.IH") (auto simp: entry_bytes_def)
  moreover have "4096 dvd entry_bytes (LEntry e)" by (simp add: entry_bytes_def)
  ultimately show ?case by simp
next
  case (3 sz g ls)
  have "4096 dvd sum_list xs" if "\<And>x. x \<in> set xs \<Longrightarrow> 4096 dvd x" for xs :: "nat list"
    using that by (induction xs) auto
  then have "4096 dvd sum_list (take (unat (lg_entry_count g)) sz)" using "3.prems" in_set_takeD by metis
  moreover have "4096 dvd total_bytes (entry_bytes (LGroup g) # sz) ls"
    using "3.prems" by (intro "3.IH") (auto simp: entry_bytes_def)
  ultimately show ?case by (simp add: dvd_add dvd_mult)
qed simp

lemma assigned_end:
  assumes "assign_rvas r0 [] (all_layouts cp tls 1888) = (L, r)" "unat r0 + total_bytes [] (all_layouts cp tls 1888) \<le> 2 ^ 36"
  shows "unat r = unat r0 + total_bytes [] (all_layouts cp tls 1888)"
proof -
  let ?m = "zero_metadata\<lparr>md_enclave_size := 2 ^ 36, md_size := 1960\<rparr>"
  have "is_metadata_buffer ?m 1888 TCS_TEMPLATE_SIZE" by (simp add: is_metadata_buffer_iff TCS_TEMPLATE_SIZE_def)
  from assign_rvas_contiguous [OF assms(1) _ all_layouts_groups all_layouts_content [OF this]]
  show ?thesis using assms(2) by auto
qed

lemma sections_size_aligned: "unat (calculate_sections_size secs) mod 4096 = 0"
  unfolding calculate_sections_size_def ROUND_TO_PAGE_def ROUND_TO_def page_mask_eq
  by (subst unat_and_not_mask) (simp add: minus_mod_eq_mult_div)

text \<open>The last stages, on the state after the layout and patch tables.\<close>

lemma final_stages:
  fixes s2 :: cmetadata
  assumes "signable P cp" "page_sizes (cp_rsrv_min_size cp) (cp_rsrv_init_size cp) (cp_rsrv_max_size cp)"
    and "assign_rvas (calculate_sections_size (mp_sections P)) [] (all_layouts cp (mp_tls_section P) 1888) = (m_layouts s2, m_rva s2)"
  obtains k where "calculate_enclave_size P (m_rva s2) = 2 ^ k" "12 \<le> k" "k \<le> 36"
    and "unat (calculate_sections_size (mp_sections P)) \<le> 2 ^ k"
    and "laid_out (m_layouts (add_extra_pages (2 ^ k) s2)) (all_layouts cp (mp_tls_section P) 1888)"
    and "\<And>m. layout_table m = m_layouts (add_extra_pages (2 ^ k) s2) \<Longrightarrow> md_enclave_size m = 2 ^ k \<Longrightarrow>
           is_metadata_buffer m 1888 TCS_TEMPLATE_SIZE \<Longrightarrow> validate_layout_table m = SGX_SUCCESS"
proof -
  let ?ls = "all_layouts cp (mp_tls_section P) 1888" and ?r0 = "calculate_sections_size (mp_sections P)"
  have S: "mp_enclave_max_size P = 0x1FFFFFFFFF" "?r0 \<noteq> 0" "unat ?r0 + total_bytes [] ?ls \<le> 2 ^ 36"
      "case mp_tls_section P of None \<Rightarrow> True | Some sec \<Rightarrow> unat (sec_virtual_size sec) < 2 ^ 43"
    using assms(1) by (auto simp: signable_def)
  note al = sections_size_aligned [of "mp_sections P"]
  have ne: "?ls \<noteq> []" using all_layouts_hd [of cp "mp_tls_section P" 1888] by (metis list.distinct(1))
  have big: "4096 \<le> unat ?r0" using al S(2) by (metis dvd_imp_le mod_eq_0_iff_dvd unat_gt_0)
  have r: "unat (m_rva s2) = unat ?r0 + total_bytes [] ?ls" by (rule assigned_end [OF assms(3) S(3)])
  obtain k where k: "calculate_enclave_size P (m_rva s2) = 2 ^ k" "12 \<le> k" "k \<le> 36" "unat (m_rva s2) \<le> 2 ^ k"
    using calculate_enclave_size_fits [OF S(1), of "m_rva s2"] r S(3) big by auto
  have u: "unat (2 ^ k :: u64) = 2 ^ k" using k(3) by (intro unat_pow2) simp
  note nonempty = all_layouts_nonempty [OF assms(2) S(4), of 1888]
  show ?thesis
  proof (cases "m_rva s2 = 2 ^ k")
    case True
    then have L: "m_layouts (add_extra_pages (2 ^ k) s2) = fst (assign_rvas ?r0 [] ?ls)" using assms(3) by (simp add: add_extra_pages_def)
    show ?thesis
    proof (rule that [OF k(1-3)])
      show "laid_out (m_layouts (add_extra_pages (2 ^ k) s2)) ?ls" by (simp add: L laid_out_def erase_assign_rvas)
    next
      fix m assume "layout_table m = m_layouts (add_extra_pages (2 ^ k) s2)" "md_enclave_size m = 2 ^ k" "is_metadata_buffer m 1888 TCS_TEMPLATE_SIZE"
      then show "validate_layout_table m = SGX_SUCCESS"
        using L r u True al by (intro assigned_valid [OF all_layouts_groups all_layouts_content nonempty]) auto
    qed (use k(4) r in simp)
  next
    case False
    let ?x = "pages_of (2 ^ k - m_rva s2)"
    have d: "unat (2 ^ k - m_rva s2) = 2 ^ k - unat (m_rva s2)" using k(4) u by (simp add: unat_sub word_le_nat_alt)
    have "4096 dvd unat (m_rva s2)" using al r total_bytes_dvd [of "[]" ?ls] by auto
    moreover have "(4096 :: nat) dvd 2 ^ k" using k(2) le_imp_power_dvd [of 12 k "2 :: nat"] by simp
    ultimately have "unat (2 ^ k - m_rva s2) mod 4096 = 0" unfolding d by (simp add: dvd_diff_nat)
    moreover have "2 ^ k - m_rva s2 \<noteq> 0" using False by auto
    moreover have "(2 :: nat) ^ k \<le> 2 ^ 36" using k(3) by (intro power_increasing) simp_all
    then have "unat (2 ^ k - m_rva s2) < 2 ^ 44" unfolding d by simp
    ultimately have x: "?x \<noteq> 0" "4096 * unat ?x = 2 ^ k - unat (m_rva s2)" using pages_of_pos d by metis+
    have fits: "total_bytes [] ?ls div 4096 + unat ?x < 2 ^ 32" 
    proof -
      have "4096 * (total_bytes [] ?ls div 4096) \<le> total_bytes [] ?ls" by simp
      moreover have "total_bytes [] ?ls + 4096 * unat ?x \<le> 2 ^ k" using x(2) r k(4) by linarith
      ultimately show ?thesis using \<open>(2 :: nat) ^ k \<le> 2 ^ 36\<close> by simp
    qed
    note E = extended_facts [OF ne all_layouts_tagged all_layouts_groups _ x(1) fits]
    have L: "m_layouts (add_extra_pages (2 ^ k) s2) = fst (assign_rvas ?r0 [] (extended ?x ?ls))"
      using add_extra_pages_layouts [OF assms(3) ne all_layouts_tagged] False by simp
    show ?thesis
    proof (rule that [OF k(1-3)])
      show "laid_out (m_layouts (add_extra_pages (2 ^ k) s2)) ?ls" by (auto simp: L laid_out_def erase_assign_rvas)
    next
      fix m assume m: "layout_table m = m_layouts (add_extra_pages (2 ^ k) s2)" "md_enclave_size m = 2 ^ k" "is_metadata_buffer m 1888 TCS_TEMPLATE_SIZE"
      note c = all_layouts_content [OF m(3), of cp "mp_tls_section P"]
      show "validate_layout_table m = SGX_SUCCESS"
        using L m(1,2) r u al x(2) k(4) E(4) [OF c] by (intro assigned_valid [OF E(1-3) [OF c]]) auto
    qed (use k(4) r in simp)
  qed
qed

lemma patch_written:
  assumes "md_dir_patch m = \<lparr>dd_offset = 3600, dd_size = 128\<rparr>"
    and "rd (md_mem m) 3600 128 = concat (map encode_patch (tool_patches P))"
  shows "patch_table m = tool_patches P"
  unfolding patch_table_def
proof (rule table_of_written)
  show "rd (md_mem m) (unat (dd_offset (md_dir_patch m))) (32 * length (tool_patches P)) = concat (map encode_patch (tool_patches P))"
    using assms by (simp add: tool_patches_def)
qed (use assms(1) decode_encode_patch in \<open>auto simp: tool_patches_def\<close>)

lemma build_from_layout:
  assumes S: "signable P cp" and rsrv: "page_sizes (cp_rsrv_min_size cp) (cp_rsrv_init_size cp) (cp_rsrv_max_size cp)"
    and a: "assign_rvas (calculate_sections_size (mp_sections P)) [] (all_layouts cp (mp_tls_section P) 1888) = (m_layouts s2, m_rva s2)"
    and m: "md_size (m_metadata s2) = 1960" "md_version (m_metadata s2) = META_DATA_MAKE_VERSION MAJOR_VERSION MINOR_VERSION"
      "md_ssa_frame_size (m_metadata s2) = 1" "md_tcs_policy (m_metadata s2) \<le> 1" "attr_xfrm (md_attributes (m_metadata s2)) = 0xE7"
  obtains s g where "build_patch_table P s2 \<bind> build_layout_entries P \<bind> build_gd_template P = Some (s, g)"
    and "validate_metadata (mp_enclave_max_size P) (Some (m_metadata s)) = SGX_SUCCESS"
    and "rd (md_mem (m_metadata s)) (unat (m_gd_template s)) 1632 = global_data_bytes g"
    and "used_layouts g = layout_table (m_metadata s)" "gd_heap_size g = cp_heap_init_size (m_create_param s2)"
    and "laid_out (used_layouts g) (all_layouts cp (mp_tls_section P) 1888)"
proof -
  let ?ls = "all_layouts cp (mp_tls_section P) 1888"
  have P: "mp_bin_format P = BF_ELF64" "mp_symbol_rva P ''g_global_data'' \<noteq> 0" "mp_enclave_max_size P = 0x1FFFFFFFFF"
    using S by (auto simp: signable_def)
  define s3 where "s3 = s2\<lparr>m_gd_size := 1632, m_gd_template := 1960,
    m_metadata := (m_metadata s2)\<lparr>md_size := 3728, md_dir_patch := \<lparr>dd_offset = 3600, dd_size = 128\<rparr>,
      md_mem := wr (wr (md_mem (m_metadata s2)) 3592 (replicate 8 0)) 3600 (concat (map encode_patch (tool_patches P)))\<rparr>\<rparr>"
  have s3: "build_patch_table P s2 = Some s3" unfolding s3_def by (rule build_patch_table_ok [OF m(1) P(1,2)])
  have a3: "assign_rvas (calculate_sections_size (mp_sections P)) [] ?ls = (m_layouts s3, m_rva s3)" using a by (simp add: s3_def)
  obtain k where k: "calculate_enclave_size P (m_rva s3) = 2 ^ k" "12 \<le> k" "k \<le> 36"
      "unat (calculate_sections_size (mp_sections P)) \<le> 2 ^ k" "laid_out (m_layouts (add_extra_pages (2 ^ k) s3)) ?ls"
    and valid: "\<And>m. layout_table m = m_layouts (add_extra_pages (2 ^ k) s3) \<Longrightarrow> md_enclave_size m = 2 ^ k \<Longrightarrow>
           is_metadata_buffer m 1888 TCS_TEMPLATE_SIZE \<Longrightarrow> validate_layout_table m = SGX_SUCCESS"
    using final_stages [OF S rsrv a3] by metis
  define L where "L = m_layouts (add_extra_pages (2 ^ k) s3)"
  have L: "length L \<le> 42" "list_all well_tagged L" "laid_out L ?ls" using laid_out_facts(1,2) k(5) by (simp_all add: L_def)
  have "L \<noteq> []" using laid_out_facts(5) [OF L(3), of LAYOUT_ID_TCS] by (auto simp: get_entry_by_id_def)
  then have n: "1 \<le> length L" by (cases L) auto
  have "unat (2 ^ k :: u64) = 2 ^ k" using k(3) by (intro unat_pow2) simp
  moreover have "(2 :: nat) ^ k \<le> 2 ^ 36" using k(3) by (intro power_increasing) simp_all
  ultimately have es2: "(2 ^ k :: u64) \<le> 0x1FFFFFFFFF" by (simp add: word_le_nat_alt)
  have es1: "(2 ^ k :: u64) \<noteq> - 1"
  proof
    assume "(2 ^ k :: u64) = - 1"
    moreover have "\<not> bit (2 ^ k :: u64) 0" using k(2) by (simp add: bit_simps)
    ultimately show False by simp
  qed
  note es = es1 es2
  define M4 where "M4 = (m_metadata s3)\<lparr>md_enclave_size := 2 ^ k, md_size := of_nat (3728 + 32 * length L),
      md_dir_layout := \<lparr>dd_offset = 3728, dd_size = of_nat (32 * length L)\<rparr>,
      md_mem := wr (md_mem (m_metadata s3)) 3728 (concat (map encode_layout L))\<rparr>"
  define s4 where "s4 = (add_extra_pages (2 ^ k) s3)\<lparr>m_metadata := M4\<rparr>"
  have s4: "build_layout_entries P s3 = Some s4"
    unfolding s4_def M4_def by (rule build_layout_entries_ok [OF _ k(1) es(1) L_def [symmetric] L(1)]) (simp add: s3_def)
  have t4: "layout_table M4 = L" by (rule layout_written [OF _ L(1,2)]) (simp_all add: M4_def)
  obtain cp' g where g: "build_gd_template P s4
      = Some (wr_data (m_gd_template s4) (global_data_bytes g) (s4\<lparr>m_create_param := cp', m_gd_size := 1632\<rparr>), g)"
      "used_layouts g = m_layouts s4" "gd_heap_size g = cp_heap_init_size (m_create_param s4)" "length (global_data_bytes g) = 1632"
  proof -
    have "attr_xfrm (md_attributes (m_metadata s4)) = 0xE7" "m_gd_size s4 = 1632" using m(5) by (simp_all add: s4_def M4_def s3_def)
    moreover have "layout_table (m_metadata s4) = m_layouts s4" "laid_out (m_layouts s4) ?ls"
      using t4 L(3) by (simp_all add: s4_def L_def)
    ultimately show thesis using build_gd_template_ok that by metis
  qed
  let ?s5 = "wr_data (m_gd_template s4) (global_data_bytes g) (s4\<lparr>m_create_param := cp', m_gd_size := 1632\<rparr>)"
  have gt: "m_gd_template s3 = 1960" by (simp add: s3_def)
  show ?thesis
  proof (rule that [of ?s5 g])
    show "build_patch_table P s2 \<bind> build_layout_entries P \<bind> build_gd_template P = Some (?s5, g)" using s3 s4 g(1) by simp
    show "rd (md_mem (m_metadata ?s5)) (unat (m_gd_template ?s5)) 1632 = global_data_bytes g" using g(4) by (simp add: wr_data_def)
    have t5: "layout_table (m_metadata ?s5) = L"
      by (rule layout_written [OF _ L(1,2)]) (simp_all add: wr_data_def gt s4_def M4_def rd_wr_other g(4))
    then show "used_layouts g = layout_table (m_metadata ?s5)" using g(2) by (simp add: s4_def L_def)
    show "laid_out (used_layouts g) ?ls" using g(2) L(3) by (simp add: s4_def L_def)
    show "gd_heap_size g = cp_heap_init_size (m_create_param s2)" using g(3) by (simp add: s4_def s3_def)
    have p5: "patch_table (m_metadata ?s5) = tool_patches P"
      by (rule patch_written) (simp_all add: wr_data_def gt s4_def M4_def s3_def rd_wr_other g(4) tool_patches_def)
    have sz: "unat (of_nat (3728 + 32 * length L) :: u32) = 3728 + 32 * length L" using L(1) by (intro unat_of_nat_32) simp
    have "is_metadata_buffer (m_metadata ?s5) 1888 TCS_TEMPLATE_SIZE"
      unfolding is_metadata_buffer_iff using sz by (simp add: wr_data_def s4_def M4_def TCS_TEMPLATE_SIZE_def)
    then have v5: "validate_layout_table (m_metadata ?s5) = SGX_SUCCESS"
      using t5 by (intro valid) (simp_all add: L_def, simp add: wr_data_def s4_def M4_def)
    have raw: "unat (get_rawdata_by_rva (mp_start_addr P) (mp_sections P) (mp_symbol_rva P ''g_global_data'') - mp_start_addr P) + 1632 \<le> 2 ^ k"
      using S k(4) by (simp add: signable_def)
    show "validate_metadata (mp_enclave_max_size P) (Some (m_metadata ?s5)) = SGX_SUCCESS"
      by (rule tool_metadata_valid [OF _ _ _ _ _ _ k(2) _ n L(1) _ _ p5 v5 raw])
        (use m k(3) es(2) P(3) in \<open>simp_all add: wr_data_def s4_def M4_def s3_def\<close>)
  qed
qed

text \<open>
  C17: for a 64-bit ELF file and a configuration that passes its checks, with sections and layout that
  fit into the enclave, the signing tool builds the metadata; the loader's validation accepts them;
  the global data template lies at its place in them; and the run-time library that finds this
  template inside the enclave sees the layout table of the metadata and the configured heap, both the
  part that is always there and the whole one.
\<close>
theorem build_metadata_accepted:
  assumes "parse_metadata_file load_xml path default_parameters = Some ps"
    and "check_xml_parameter ps zero_create_param = Some cp" "signable P cp"
  shows "\<exists>s g. build_metadata (Some t) P ps = Some (s, g)
    \<and> validate_metadata (mp_enclave_max_size P) (Some (m_metadata s)) = SGX_SUCCESS
    \<and> rd (md_mem (m_metadata s)) (unat (m_gd_template s)) 1632 = global_data_bytes g
    \<and> used_layouts g = layout_table (m_metadata s)
    \<and> get_heap_size True g = value_of ps HEAPMAXSIZE \<and> get_heap_min_size g = value_of ps HEAPMINSIZE"
proof -
  have d: "xp_max_value (param default_parameters HEAPMAXSIZE) = 0x1FFFFFFFFF"
      "xp_max_value (param default_parameters RSRVMAXSIZE) = 0x1FFFFFFFFF" "xp_max_value (param default_parameters TCSPOLICY) = 1"
    by (simp_all add: param_def para_types_def default_parameters_def xml_param_def)
  have small: "unat (value_of ps HEAPMAXSIZE) < 2 ^ 44" "unat (value_of ps RSRVMAXSIZE) < 2 ^ 44" "value_of ps TCSPOLICY \<le> 1"
    using parsed_values [OF assms(1), of HEAPMAXSIZE] parsed_values [OF assms(1), of RSRVMAXSIZE]
      parsed_values [OF assms(1), of TCSPOLICY] by (auto simp: d word_le_nat_alt)
  note V = checked_values [OF assms(2) small(1,2)]
  let ?secs = "calculate_sections_size (mp_sections P)" and ?ls = "all_layouts cp (mp_tls_section P) 1888"
  obtain m1 where m1: "modify_metadata (Some t) P ps CMetadata = Some (CMetadata\<lparr>m_create_param := cp, m_metadata := m1\<rparr>)"
      "md_size m1 = 1888" "md_version m1 = META_DATA_MAKE_VERSION MAJOR_VERSION MINOR_VERSION" "md_ssa_frame_size m1 = 1"
      "md_tcs_policy m1 = ucast (value_of ps TCSPOLICY)" "attr_xfrm (md_attributes m1) = 0xE7"
    using modify_metadata_ok [OF assms(2)] by metis
  let ?s1 = "CMetadata\<lparr>m_create_param := cp, m_metadata := m1\<rparr>"
  obtain L0 r where a: "assign_rvas ?secs [] ?ls = (L0, r)" by fastforce
  obtain tcs where tcs: "build_layout_table P ?s1 = Some (?s1\<lparr>m_layouts := L0, m_rva := r,
      m_metadata := m1\<lparr>md_size := 1960, md_mem := wr (md_mem m1) 1888 tcs\<rparr>\<rparr>)"
    using build_layout_table_ok [of ?s1 P L0 r] assms(3) m1(2) a by (auto simp: CMetadata_def signable_def)
  let ?s2 = "?s1\<lparr>m_layouts := L0, m_rva := r, m_metadata := m1\<lparr>md_size := 1960, md_mem := wr (md_mem m1) 1888 tcs\<rparr>\<rparr>"
  have pol: "md_tcs_policy m1 \<le> 1"
    using small(3) by (simp add: m1(5) word_le_nat_alt unsigned_ucast_eq take_bit_eq_mod)
  obtain s g where g: "build_patch_table P ?s2 \<bind> build_layout_entries P \<bind> build_gd_template P = Some (s, g)"
      "validate_metadata (mp_enclave_max_size P) (Some (m_metadata s)) = SGX_SUCCESS"
      "rd (md_mem (m_metadata s)) (unat (m_gd_template s)) 1632 = global_data_bytes g"
      "used_layouts g = layout_table (m_metadata s)" "gd_heap_size g = cp_heap_init_size cp" "laid_out (used_layouts g) ?ls"
    using build_from_layout [OF assms(3) V(2), of ?s2] a m1 pol by auto
  have "build_metadata (Some t) P ps = Some (s, g)" using g(1) m1(1) tcs by (simp add: build_metadata_def)
  then show ?thesis using g heap_sizes [OF refl g(6,5) V(1)] V(3,4) by auto
qed

text \<open>An image with one section behind the header, no TLS section, and its two symbols; the default configuration.\<close>

definition example_parser :: meta_parser where
  "example_parser = \<lparr>mp_bin_format = BF_ELF64, mp_enclave_max_size = 0x1FFFFFFFFF,
     mp_sections = [\<lparr>sec_offset = 0, sec_raw_data_size = 0x8000, sec_virtual_size = 0x8000, sec_rva = 0x1000, sec_si_flags = 0\<rparr>],
     mp_tls_section = None,
     mp_symbol_rva = (\<lambda>n. if n = ''enclave_entry'' then 0x1100 else if n = ''g_global_data'' then 0x2000 else 0),
     mp_start_addr = 0x7f0000000000, mp_file = (\<lambda>a. 0)\<rparr>"

lemma example_check: "check_xml_parameter default_parameters zero_create_param = Some (create_param_of default_parameters zero_create_param)"
  by (simp add: check_xml_parameter_def unaligned_def bad_sizes_def bad_tcs_def given_def value_of_def param_def
      para_types_def default_parameters_def xml_param_def ALIGN_SIZE_def)

lemma example_total:
  "total_bytes [] (all_layouts (create_param_of default_parameters zero_create_param) None 1888) \<le> 2 ^ 30"
  by (simp add: all_layouts_def thread_layouts_def heap_layouts_def rsrv_layouts_def region_layouts_def static_threads_def
      create_param_of_def given_def value_of_def param_def para_types_def default_parameters_def xml_param_def
      zero_create_param_def entry_of_def guard_page_def utility_entry_def or_attributes_def repeated_def dynamic_layouts_def
      pages_of_def SE_PAGE_SHIFT_def SE_GUARD_PAGE_SIZE_def TCS_SIZE_def SE_PAGE_SIZE_def SSA_FRAME_SIZE_def SSA_NUM_def
      entry_bytes_def layout_ids)

lemma example_signable: "signable example_parser (create_param_of default_parameters zero_create_param)"
proof -
  have "calculate_sections_size (mp_sections example_parser) = 0x9000"
    by (simp add: example_parser_def calculate_sections_size_def ROUND_TO_PAGE_def ROUND_TO_def SE_PAGE_SIZE_def)
  moreover have "get_rawdata_by_rva (mp_start_addr example_parser) (mp_sections example_parser) 0x2000 - mp_start_addr example_parser = 0x1000"
    by (simp add: example_parser_def TRIM_TO_PAGE_def ROUND_TO_PAGE_def ROUND_TO_def SE_PAGE_SIZE_def Let_def)
  moreover have "mp_symbol_rva example_parser ''g_global_data'' = 0x2000" "mp_symbol_rva example_parser ''enclave_entry'' = 0x1100"
      "mp_tls_section example_parser = None" "mp_bin_format example_parser = BF_ELF64" "mp_enclave_max_size example_parser = 0x1FFFFFFFFF"
    by (simp_all add: example_parser_def)
  ultimately show ?thesis using example_total by (simp add: signable_def)
qed

theorem build_metadata_accepted_witness:
  "\<exists>s g. build_metadata (Some (126, 10, 15)) example_parser default_parameters = Some (s, g)
    \<and> validate_metadata 0x1FFFFFFFFF (Some (m_metadata s)) = SGX_SUCCESS \<and> get_heap_size True g = 0x1000000"
proof -
  have p: "parse_metadata_file (\<lambda>_. None) None default_parameters = Some default_parameters" by (simp add: parse_metadata_file_def)
  have "mp_enclave_max_size example_parser = 0x1FFFFFFFFF" "value_of default_parameters HEAPMAXSIZE = 0x1000000"
    by (simp_all add: example_parser_def value_of_def param_def para_types_def default_parameters_def xml_param_def)
  then show ?thesis using build_metadata_accepted [OF p example_check example_signable, of "(126, 10, 15)"] by auto
qed

end
