(* ===== verification/Thread_Queue.thy ===== *)
theory Thread_Queue
  imports Sgx_Prelude
begin

text \<open>
  The intrusive queue of \<^verbatim>\<open>sdk/tlibthread/sethread_internal.h\<close> on which trusted threads wait.
  A queue is a pair of thread pointers; the link to the next waiter is the field \<^verbatim>\<open>m_next\<close> of
  the thread data, which a thread has only once, whatever queue it is in. The links are
  therefore a store that all queues share. The theory states what a queue holds (\<open>queue_rep\<close>)
  and what the macros do to it and to the other queues, as an interface (\<open>fifo_queue\<close>) that the
  macros are shown to provide.
\<close>

section \<open>The macros\<close>

type_synonym sgx_thread_t = u64

definition SGX_THREAD_T_NULL :: sgx_thread_t where
  "SGX_THREAD_T_NULL = 0"

record sgx_thread_queue_t =
  m_first :: sgx_thread_t
  m_last :: sgx_thread_t

text \<open>The field \<^verbatim>\<open>m_next\<close> of every thread data.\<close>

type_synonym links = "sgx_thread_t \<Rightarrow> sgx_thread_t"

definition QUEUE_FIRST :: "sgx_thread_queue_t \<Rightarrow> sgx_thread_t" where
  "QUEUE_FIRST q = m_first q"

definition QUEUE_NEXT :: "links \<Rightarrow> sgx_thread_t \<Rightarrow> sgx_thread_t" where
  "QUEUE_NEXT nx elm = nx elm"

definition QUEUE_INIT :: sgx_thread_queue_t where
  "QUEUE_INIT = \<lparr>m_first = SGX_THREAD_T_NULL, m_last = SGX_THREAD_T_NULL\<rparr>"

definition QUEUE_INSERT_TAIL :: "sgx_thread_t \<Rightarrow> sgx_thread_queue_t \<Rightarrow> links \<Rightarrow> sgx_thread_queue_t \<times> links" where
  "QUEUE_INSERT_TAIL elm q nx =
     (let nx = nx(elm := SGX_THREAD_T_NULL) in
      if m_first q \<noteq> SGX_THREAD_T_NULL then (q\<lparr>m_last := elm\<rparr>, nx(m_last q := elm))
      else (q\<lparr>m_first := elm, m_last := elm\<rparr>, nx))"

definition QUEUE_REMOVE_HEAD :: "links \<Rightarrow> sgx_thread_queue_t \<Rightarrow> sgx_thread_queue_t" where
  "QUEUE_REMOVE_HEAD nx q =
     (let q = q\<lparr>m_first := QUEUE_NEXT nx (m_first q)\<rparr> in
      if m_first q = SGX_THREAD_T_NULL then q\<lparr>m_last := SGX_THREAD_T_NULL\<rparr> else q)"

text \<open>
  The loops over a queue. They follow the links, so that they need not end: \<^const>\<open>None\<close>.
  \<open>queue_find\<close> is the \<^verbatim>\<open>QUEUE_FOREACH\<close> loop that stops at the calling thread,
  \<open>queue_count\<close> is \<^verbatim>\<open>QUEUE_COUNT_ALL\<close>.
\<close>

partial_function (option) queue_find :: "links \<Rightarrow> sgx_thread_t \<Rightarrow> sgx_thread_t \<Rightarrow> sgx_thread_t option" where
  [code]: "queue_find nx self w =
     (if w = SGX_THREAD_T_NULL then Some w
      else if w = self then Some w
      else queue_find nx self (QUEUE_NEXT nx w))"

partial_function (option) queue_count :: "links \<Rightarrow> sgx_thread_t \<Rightarrow> u64 \<Rightarrow> u64 option" where
  [code]: "queue_count nx w n =
     (if w = SGX_THREAD_T_NULL then Some n else queue_count nx (QUEUE_NEXT nx w) (n + 1))"

section \<open>What a queue holds\<close>

text \<open>\<open>chain nx w ts\<close>: following the links from \<open>w\<close> visits exactly the threads \<open>ts\<close>.\<close>

fun chain :: "links \<Rightarrow> sgx_thread_t \<Rightarrow> sgx_thread_t list \<Rightarrow> bool" where
  "chain nx w [] = (w = SGX_THREAD_T_NULL)"
| "chain nx w (t # ts) = (w = t \<and> t \<noteq> SGX_THREAD_T_NULL \<and> chain nx (nx t) ts)"

definition queue_rep :: "links \<Rightarrow> sgx_thread_queue_t \<Rightarrow> sgx_thread_t list \<Rightarrow> bool" where
  "queue_rep nx q ts \<longleftrightarrow> distinct ts \<and> chain nx (m_first q) ts
     \<and> m_last q = (if ts = [] then SGX_THREAD_T_NULL else last ts)"

lemma chain_unchanged: "set ts \<inter> A = {} \<Longrightarrow> (\<And>t. t \<notin> A \<Longrightarrow> nx' t = nx t) \<Longrightarrow> chain nx' w ts = chain nx w ts"
  by (induction ts arbitrary: w) (auto simp: disjoint_iff)

lemma chain_null: "chain nx w ts \<Longrightarrow> SGX_THREAD_T_NULL \<notin> set ts"
  by (induction ts arbitrary: w) auto

lemma chain_snoc:
  assumes "chain nx w ts" "distinct ts" "ts \<noteq> []" "t \<notin> set ts" "t \<noteq> SGX_THREAD_T_NULL"
  shows "chain (nx(t := SGX_THREAD_T_NULL, last ts := t)) w (ts @ [t])"
  using assms
proof (induction ts arbitrary: w)
  case (Cons u us)
  show ?case
  proof (cases "us = []")
    case False
    then have "u \<noteq> last us" "u \<noteq> t" using Cons.prems by auto
    then show ?thesis using Cons.IH [of "nx u"] Cons.prems False by simp
  qed (use Cons.prems in auto)
qed simp

lemma queue_find_chain:
  "chain nx w ts \<Longrightarrow> queue_find nx self w = Some (if self \<in> set ts then self else SGX_THREAD_T_NULL)"
  by (induction ts arbitrary: w) (auto simp: queue_find.simps QUEUE_NEXT_def dest: chain_null)

lemma queue_count_chain: "chain nx w ts \<Longrightarrow> queue_count nx w n = Some (n + of_nat (length ts))"
  by (induction ts arbitrary: w n) (simp_all add: queue_count.simps QUEUE_NEXT_def ac_simps)

section \<open>The interface of a queue\<close>

text \<open>
  What the clients of the macros rely on: a queue delivers its threads in the order of their
  insertion, and inserting a thread leaves every other queue alone as long as the thread is in
  none of them. The last law is where the single link of a thread matters.
\<close>

locale fifo_queue =
  fixes rep :: "'links \<Rightarrow> 'queue \<Rightarrow> 'thread list \<Rightarrow> bool"
    and null :: 'thread
    and empty_queue :: 'queue
    and first :: "'queue \<Rightarrow> 'thread"
    and insert_tail :: "'thread \<Rightarrow> 'queue \<Rightarrow> 'links \<Rightarrow> 'queue \<times> 'links"
    and remove_head :: "'links \<Rightarrow> 'queue \<Rightarrow> 'queue"
  assumes rep_empty: "rep h empty_queue []"
    and rep_elements: "rep h q ts \<Longrightarrow> distinct ts \<and> null \<notin> set ts"
    and rep_first: "rep h q ts \<Longrightarrow> first q = (if ts = [] then null else hd ts)"
    and rep_insert: "rep h q ts \<Longrightarrow> t \<notin> set ts \<Longrightarrow> t \<noteq> null \<Longrightarrow> insert_tail t q h = (q', h') \<Longrightarrow> rep h' q' (ts @ [t])"
    and rep_remove: "rep h q (t # ts) \<Longrightarrow> rep h (remove_head h q) ts"
    and rep_other: "rep h q ts \<Longrightarrow> insert_tail t q h = (q', h') \<Longrightarrow> rep h p us \<Longrightarrow> set us \<inter> set ts = {}
      \<Longrightarrow> t \<notin> set us \<Longrightarrow> rep h' p us"
begin

lemma first_null_iff: "rep h q ts \<Longrightarrow> first q = null \<longleftrightarrow> ts = []"
  using rep_first rep_elements by (metis list.set_sel(1))

lemma first_unique: "rep h q ts \<Longrightarrow> rep h q us \<Longrightarrow> (ts = []) = (us = [])"
  using first_null_iff by metis

lemma remove_first: "rep h q ts \<Longrightarrow> first q \<noteq> null \<Longrightarrow> rep h (remove_head h q) (tl ts) \<and> ts = first q # tl ts"
  using first_null_iff rep_first rep_remove by (metis list.collapse)

text \<open>A family of queues over one store of links, none sharing a thread with another.\<close>

definition reps :: "'links \<Rightarrow> ('i \<Rightarrow> 'queue) \<Rightarrow> ('i \<Rightarrow> 'thread list) \<Rightarrow> bool" where
  "reps h qs ls \<longleftrightarrow> (\<forall>i. rep h (qs i) (ls i)) \<and> (\<forall>i j. i \<noteq> j \<longrightarrow> set (ls i) \<inter> set (ls j) = {})"

lemma reps_insert:
  assumes "reps h qs ls" "insert_tail t (qs i) h = (q', h')" "t \<noteq> null" "\<forall>j. t \<notin> set (ls j)"
  shows "reps h' (qs(i := q')) (ls(i := ls i @ [t]))"
proof -
  have r: "rep h (qs j) (ls j)" "i \<noteq> j \<Longrightarrow> set (ls j) \<inter> set (ls i) = {}" for j
    using assms(1) by (auto simp: reps_def)
  have "rep h' ((qs(i := q')) j) ((ls(i := ls i @ [t])) j)" for j
    using rep_insert [OF r(1) _ assms(3,2)] rep_other [OF r(1) assms(2) r(1) r(2)] assms(4) by simp
  then show ?thesis using assms(1,4) unfolding reps_def by auto
qed

lemma reps_remove:
  assumes "reps h qs ls" "ls i = t # ts"
  shows "reps h (qs(i := remove_head h (qs i))) (ls(i := ts))"
proof -
  have "rep h (remove_head h (qs i)) ts" using assms rep_remove [of h "qs i" t ts] unfolding reps_def by metis
  moreover have "i \<noteq> j \<Longrightarrow> set ts \<inter> set (ls j) = {} \<and> set (ls j) \<inter> set ts = {}" for j
    using assms unfolding reps_def by fastforce
  ultimately show ?thesis using assms unfolding reps_def by auto
qed

lemma reps_reset: "reps h qs ls \<Longrightarrow> reps h (qs(i := empty_queue)) (ls(i := []))"
  using rep_empty unfolding reps_def by simp

lemma reps_same: "reps h qs ls \<Longrightarrow> qs i = q \<Longrightarrow> reps h (qs(i := q)) ls"
  by (simp add: fun_upd_idem)

end

lemma queue_rep_insert:
  assumes "queue_rep nx q ts" "t \<notin> set ts" "t \<noteq> SGX_THREAD_T_NULL" "QUEUE_INSERT_TAIL t q nx = (q', nx')"
  shows "queue_rep nx' q' (ts @ [t])"
proof (cases "ts = []")
  case True
  then show ?thesis using assms by (auto simp: queue_rep_def QUEUE_INSERT_TAIL_def Let_def)
next
  case False
  then have "m_first q \<noteq> SGX_THREAD_T_NULL" using assms by (cases ts) (auto simp: queue_rep_def)
  then have "q' = q\<lparr>m_last := t\<rparr>" "nx' = nx(t := SGX_THREAD_T_NULL, last ts := t)"
    using assms(1,4) False by (auto simp: queue_rep_def QUEUE_INSERT_TAIL_def Let_def)
  then show ?thesis using assms chain_snoc [of nx "m_first q" ts t] False by (simp add: queue_rep_def)
qed

lemma queue_rep_other:
  assumes "queue_rep nx q ts" "QUEUE_INSERT_TAIL t q nx = (q', nx')" "queue_rep nx p us" "set us \<inter> set ts = {}" "t \<notin> set us"
  shows "queue_rep nx' p us"
proof -
  have "ts \<noteq> []" if "m_first q \<noteq> SGX_THREAD_T_NULL" using that assms(1) by (auto simp: queue_rep_def)
  then have "nx' u = nx u" if "u \<notin> set ts \<union> {t}" for u
    using assms(1,2) that by (auto simp: QUEUE_INSERT_TAIL_def Let_def queue_rep_def split: if_splits)
  then have "chain nx' w us = chain nx w us" for w
    using assms(4,5) by (intro chain_unchanged [of _ "set ts \<union> {t}"]) auto
  then show ?thesis using assms(3) by (simp add: queue_rep_def)
qed

interpretation tq: fifo_queue queue_rep SGX_THREAD_T_NULL QUEUE_INIT QUEUE_FIRST QUEUE_INSERT_TAIL QUEUE_REMOVE_HEAD
proof
  show "queue_rep h (QUEUE_REMOVE_HEAD h q) ts" if "queue_rep h q (t # ts)" for h q t ts
    using that by (cases ts) (auto simp: queue_rep_def QUEUE_REMOVE_HEAD_def QUEUE_NEXT_def Let_def)
  show "QUEUE_FIRST q = (if ts = [] then SGX_THREAD_T_NULL else hd ts)" if "queue_rep h q ts" for h q ts
    using that by (cases ts) (auto simp: queue_rep_def QUEUE_FIRST_def)
  show "distinct ts \<and> SGX_THREAD_T_NULL \<notin> set ts" if "queue_rep h q ts" for h q ts
    using that chain_null by (auto simp: queue_rep_def)
  show "queue_rep h QUEUE_INIT []" for h
    by (simp add: queue_rep_def QUEUE_INIT_def)
qed (fact queue_rep_insert queue_rep_other)+

lemma queue_find_rep:
  "queue_rep nx q ts \<Longrightarrow> queue_find nx self (QUEUE_FIRST q) = Some (if self \<in> set ts then self else SGX_THREAD_T_NULL)"
  by (simp add: queue_rep_def QUEUE_FIRST_def queue_find_chain)

lemma queue_count_rep: "queue_rep nx q ts \<Longrightarrow> queue_count nx (QUEUE_FIRST q) 0 = Some (of_nat (length ts))"
  using queue_count_chain [of nx "m_first q" ts 0] by (simp add: queue_rep_def QUEUE_FIRST_def)

end
