(* ===== verification/Trts_Range.thy ===== *)
theory Trts_Range
  imports Sgx_Metadata
begin

text \<open>
  The checks of the trusted runtime that decide on which side of the enclave boundary a buffer
  lies, and the routines built on them: \<^verbatim>\<open>sgx_is_within_enclave\<close>, \<^verbatim>\<open>sgx_is_outside_enclave\<close>,
  \<^verbatim>\<open>sgx_ocalloc\<close>, \<^verbatim>\<open>sgx_ocfree\<close> and \<^verbatim>\<open>sgx_read_rand\<close> of \<^verbatim>\<open>sdk/trts/trts.cpp\<close>, and the stack
  checks of \<^verbatim>\<open>sdk/trts/trts_util.cpp\<close>.
\<close>

unbundle bit_operations_syntax

section \<open>The enclave range\<close>

text \<open>The address of \<^verbatim>\<open>__ImageBase\<close> and \<^verbatim>\<open>g_global_data.enclave_size\<close>.\<close>

record enclave_range_t =
  image_base :: u64
  enclave_size :: u64

text \<open>The last byte of a buffer; an empty buffer counts as one byte.\<close>

definition buffer_end :: "u64 \<Rightarrow> u64 \<Rightarrow> u64" where
  "buffer_end start sz = (if sz > 0 then start + sz - 1 else start)"

definition sgx_is_within_enclave :: "enclave_range_t \<Rightarrow> u64 \<Rightarrow> u64 \<Rightarrow> bool" where
  "sgx_is_within_enclave g addr sz =
     (let start = addr;
          enclave_start = image_base g;
          enclave_end = enclave_start + enclave_size g - 1;
          fin = buffer_end start sz
      in start \<le> fin \<and> start \<ge> enclave_start \<and> fin \<le> enclave_end)"

definition sgx_is_outside_enclave :: "enclave_range_t \<Rightarrow> u64 \<Rightarrow> u64 \<Rightarrow> bool" where
  "sgx_is_outside_enclave g addr sz =
     (let start = addr;
          enclave_start = image_base g;
          enclave_end = enclave_start + enclave_size g - 1;
          fin = buffer_end start sz
      in start \<le> fin \<and> (fin < enclave_start \<or> start > enclave_end))"

text \<open>\<^verbatim>\<open>is_stack_addr\<close> and \<^verbatim>\<open>is_valid_sp\<close>, with the stack bounds of the thread data.\<close>

definition is_stack_addr :: "u64 \<Rightarrow> u64 \<Rightarrow> u64 \<Rightarrow> u64 \<Rightarrow> bool" where
  "is_stack_addr stack_base stack_limit addr sz \<longleftrightarrow>
     addr \<le> addr + sz \<and> stack_base \<ge> addr + sz \<and> stack_limit \<le> addr"

definition is_valid_sp :: "u64 \<Rightarrow> u64 \<Rightarrow> u64 \<Rightarrow> bool" where
  "is_valid_sp stack_base stack_limit sp \<longleftrightarrow>
     sp AND (8 - 1) = 0 \<and> is_stack_addr stack_base stack_limit sp 0"

section \<open>Memory on the outside stack\<close>

text \<open>
  The loop that probes the pages from \<^verbatim>\<open>first_page\<close> down to \<^verbatim>\<open>last_page\<close>: the pages it writes to,
  in order, and \<^const>\<open>None\<close> if it does not end.
\<close>

partial_function (option) probe_pages :: "u64 \<Rightarrow> u64 \<Rightarrow> u64 list option" where
  [code]: "probe_pages last_page page =
     (if page \<ge> last_page
      then Option.bind (probe_pages last_page (page - SE_PAGE_SIZE)) (\<lambda>ps. Some (page # ps))
      else Some [])"

text \<open>
  \<^verbatim>\<open>abort()\<close>, or the allocated address, the outside stack pointer left in the SSA and the
  pages that were probed.
\<close>

datatype ocalloc_result = OcAbort | OcAlloc (oc_addr: u64) (oc_sp_u: u64) (oc_probed: "u64 list")

definition OC_ROUND :: u64 where "OC_ROUND = 16"

definition sgx_ocalloc :: "enclave_range_t \<Rightarrow> u64 \<Rightarrow> u64 \<Rightarrow> ocalloc_result option" where
  "sgx_ocalloc g sp_u sz =
     (if \<not> sgx_is_outside_enclave g sp_u 8 then Some OcAbort
      else if sp_u < sz then Some OcAbort
      else
        let addr = (sp_u - sz) AND NOT (OC_ROUND - 1) in
        if \<not> sgx_is_outside_enclave g addr sz then Some OcAbort
        else
          let first_page = TRIM_TO_PAGE (sp_u - 1);
              last_page = TRIM_TO_PAGE addr
          in
          if last_page = 0 then Some OcAbort
          else case probe_pages last_page first_page of
            None \<Rightarrow> None
          | Some ps \<Rightarrow> Some (OcAlloc addr addr ps))"

text \<open>\<^verbatim>\<open>sgx_ocfree\<close> on the stack pointer saved in the ECALL frame: the new \<^verbatim>\<open>sp_u\<close>, \<^const>\<open>None\<close> on \<^verbatim>\<open>abort\<close>.\<close>

definition sgx_ocfree :: "enclave_range_t \<Rightarrow> u64 \<Rightarrow> u64 option" where
  "sgx_ocfree g usp = (if \<not> sgx_is_outside_enclave g usp 8 then None else Some usp)"

section \<open>Random numbers\<close>

text \<open>
  \<^verbatim>\<open>do_rdrand\<close> is an instruction: a function of a state that gives a word or fails. The loop
  writes the words it gets until the buffer is full; the bytes written are part of the result
  also when it fails.
\<close>

fun read_rand_loop :: "('r \<Rightarrow> u32 option \<times> 'r) \<Rightarrow> nat \<Rightarrow> 'r \<Rightarrow> sgx_status_t \<times> bytes \<times> 'r" where
  "read_rand_loop do_rdrand 0 r = (SGX_SUCCESS, [], r)"
| "read_rand_loop do_rdrand (Suc n) r =
     (case do_rdrand r of
        (None, r) \<Rightarrow> (SGX_ERROR_UNEXPECTED, [], r)
      | (Some w, r) \<Rightarrow>
          let len = (if Suc n < 4 then Suc n else 4) in
          (case read_rand_loop do_rdrand (Suc n - len) r of
             (st, bs, r) \<Rightarrow> (st, take len (le_bytes 4 w) @ bs, r)))"

definition sgx_read_rand ::
  "enclave_range_t \<Rightarrow> ('r \<Rightarrow> u32 option \<times> 'r) \<Rightarrow> u64 \<Rightarrow> u64 \<Rightarrow> 'r \<Rightarrow> sgx_status_t \<times> bytes \<times> 'r" where
  "sgx_read_rand g do_rdrand rand length_in_bytes r =
     (if rand = 0 \<or> length_in_bytes = 0 then (SGX_ERROR_INVALID_PARAMETER, [], r)
      else if \<not> sgx_is_within_enclave g rand length_in_bytes \<and> \<not> sgx_is_outside_enclave g rand length_in_bytes
      then (SGX_ERROR_INVALID_PARAMETER, [], r)
      else read_rand_loop do_rdrand (unat length_in_bytes) r)"

section \<open>The checks are exact\<close>

text \<open>A loaded enclave: not empty, page aligned, not wrapping around the address space.\<close>

definition wf_enclave :: "enclave_range_t \<Rightarrow> bool" where
  "wf_enclave g \<longleftrightarrow> 0 < unat (enclave_size g) \<and> unat (image_base g) + unat (enclave_size g) \<le> 2 ^ 64
     \<and> unat (image_base g) mod 4096 = 0 \<and> unat (enclave_size g) mod 4096 = 0"

definition enclave_bytes :: "enclave_range_t \<Rightarrow> nat set" where
  "enclave_bytes g = {unat (image_base g) ..< unat (image_base g) + unat (enclave_size g)}"

text \<open>The bytes that a check for a buffer speaks of: at least the first one.\<close>

definition buffer_bytes :: "u64 \<Rightarrow> u64 \<Rightarrow> nat set" where
  "buffer_bytes addr sz = {unat addr ..< unat addr + max 1 (unat sz)}"

lemma buffer_start: "unat addr \<in> buffer_bytes addr sz"
  by (simp add: buffer_bytes_def)

lemma unat_enclave_end:
  assumes "wf_enclave g"
  shows "unat (image_base g + enclave_size g - 1) = unat (image_base g) + unat (enclave_size g) - 1"
proof -
  let ?b = "image_base g" and ?n = "enclave_size g"
  have n: "unat (?n - 1) = unat ?n - 1"
    using assms unat_minus_one [of ?n] by (metis less_irrefl unat_0 wf_enclave_def)
  have "unat ?b + unat (?n - 1) < 2 ^ 64"
    using assms unfolding wf_enclave_def n by linarith
  then have "unat (?b + (?n - 1)) = unat ?b + unat (?n - 1)"
    using unat_add_lem [of ?b "?n - 1"] by simp
  with n assms show ?thesis by (simp add: wf_enclave_def add_diff_eq)
qed

lemma buffer_end_wrap:
  "addr \<le> buffer_end addr sz \<longleftrightarrow> unat addr + max 1 (unat sz) \<le> 2 ^ 64"
  "addr \<le> buffer_end addr sz \<Longrightarrow> unat (buffer_end addr sz) = unat addr + max 1 (unat sz) - 1"
proof -
  have "(addr \<le> buffer_end addr sz \<longleftrightarrow> unat addr + max 1 (unat sz) \<le> 2 ^ 64)
      \<and> (addr \<le> buffer_end addr sz \<longrightarrow> unat (buffer_end addr sz) = unat addr + max 1 (unat sz) - 1)"
  proof (cases "sz = 0")
    case True
    then show ?thesis using unat_less_exp [of addr] by (simp add: buffer_end_def)
  next
    case False
    then have pos: "0 < unat sz" by (simp add: unat_gt_0)
    have sz: "unat (sz - 1) = unat sz - 1" using False unat_minus_one by blast
    have e: "buffer_end addr sz = addr + (sz - 1)" using False by (simp add: buffer_end_def word_gt_0 add_diff_eq)
    have "addr \<le> addr + (sz - 1) \<longleftrightarrow> unat addr + unat (sz - 1) < 2 ^ 64"
      using no_olen_add_nat [of addr "sz - 1"] by simp
    moreover have "unat (addr + (sz - 1)) = unat addr + unat (sz - 1)" if "unat addr + unat (sz - 1) < 2 ^ 64"
      using that unat_add_lem [of addr "sz - 1"] by simp
    ultimately show ?thesis unfolding e using pos sz by auto
  qed
  then show "addr \<le> buffer_end addr sz \<longleftrightarrow> unat addr + max 1 (unat sz) \<le> 2 ^ 64"
    "addr \<le> buffer_end addr sz \<Longrightarrow> unat (buffer_end addr sz) = unat addr + max 1 (unat sz) - 1" by auto
qed

lemma enclave_nat:
  assumes "wf_enclave g"
  shows "sgx_is_within_enclave g addr sz \<longleftrightarrow> unat addr + max 1 (unat sz) \<le> 2 ^ 64
      \<and> unat (image_base g) \<le> unat addr \<and> unat addr + max 1 (unat sz) \<le> unat (image_base g) + unat (enclave_size g)"
    and "sgx_is_outside_enclave g addr sz \<longleftrightarrow> unat addr + max 1 (unat sz) \<le> 2 ^ 64
      \<and> (unat addr + max 1 (unat sz) \<le> unat (image_base g) \<or> unat (image_base g) + unat (enclave_size g) \<le> unat addr)"
proof -
  have pos: "0 < unat (enclave_size g)" using assms by (simp add: wf_enclave_def)
  note e = unat_enclave_end [OF assms] and w = buffer_end_wrap [of addr sz]
  show "sgx_is_within_enclave g addr sz \<longleftrightarrow> unat addr + max 1 (unat sz) \<le> 2 ^ 64
      \<and> unat (image_base g) \<le> unat addr \<and> unat addr + max 1 (unat sz) \<le> unat (image_base g) + unat (enclave_size g)"
    unfolding sgx_is_within_enclave_def Let_def word_le_nat_alt [of "image_base g"]
      word_le_nat_alt [of _ "image_base g + enclave_size g - 1"] e w(1) [symmetric]
    using w(2) pos by (cases "addr \<le> buffer_end addr sz") auto
  show "sgx_is_outside_enclave g addr sz \<longleftrightarrow> unat addr + max 1 (unat sz) \<le> 2 ^ 64
      \<and> (unat addr + max 1 (unat sz) \<le> unat (image_base g) \<or> unat (image_base g) + unat (enclave_size g) \<le> unat addr)"
    unfolding sgx_is_outside_enclave_def Let_def word_less_nat_alt e w(1) [symmetric]
    using w(2) pos by (cases "addr \<le> buffer_end addr sz") auto
qed

lemma outside_bytes:
  assumes "wf_enclave g" and "sgx_is_outside_enclave g addr sz"
  shows "buffer_bytes addr sz \<inter> enclave_bytes g = {}"
  using assms enclave_nat(2) [OF assms(1), of addr sz] by (auto simp: buffer_bytes_def enclave_bytes_def)

section \<open>The probe loop\<close>

lemma multiple_step: "k mod m = 0 \<Longrightarrow> n mod m = 0 \<Longrightarrow> k < n \<Longrightarrow> k + m \<le> (n :: nat)"
  by (metis add.commute dvd_diffD1 dvd_imp_le le_add_diff_inverse less_imp_le mod_0_imp_dvd nat_add_left_cancel_le zero_less_diff dvd_diff_nat)

lemma page_below:
  assumes "unat p mod 4096 = 0" "p \<ge> last_page" "last_page \<noteq> 0" "unat last_page mod 4096 = 0"
  shows "unat (p - SE_PAGE_SIZE) = unat p - 4096" and "4096 \<le> unat p"
proof -
  have "0 < unat last_page" using assms(3) by (simp add: unat_gt_0)
  then have "4096 \<le> unat last_page" using assms(4) by (simp add: dvd_imp_le mod_eq_0_iff_dvd)
  then show p: "4096 \<le> unat p" using assms(2) by (simp add: word_le_nat_alt)
  then have "SE_PAGE_SIZE \<le> p" by (simp add: word_le_nat_alt SE_PAGE_SIZE_def)
  then show "unat (p - SE_PAGE_SIZE) = unat p - 4096" by (simp add: unat_sub SE_PAGE_SIZE_def)
qed

lemma probe_pages_returns:
  assumes "last_page \<noteq> 0" "unat last_page mod 4096 = 0"
  shows "unat page mod 4096 = 0 \<Longrightarrow> \<exists>ps. probe_pages last_page page = Some ps
    \<and> (\<forall>p \<in> set ps. last_page \<le> p \<and> p \<le> page \<and> unat p mod 4096 = 0)
    \<and> (\<forall>k. unat last_page \<le> k \<longrightarrow> k \<le> unat page \<longrightarrow> k mod 4096 = 0 \<longrightarrow> k \<in> unat ` set ps)"
proof (induction "unat page" arbitrary: page rule: less_induct)
  case less
  show ?case
  proof (cases "page \<ge> last_page")
    case True
    let ?q = "page - SE_PAGE_SIZE"
    note q = page_below [OF less.prems True assms]
    then have q': "unat ?q < unat page" "unat ?q mod 4096 = 0" "?q \<le> page"
      using less.prems by (simp_all add: word_le_nat_alt mod_eq_0_iff_dvd)
    obtain ps where ps: "probe_pages last_page ?q = Some ps"
        "\<forall>p \<in> set ps. last_page \<le> p \<and> p \<le> ?q \<and> unat p mod 4096 = 0"
        "\<forall>k. unat last_page \<le> k \<longrightarrow> k \<le> unat ?q \<longrightarrow> k mod 4096 = 0 \<longrightarrow> k \<in> unat ` set ps"
      using less.hyps [OF q'(1, 2)] by auto
    have "k \<in> unat ` set (page # ps)" if "unat last_page \<le> k" "k \<le> unat page" "k mod 4096 = 0" for k
    proof (cases "k = unat page")
      case False
      then have "k \<le> unat ?q" using that less.prems q multiple_step [of k 4096 "unat page"] by linarith
      then show ?thesis using that ps(3) by simp
    qed simp
    moreover have "last_page \<le> p \<and> p \<le> page \<and> unat p mod 4096 = 0" if "p \<in> set (page # ps)" for p
      using that ps(2) True less.prems q'(3) by auto
    moreover have "probe_pages last_page page = Some (page # ps)"
      using True ps(1) by (subst probe_pages.simps) simp
    ultimately show ?thesis by blast
  next
    case False
    then show ?thesis by (subst probe_pages.simps) (simp add: word_le_nat_alt)
  qed
qed

lemma page_in_enclave:
  assumes "wf_enclave g" "p \<in> enclave_bytes g" "p mod 4096 = 0" "p \<le> x" "x < p + 4096"
  shows "x \<in> enclave_bytes g"
proof -
  obtain b n k where e: "unat (image_base g) = 4096 * b" "unat (enclave_size g) = 4096 * n" "p = 4096 * k"
    using assms(1, 3) by (auto simp: wf_enclave_def mod_eq_0_iff_dvd elim!: dvdE)
  then have "b \<le> k" "Suc k \<le> b + n" using assms(2) by (auto simp: enclave_bytes_def)
  then have "4096 * Suc k \<le> 4096 * (b + n)" by (simp only: mult_le_mono2)
  then show ?thesis using assms(4, 5) e \<open>b \<le> k\<close> by (simp add: enclave_bytes_def)
qed

lemma oc_align: "unat (x AND NOT (OC_ROUND - 1)) = unat x - unat x mod 16"
  using unat_and_not_mask [of x 4] by (simp add: OC_ROUND_def mask_eq_exp_minus_1)

text \<open>
  A page between the one of the allocation and the one of the stack pointer shares a byte with
  the allocation or holds the stack pointer, so it is outside if these are.
\<close>

lemma probed_page_outside:
  assumes "wf_enclave g" and out: "buffer_bytes sp_u 8 \<inter> enclave_bytes g = {}" "buffer_bytes addr sz \<inter> enclave_bytes g = {}"
    and p: "p mod 4096 = 0" "unat addr - unat addr mod 4096 \<le> p" "p < unat sp_u"
    and gap: "unat sp_u < unat addr + unat sz + 16"
  shows "p \<notin> enclave_bytes g"
proof
  assume e: "p \<in> enclave_bytes g"
  consider "p \<le> unat addr" | "p \<in> buffer_bytes addr sz" | "unat addr + max 1 (unat sz) \<le> p"
    unfolding buffer_bytes_def by fastforce
  then show False
  proof cases
    case 1
    have "unat addr mod 4096 < 4096" by simp
    then have "unat addr < p + 4096" using p(2) by linarith
    then have "unat addr \<in> enclave_bytes g" using page_in_enclave [OF assms(1) e p(1)] 1 by blast
    then show False using out(2) buffer_start by blast
  next
    case 2
    then show False using e out(2) by blast
  next
    case 3
    then have "unat sp_u < p + 4096" using gap by linarith
    then have "unat sp_u \<in> enclave_bytes g" using page_in_enclave [OF assms(1) e p(1)] p(3) by simp
    then show False using out(1) buffer_start by blast
  qed
qed

section \<open>Properties\<close>

text \<open>
  C14: the boundary checks are exact. For a loaded enclave, \<^verbatim>\<open>sgx_is_within_enclave\<close> accepts
  a buffer exactly when it does not wrap around and all its bytes are enclave bytes, and
  \<^verbatim>\<open>sgx_is_outside_enclave\<close> exactly when it does not wrap around and none is.
\<close>
theorem boundary_checks_exact:
  assumes "wf_enclave g"
  shows "(sgx_is_within_enclave g addr sz \<longleftrightarrow>
            unat addr + max 1 (unat sz) \<le> 2 ^ 64 \<and> buffer_bytes addr sz \<subseteq> enclave_bytes g)
    \<and> (sgx_is_outside_enclave g addr sz \<longleftrightarrow>
            unat addr + max 1 (unat sz) \<le> 2 ^ 64 \<and> buffer_bytes addr sz \<inter> enclave_bytes g = {})"
proof -
  have m: "unat addr < unat addr + max 1 (unat sz)" by simp
  then have "buffer_bytes addr sz \<subseteq> enclave_bytes g \<longleftrightarrow> unat (image_base g) \<le> unat addr
      \<and> unat addr + max 1 (unat sz) \<le> unat (image_base g) + unat (enclave_size g)"
    unfolding buffer_bytes_def enclave_bytes_def ivl_subset by linarith
  moreover have "buffer_bytes addr sz \<inter> enclave_bytes g = {} \<longleftrightarrow> unat addr + max 1 (unat sz) \<le> unat (image_base g)
      \<or> unat (image_base g) + unat (enclave_size g) \<le> unat addr"
    using assms m unfolding buffer_bytes_def enclave_bytes_def wf_enclave_def
    by (simp only: Int_atLeastLessThan atLeastLessThan_empty_iff) linarith
  ultimately show ?thesis using enclave_nat [OF assms, of addr sz] by simp
qed

text \<open>
  C15: \<^verbatim>\<open>sgx_ocalloc\<close> always returns or aborts (its probe loop ends), and it never touches the
  enclave: when it allocates, the memory is outside the enclave, 16-byte aligned and ends at
  most 15 bytes below the old stack pointer, every address that the loop writes to is outside
  the enclave, and every page from the allocation up to the old stack pointer is probed.
\<close>
theorem ocalloc_safe:
  assumes "wf_enclave g"
  shows "\<exists>r. sgx_ocalloc g sp_u sz = Some r \<and>
    (case r of OcAbort \<Rightarrow> True
     | OcAlloc addr sp' ps \<Rightarrow> sp' = addr \<and> unat addr mod 16 = 0
         \<and> unat addr + unat sz \<le> unat sp_u \<and> unat sp_u < unat addr + unat sz + 16
         \<and> buffer_bytes addr sz \<inter> enclave_bytes g = {}
         \<and> (\<forall>p \<in> set ps. unat p \<notin> enclave_bytes g)
         \<and> (\<forall>x. unat addr \<le> x \<longrightarrow> x < unat sp_u \<longrightarrow> x - x mod 4096 \<in> unat ` set ps))"
proof -
  define addr where "addr = (sp_u - sz) AND NOT (OC_ROUND - 1)"
  define last_page where "last_page = TRIM_TO_PAGE addr"
  show ?thesis
  proof (cases "sgx_is_outside_enclave g sp_u 8 \<and> \<not> sp_u < sz \<and> sgx_is_outside_enclave g addr sz \<and> last_page \<noteq> 0")
    case False
    then show ?thesis
      by (intro exI [of _ OcAbort]) (auto simp: sgx_ocalloc_def addr_def [symmetric] last_page_def [symmetric] Let_def)
  next
    case True
    have a: "unat addr = unat sp_u - unat sz - (unat sp_u - unat sz) mod 16" "unat sz \<le> unat sp_u"
      using True unfolding addr_def by (simp_all add: oc_align unat_sub word_le_nat_alt linorder_not_less)
    have "(unat sp_u - unat sz) mod 16 < 16" by simp
    then have bounds: "unat addr + unat sz \<le> unat sp_u" "unat sp_u < unat addr + unat sz + 16"
      using a by linarith+
    have l: "unat last_page = unat addr - unat addr mod 4096" "unat last_page mod 4096 = 0"
      by (simp_all add: last_page_def page_simps)
    have "0 < unat last_page" using True by (simp add: unat_gt_0)
    then have s: "0 < unat sp_u" using l(1) a by linarith
    then have s1: "unat (TRIM_TO_PAGE (sp_u - 1)) = (unat sp_u - 1) - (unat sp_u - 1) mod 4096"
      using unat_minus_one [of sp_u] by (simp add: page_simps unat_gt_0)
    obtain ps where ps: "probe_pages last_page (TRIM_TO_PAGE (sp_u - 1)) = Some ps"
      and low: "\<forall>p \<in> set ps. last_page \<le> p \<and> p \<le> TRIM_TO_PAGE (sp_u - 1) \<and> unat p mod 4096 = 0"
      and all: "\<forall>k. unat last_page \<le> k \<longrightarrow> k \<le> unat (TRIM_TO_PAGE (sp_u - 1)) \<longrightarrow> k mod 4096 = 0 \<longrightarrow> k \<in> unat ` set ps"
      using probe_pages_returns [of last_page "TRIM_TO_PAGE (sp_u - 1)"] True l(2) by (auto simp: page_simps)
    have out: "buffer_bytes sp_u 8 \<inter> enclave_bytes g = {}" "buffer_bytes addr sz \<inter> enclave_bytes g = {}"
      using True assms by (simp_all add: outside_bytes)
    have "unat p \<notin> enclave_bytes g" if "p \<in> set ps" for p
    proof (rule probed_page_outside [OF assms out])
      have "last_page \<le> p" "p \<le> TRIM_TO_PAGE (sp_u - 1)" "unat p mod 4096 = 0" using low that by auto
      then show "unat p mod 4096 = 0" "unat addr - unat addr mod 4096 \<le> unat p" "unat p < unat sp_u"
        using s s1 l(1) unfolding word_le_nat_alt by linarith+
    qed (rule bounds(2))
    moreover have "x - x mod 4096 \<in> unat ` set ps" if "unat addr \<le> x" "x < unat sp_u" for x
    proof -
      have "unat last_page \<le> x - x mod 4096" "x - x mod 4096 \<le> unat (TRIM_TO_PAGE (sp_u - 1))"
        unfolding l(1) s1 minus_mod_eq_mult_div using that by (auto intro!: mult_le_mono2 div_le_mono)
      moreover have "(x - x mod 4096) mod 4096 = 0" by (simp add: minus_mod_eq_mult_div)
      ultimately show ?thesis by (rule all [rule_format])
    qed
    moreover have "unat addr mod 16 = 0" unfolding a(1) by (simp add: minus_mod_eq_mult_div)
    moreover have "sgx_ocalloc g sp_u sz = Some (OcAlloc addr addr ps)"
      using True ps by (simp add: sgx_ocalloc_def addr_def [symmetric] last_page_def [symmetric] Let_def)
    ultimately show ?thesis using out(2) bounds by (intro exI [of _ "OcAlloc addr addr ps"]) simp
  qed
qed

text \<open>An enclave of one page at \<^verbatim>\<open>0x10000\<close>, and a stack that grows down towards it.\<close>

definition example_enclave :: enclave_range_t where
  "example_enclave = \<lparr>image_base = 0x10000, enclave_size = 0x1000\<rparr>"

lemma wf_example_enclave: "wf_enclave example_enclave"
  by (simp add: wf_enclave_def example_enclave_def)

theorem boundary_checks_exact_witness:
  "sgx_is_within_enclave example_enclave 0x10ff8 8 \<and> \<not> sgx_is_within_enclave example_enclave 0x10ff9 8
   \<and> \<not> buffer_bytes 0x10ff9 8 \<subseteq> enclave_bytes example_enclave
   \<and> \<not> sgx_is_outside_enclave example_enclave 0xffff 2 \<and> sgx_is_outside_enclave example_enclave 0xfff8 8"
  using boundary_checks_exact [OF wf_example_enclave, of "0x10ff8" 8]
    boundary_checks_exact [OF wf_example_enclave, of "0x10ff9" 8]
  by (simp add: sgx_is_within_enclave_def sgx_is_outside_enclave_def example_enclave_def buffer_end_def)

theorem ocalloc_safe_witness:
  "sgx_ocalloc example_enclave 0x13008 0x1010 = Some (OcAlloc 0x11ff0 0x11ff0 [0x13000, 0x12000, 0x11000])
   \<and> unat (0x11000 :: u64) \<notin> enclave_bytes example_enclave
   \<and> sgx_ocalloc example_enclave 0x11008 0x1010 = Some OcAbort"
proof -
  have alloc: "sgx_ocalloc example_enclave 0x13008 0x1010 = Some (OcAlloc 0x11ff0 0x11ff0 [0x13000, 0x12000, 0x11000])"
    by (simp add: sgx_ocalloc_def sgx_is_outside_enclave_def buffer_end_def example_enclave_def OC_ROUND_def
        TRIM_TO_PAGE_def SE_PAGE_SIZE_def probe_pages.simps)
  moreover have "sgx_ocalloc example_enclave 0x11008 0x1010 = Some OcAbort"
    by (simp add: sgx_ocalloc_def sgx_is_outside_enclave_def buffer_end_def example_enclave_def OC_ROUND_def)
  ultimately show ?thesis
    using ocalloc_safe [OF wf_example_enclave, of "0x13008" "0x1010"] by simp
qed

lemma read_rand_loop_bytes:
  "case read_rand_loop f n r of (st, bs, r') \<Rightarrow>
     (st = SGX_SUCCESS \<and> length bs = n) \<or> (st = SGX_ERROR_UNEXPECTED \<and> length bs < n)"
proof (induction n arbitrary: r rule: less_induct)
  case (less n)
  show ?case
  proof (cases n)
    case (Suc m)
    obtain w r1 where w: "f r = (w, r1)" by fastforce
    show ?thesis
    proof (cases w)
      case (Some v)
      define k where "k = (if n < 4 then n else 4)"
      have k: "0 < k" "k \<le> n" "k \<le> 4" using Suc by (simp_all add: k_def)
      then show ?thesis
        using less.IH [of "n - k" r1] w Some Suc by (auto simp: k_def Let_def split: prod.splits)
    qed (use w Suc in simp)
  qed simp
qed

text \<open>
  C16: \<^verbatim>\<open>sgx_read_rand\<close> returns success exactly when it has filled the whole buffer; it rejects null and
  empty buffers and buffers that cross the enclave boundary before writing, and when the random
  number generator fails, it has written less than the buffer.
\<close>

theorem read_rand_fills_buffer:
  "case sgx_read_rand g do_rdrand rand len r of (st, bs, r') \<Rightarrow>
     if rand = 0 \<or> len = 0 \<or> \<not> sgx_is_within_enclave g rand len \<and> \<not> sgx_is_outside_enclave g rand len
     then st = SGX_ERROR_INVALID_PARAMETER \<and> bs = [] \<and> r' = r
     else (st = SGX_SUCCESS \<and> length bs = unat len) \<or> (st = SGX_ERROR_UNEXPECTED \<and> length bs < unat len)"
  using read_rand_loop_bytes [where f = do_rdrand and n = "unat len" and r = r] by (auto simp: sgx_read_rand_def split: prod.splits)

end
