(* ===== verification/Thread_Sync.thy ===== *)
theory Thread_Sync
  imports Thread_Queue Trts_Range
begin

text \<open>
  The mutexes and condition variables of \<^verbatim>\<open>sdk/tlibthread\<close> (\<^verbatim>\<open>sethread_mutex.cpp\<close>,
  \<^verbatim>\<open>sethread_cond.cpp\<close>). Each operation is a function of the object, the links of the waiting
  threads and the calling thread. What happens between \<^verbatim>\<open>SPIN_LOCK\<close> and \<^verbatim>\<open>SPIN_UNLOCK\<close> is one
  function; the operations that leave the enclave in between to wait (\<^verbatim>\<open>sgx_thread_mutex_lock\<close>,
  \<^verbatim>\<open>sgx_thread_cond_wait\<close>) are cut there, and \<^verbatim>\<open>Thread_Runs\<close> puts the pieces together.
\<close>

section \<open>Objects\<close>

record sgx_thread_mutex_t =
  m_refcount :: u64
  m_control :: u32
  m_lock :: u32
  m_owner :: sgx_thread_t
  m_queue :: sgx_thread_queue_t

record sgx_thread_cond_t =
  c_lock :: u32
  c_queue :: sgx_thread_queue_t

definition SGX_THREAD_MUTEX_NONRECURSIVE :: u32 where
  "SGX_THREAD_MUTEX_NONRECURSIVE = 1"

definition SGX_THREAD_MUTEX_RECURSIVE :: u32 where
  "SGX_THREAD_MUTEX_RECURSIVE = 2"

definition SGX_SPINLOCK_INITIALIZER :: u32 where
  "SGX_SPINLOCK_INITIALIZER = 0"

definition EPERM :: int where "EPERM = 1"

definition ENOMEM :: int where "ENOMEM = 12"

definition EBUSY :: int where "EBUSY = 16"

definition EINVAL :: int where "EINVAL = 22"

lemmas errno_defs = EPERM_def ENOMEM_def EBUSY_def EINVAL_def

text \<open>\<^verbatim>\<open>CHECK_PARAMETER\<close>: the object is inside the enclave. The two objects have 40 and 24 bytes.\<close>

definition sizeof_mutex :: u64 where "sizeof_mutex = 40"

definition sizeof_cond :: u64 where "sizeof_cond = 24"

definition CHECK_PARAMETER :: "enclave_range_t \<Rightarrow> u64 \<Rightarrow> u64 \<Rightarrow> bool" where
  "CHECK_PARAMETER g addr sz \<longleftrightarrow> \<not> (addr = 0 \<or> \<not> sgx_is_within_enclave g addr sz)"

section \<open>Mutexes\<close>

definition sgx_thread_mutex_init :: "sgx_thread_mutex_t \<Rightarrow> int \<times> sgx_thread_mutex_t" where
  "sgx_thread_mutex_init mutex =
     (0, mutex\<lparr>m_control := SGX_THREAD_MUTEX_NONRECURSIVE, m_refcount := 0, m_owner := SGX_THREAD_T_NULL,
           m_lock := SGX_SPINLOCK_INITIALIZER, m_queue := QUEUE_INIT\<rparr>)"

definition sgx_thread_mutex_destroy :: "sgx_thread_mutex_t \<Rightarrow> int \<times> sgx_thread_mutex_t" where
  "sgx_thread_mutex_destroy mutex =
     (if m_owner mutex \<noteq> SGX_THREAD_T_NULL \<or> QUEUE_FIRST (m_queue mutex) \<noteq> SGX_THREAD_T_NULL then (EBUSY, mutex)
      else (0, mutex\<lparr>m_control := 0, m_refcount := 0\<rparr>))"

text \<open>
  One round of the loop of \<^verbatim>\<open>sgx_thread_mutex_lock\<close>: it returns a value or, having queued the
  thread, goes on to wait outside. \<^const>\<open>None\<close> is a search of the queue that does not end.
\<close>

datatype lock_outcome = Return int | Wait_Outside

definition mutex_lock_round ::
  "sgx_thread_t \<Rightarrow> sgx_thread_mutex_t \<Rightarrow> links \<Rightarrow> (lock_outcome \<times> sgx_thread_mutex_t \<times> links) option" where
  "mutex_lock_round self mutex nx =
     (if m_control mutex \<noteq> SGX_THREAD_MUTEX_RECURSIVE \<and> m_control mutex \<noteq> SGX_THREAD_MUTEX_NONRECURSIVE
      then Some (Return EINVAL, mutex, nx)
      else if m_control mutex = SGX_THREAD_MUTEX_RECURSIVE \<and> m_owner mutex = self
      then Some (Return 0, mutex\<lparr>m_refcount := m_refcount mutex + 1\<rparr>, nx)
      else if m_owner mutex = SGX_THREAD_T_NULL
        \<and> (QUEUE_FIRST (m_queue mutex) = self \<or> QUEUE_FIRST (m_queue mutex) = SGX_THREAD_T_NULL)
      then
        let mutex = (if QUEUE_FIRST (m_queue mutex) = self
                     then mutex\<lparr>m_queue := QUEUE_REMOVE_HEAD nx (m_queue mutex)\<rparr> else mutex)
        in Some (Return 0, mutex\<lparr>m_owner := self, m_refcount := m_refcount mutex + 1\<rparr>, nx)
      else
        case queue_find nx self (QUEUE_FIRST (m_queue mutex)) of
          None \<Rightarrow> None
        | Some waiter \<Rightarrow>
            if waiter = SGX_THREAD_T_NULL
            then case QUEUE_INSERT_TAIL self (m_queue mutex) nx of
                (q, nx) \<Rightarrow> Some (Wait_Outside, mutex\<lparr>m_queue := q\<rparr>, nx)
            else Some (Wait_Outside, mutex, nx))"

definition sgx_thread_mutex_trylock ::
  "sgx_thread_t \<Rightarrow> links \<Rightarrow> sgx_thread_mutex_t \<Rightarrow> int \<times> sgx_thread_mutex_t" where
  "sgx_thread_mutex_trylock self nx mutex =
     (if m_control mutex \<noteq> SGX_THREAD_MUTEX_RECURSIVE \<and> m_control mutex \<noteq> SGX_THREAD_MUTEX_NONRECURSIVE
      then (EINVAL, mutex)
      else if m_control mutex = SGX_THREAD_MUTEX_RECURSIVE \<and> m_owner mutex = self
      then (0, mutex\<lparr>m_refcount := m_refcount mutex + 1\<rparr>)
      else if m_owner mutex = SGX_THREAD_T_NULL
        \<and> (QUEUE_FIRST (m_queue mutex) = self \<or> QUEUE_FIRST (m_queue mutex) = SGX_THREAD_T_NULL)
      then
        let mutex = (if QUEUE_FIRST (m_queue mutex) = self
                     then mutex\<lparr>m_queue := QUEUE_REMOVE_HEAD nx (m_queue mutex)\<rparr> else mutex)
        in (0, mutex\<lparr>m_owner := self, m_refcount := m_refcount mutex + 1\<rparr>)
      else (EBUSY, mutex))"

text \<open>
  \<^verbatim>\<open>sgx_thread_mutex_unlock_lazy\<close>: the thread to wake is written through \<^verbatim>\<open>pwaiter\<close> only when
  the mutex was released; \<open>waiter\<close> is what the variable held before.
\<close>

definition sgx_thread_mutex_unlock_lazy ::
  "sgx_thread_t \<Rightarrow> sgx_thread_mutex_t \<Rightarrow> sgx_thread_t \<Rightarrow> int \<times> sgx_thread_mutex_t \<times> sgx_thread_t" where
  "sgx_thread_mutex_unlock_lazy self mutex waiter =
     (if m_control mutex \<noteq> SGX_THREAD_MUTEX_RECURSIVE \<and> m_control mutex \<noteq> SGX_THREAD_MUTEX_NONRECURSIVE
      then (EINVAL, mutex, waiter)
      else if m_owner mutex = SGX_THREAD_T_NULL then (EINVAL, mutex, waiter)
      else if m_owner mutex \<noteq> self then (EPERM, mutex, waiter)
      else
        let mutex = mutex\<lparr>m_refcount := m_refcount mutex - 1\<rparr> in
        if m_refcount mutex = 0
        then (0, mutex\<lparr>m_owner := SGX_THREAD_T_NULL\<rparr>, QUEUE_FIRST (m_queue mutex))
        else (0, mutex, waiter))"

text \<open>\<^verbatim>\<open>sgx_thread_mutex_unlock\<close>: the result, the mutex and the thread that is woken, if any.\<close>

definition sgx_thread_mutex_unlock ::
  "sgx_thread_t \<Rightarrow> sgx_thread_mutex_t \<Rightarrow> int \<times> sgx_thread_mutex_t \<times> sgx_thread_t option" where
  "sgx_thread_mutex_unlock self mutex =
     (case sgx_thread_mutex_unlock_lazy self mutex SGX_THREAD_T_NULL of
        (ret, mutex, waiter) \<Rightarrow>
          if ret \<noteq> 0 then (ret, mutex, None)
          else (0, mutex, if waiter \<noteq> SGX_THREAD_T_NULL then Some waiter else None))"

section \<open>Condition variables\<close>

definition sgx_thread_cond_init :: "sgx_thread_cond_t \<Rightarrow> int \<times> sgx_thread_cond_t" where
  "sgx_thread_cond_init cond = (0, cond\<lparr>c_lock := SGX_SPINLOCK_INITIALIZER, c_queue := QUEUE_INIT\<rparr>)"

definition sgx_thread_cond_destroy :: "sgx_thread_cond_t \<Rightarrow> int" where
  "sgx_thread_cond_destroy cond = (if QUEUE_FIRST (c_queue cond) \<noteq> SGX_THREAD_T_NULL then EBUSY else 0)"

text \<open>
  \<^verbatim>\<open>sgx_thread_cond_wait\<close> up to the first wait: the thread queues itself and, still holding the
  lock of the condition variable, releases the mutex. Then each time it comes back from waiting
  it looks whether it still is in the queue.
\<close>

definition cond_wait_enqueue :: "sgx_thread_t \<Rightarrow> sgx_thread_cond_t \<Rightarrow> links \<Rightarrow> sgx_thread_cond_t \<times> links" where
  "cond_wait_enqueue self cond nx =
     (case QUEUE_INSERT_TAIL self (c_queue cond) nx of
        (q, nx) \<Rightarrow> (cond\<lparr>c_lock := 1, c_queue := q\<rparr>, nx))"

definition cond_wait_unlock ::
  "sgx_thread_t \<Rightarrow> sgx_thread_cond_t \<Rightarrow> sgx_thread_mutex_t \<Rightarrow> int \<times> sgx_thread_cond_t \<times> sgx_thread_mutex_t \<times> sgx_thread_t" where
  "cond_wait_unlock self cond mutex =
     (case sgx_thread_mutex_unlock_lazy self mutex SGX_THREAD_T_NULL of
        (ret, mutex, waiter) \<Rightarrow> (ret, cond\<lparr>c_lock := 0\<rparr>, mutex, waiter))"

definition cond_wait_still_queued :: "sgx_thread_t \<Rightarrow> sgx_thread_cond_t \<Rightarrow> links \<Rightarrow> bool option" where
  "cond_wait_still_queued self cond nx =
     map_option (\<lambda>tmp. tmp \<noteq> SGX_THREAD_T_NULL) (queue_find nx self (QUEUE_FIRST (c_queue cond)))"

definition sgx_thread_cond_signal ::
  "links \<Rightarrow> sgx_thread_cond_t \<Rightarrow> int \<times> sgx_thread_cond_t \<times> sgx_thread_t option" where
  "sgx_thread_cond_signal nx cond =
     (let waiter = QUEUE_FIRST (c_queue cond) in
      if waiter = SGX_THREAD_T_NULL then (0, cond, None)
      else (0, cond\<lparr>c_queue := QUEUE_REMOVE_HEAD nx (c_queue cond)\<rparr>, Some waiter))"

text \<open>
  \<^verbatim>\<open>sgx_thread_cond_broadcast\<close>: \<open>queue_drain\<close> is the loop that removes every waiter; the array
  for them has the length that the loop before has counted. \<open>mem_ok\<close> tells whether \<^verbatim>\<open>malloc\<close>
  returns the array. The result has the length of the array and what was written to it.
\<close>

partial_function (option) queue_drain ::
  "links \<Rightarrow> sgx_thread_queue_t \<Rightarrow> sgx_thread_t list \<Rightarrow> (sgx_thread_queue_t \<times> sgx_thread_t list) option" where
  [code]: "queue_drain nx q waiters =
     (if QUEUE_FIRST q = SGX_THREAD_T_NULL then Some (q, waiters)
      else queue_drain nx (QUEUE_REMOVE_HEAD nx q) (waiters @ [QUEUE_FIRST q]))"

definition sgx_thread_cond_broadcast ::
  "bool \<Rightarrow> links \<Rightarrow> sgx_thread_cond_t \<Rightarrow> (int \<times> sgx_thread_cond_t \<times> u64 \<times> sgx_thread_t list) option" where
  "sgx_thread_cond_broadcast mem_ok nx cond =
     (case queue_count nx (QUEUE_FIRST (c_queue cond)) 0 of
        None \<Rightarrow> None
      | Some n_waiter \<Rightarrow>
          if n_waiter = 0 then Some (0, cond, 0, [])
          else if \<not> mem_ok then Some (ENOMEM, cond, 0, [])
          else case queue_drain nx (c_queue cond) [] of
            None \<Rightarrow> None
          | Some (q, waiters) \<Rightarrow> Some (0, cond\<lparr>c_queue := q\<rparr>, n_waiter, waiters))"

section \<open>What the operations do\<close>

definition mutex_valid :: "sgx_thread_mutex_t \<Rightarrow> bool" where
  "mutex_valid mx \<longleftrightarrow> m_control mx = SGX_THREAD_MUTEX_RECURSIVE \<or> m_control mx = SGX_THREAD_MUTEX_NONRECURSIVE"

lemma queue_drain_rep:
  "queue_rep nx q ts \<Longrightarrow> queue_drain nx q acc = Some (QUEUE_INIT, acc @ ts)"
proof (induction ts arbitrary: q acc)
  case Nil
  then have "q = QUEUE_INIT" "QUEUE_FIRST q = SGX_THREAD_T_NULL"
    by (auto simp: queue_rep_def QUEUE_INIT_def QUEUE_FIRST_def intro: sgx_thread_queue_t.equality)
  then show ?case by (simp add: queue_drain.simps)
next
  case (Cons t ts)
  have "QUEUE_FIRST q = t" "t \<noteq> SGX_THREAD_T_NULL"
    using tq.rep_first [OF Cons.prems] tq.rep_elements [OF Cons.prems] by auto
  then show ?case
    using Cons.IH [OF tq.rep_remove [OF Cons.prems]] by (simp add: queue_drain.simps [of nx q])
qed

end
