(* ===== verification/Thread_Runs.thy ===== *)
theory Thread_Runs
  imports Thread_Sync
begin

text \<open>
  Threads of an enclave that use the mutexes and condition variables of \<^verbatim>\<open>Thread_Sync\<close> at the same
  time. A step is one section between \<^verbatim>\<open>SPIN_LOCK\<close> and \<^verbatim>\<open>SPIN_UNLOCK\<close>, taken by one thread when the
  lock is free; between two steps of a thread any other threads may take theirs. Waiting outside
  the enclave ends at any time, whether or not somebody has set the event, because the code that
  waits is not trusted. The theory shows that a mutex has at most one holder, that the queues
  stay intact although every thread has a single link, that their loops end, and that a waiting
  thread can always proceed when its turn has come.
\<close>

section \<open>States and steps\<close>

text \<open>
  Where a thread is: outside of the library with the result of its last call, before a round of
  \<^verbatim>\<open>sgx_thread_mutex_lock\<close>, waiting in it, or in \<^verbatim>\<open>sgx_thread_cond_wait\<close> before the mutex is
  released or while waiting. The flag tells whether \<^verbatim>\<open>sgx_thread_mutex_lock\<close> was called from
  \<^verbatim>\<open>sgx_thread_cond_wait\<close>, which ignores its result.
\<close>

datatype pc =
    Returned int
  | Locking u64 bool
  | Lock_Waiting u64 bool
  | Cond_Queued u64 u64
  | Cond_Waiting u64 u64 sgx_thread_t

text \<open>
  \<open>held s t m\<close> counts how often \<^verbatim>\<open>sgx_thread_mutex_lock\<close> or \<^verbatim>\<open>sgx_thread_mutex_trylock\<close> has returned 0 to \<open>t\<close> for
  the mutex \<open>m\<close> without an unlock since. For the call inside \<^verbatim>\<open>sgx_thread_cond_wait\<close> it is that inner
  result that counts, not the 0 that \<^verbatim>\<open>sgx_thread_cond_wait\<close> returns in any case.
\<close>

record sync =
  mutexes :: "u64 \<Rightarrow> sgx_thread_mutex_t"
  conds :: "u64 \<Rightarrow> sgx_thread_cond_t"
  sy_links :: links
  sy_pc :: "sgx_thread_t \<Rightarrow> pc"
  held :: "sgx_thread_t \<Rightarrow> u64 \<Rightarrow> nat"

datatype action =
    Init u64 | Destroy u64 | Lock u64 | Lock_Round | Lock_Wake | Trylock u64 | Unlock u64
  | Cond_Init u64 | Cond_Destroy u64 | Wait u64 u64 | Wait_Unlock | Wait_Check | Signal u64 | Broadcast u64 bool

text \<open>The checks at the start of each function.\<close>

fun parameters_ok :: "enclave_range_t \<Rightarrow> action \<Rightarrow> bool" where
  "parameters_ok g (Init m) = CHECK_PARAMETER g m sizeof_mutex"
| "parameters_ok g (Destroy m) = CHECK_PARAMETER g m sizeof_mutex"
| "parameters_ok g (Lock m) = CHECK_PARAMETER g m sizeof_mutex"
| "parameters_ok g (Trylock m) = CHECK_PARAMETER g m sizeof_mutex"
| "parameters_ok g (Unlock m) = CHECK_PARAMETER g m sizeof_mutex"
| "parameters_ok g (Cond_Init c) = CHECK_PARAMETER g c sizeof_cond"
| "parameters_ok g (Cond_Destroy c) = CHECK_PARAMETER g c sizeof_cond"
| "parameters_ok g (Wait c m) = (CHECK_PARAMETER g c sizeof_cond \<and> CHECK_PARAMETER g m sizeof_mutex)"
| "parameters_ok g (Signal c) = CHECK_PARAMETER g c sizeof_cond"
| "parameters_ok g (Broadcast c mem_ok) = CHECK_PARAMETER g c sizeof_cond"
| "parameters_ok g _ = True"

definition goto :: "sgx_thread_t \<Rightarrow> pc \<Rightarrow> sync \<Rightarrow> sync" where
  "goto t p s = s\<lparr>sy_pc := (sy_pc s)(t := p)\<rparr>"

definition set_mutex :: "u64 \<Rightarrow> sgx_thread_mutex_t \<Rightarrow> sync \<Rightarrow> sync" where
  "set_mutex m mx s = s\<lparr>mutexes := (mutexes s)(m := mx)\<rparr>"

definition set_cond :: "u64 \<Rightarrow> sgx_thread_cond_t \<Rightarrow> sync \<Rightarrow> sync" where
  "set_cond c cx s = s\<lparr>conds := (conds s)(c := cx)\<rparr>"

definition set_held :: "sgx_thread_t \<Rightarrow> u64 \<Rightarrow> nat \<Rightarrow> sync \<Rightarrow> sync" where
  "set_held t m n s = s\<lparr>held := (held s)(t := (held s t)(m := n))\<rparr>"

lemmas sync_defs = goto_def set_mutex_def set_cond_def set_held_def

definition gained :: "int \<Rightarrow> nat \<Rightarrow> nat" where
  "gained ret n = (if ret = 0 then n + 1 else n)"

definition lost :: "int \<Rightarrow> nat \<Rightarrow> nat" where
  "lost ret n = (if ret = 0 then n - 1 else n)"

text \<open>
  The state after a round of \<^verbatim>\<open>sgx_thread_mutex_lock\<close> for the mutex \<open>m\<close>: \<^verbatim>\<open>sgx_thread_cond_wait\<close>
  returns 0 whatever the result of the round is.
\<close>

fun after_round :: "sgx_thread_t \<Rightarrow> u64 \<Rightarrow> bool \<Rightarrow> lock_outcome \<Rightarrow> sync \<Rightarrow> sync" where
  "after_round t m from_wait (Return ret) s =
     goto t (Returned (if from_wait then 0 else ret)) (set_held t m (gained ret (held s t m)) s)"
| "after_round t m from_wait Wait_Outside s = goto t (Lock_Waiting m from_wait) s"

inductive step :: "enclave_range_t \<Rightarrow> sgx_thread_t \<Rightarrow> action \<Rightarrow> sync \<Rightarrow> sync \<Rightarrow> bool" for g t where
  step_invalid: "sy_pc s t = Returned r \<Longrightarrow> \<not> parameters_ok g a \<Longrightarrow> step g t a s (goto t (Returned EINVAL) s)"
| step_init: "sy_pc s t = Returned r \<Longrightarrow> parameters_ok g (Init m) \<Longrightarrow> sgx_thread_mutex_init (mutexes s m) = (ret, mx)
    \<Longrightarrow> step g t (Init m) s (goto t (Returned ret) (set_mutex m mx s))"
| step_destroy: "sy_pc s t = Returned r \<Longrightarrow> parameters_ok g (Destroy m) \<Longrightarrow> m_lock (mutexes s m) = 0
    \<Longrightarrow> sgx_thread_mutex_destroy (mutexes s m) = (ret, mx)
    \<Longrightarrow> step g t (Destroy m) s (goto t (Returned ret) (set_mutex m mx s))"
| step_lock: "sy_pc s t = Returned r \<Longrightarrow> parameters_ok g (Lock m) \<Longrightarrow> step g t (Lock m) s (goto t (Locking m False) s)"
| step_lock_round: "sy_pc s t = Locking m b \<Longrightarrow> m_lock (mutexes s m) = 0
    \<Longrightarrow> mutex_lock_round t (mutexes s m) (sy_links s) = Some (out, mx, nx)
    \<Longrightarrow> step g t Lock_Round s (after_round t m b out (set_mutex m mx (s\<lparr>sy_links := nx\<rparr>)))"
| step_lock_wake: "sy_pc s t = Lock_Waiting m b \<Longrightarrow> step g t Lock_Wake s (goto t (Locking m b) s)"
| step_trylock: "sy_pc s t = Returned r \<Longrightarrow> parameters_ok g (Trylock m) \<Longrightarrow> m_lock (mutexes s m) = 0
    \<Longrightarrow> sgx_thread_mutex_trylock t (sy_links s) (mutexes s m) = (ret, mx)
    \<Longrightarrow> step g t (Trylock m) s (goto t (Returned ret) (set_held t m (gained ret (held s t m)) (set_mutex m mx s)))"
| step_unlock: "sy_pc s t = Returned r \<Longrightarrow> parameters_ok g (Unlock m) \<Longrightarrow> m_lock (mutexes s m) = 0
    \<Longrightarrow> sgx_thread_mutex_unlock t (mutexes s m) = (ret, mx, woken)
    \<Longrightarrow> step g t (Unlock m) s (goto t (Returned ret) (set_held t m (lost ret (held s t m)) (set_mutex m mx s)))"
| step_cond_init: "sy_pc s t = Returned r \<Longrightarrow> parameters_ok g (Cond_Init c) \<Longrightarrow> sgx_thread_cond_init (conds s c) = (ret, cx)
    \<Longrightarrow> step g t (Cond_Init c) s (goto t (Returned ret) (set_cond c cx s))"
| step_cond_destroy: "sy_pc s t = Returned r \<Longrightarrow> parameters_ok g (Cond_Destroy c) \<Longrightarrow> c_lock (conds s c) = 0
    \<Longrightarrow> step g t (Cond_Destroy c) s (goto t (Returned (sgx_thread_cond_destroy (conds s c))) s)"
| step_wait: "sy_pc s t = Returned r \<Longrightarrow> parameters_ok g (Wait c m) \<Longrightarrow> c_lock (conds s c) = 0
    \<Longrightarrow> cond_wait_enqueue t (conds s c) (sy_links s) = (cx, nx)
    \<Longrightarrow> step g t (Wait c m) s (goto t (Cond_Queued c m) (set_cond c cx (s\<lparr>sy_links := nx\<rparr>)))"
| step_wait_unlock: "sy_pc s t = Cond_Queued c m \<Longrightarrow> m_lock (mutexes s m) = 0
    \<Longrightarrow> cond_wait_unlock t (conds s c) (mutexes s m) = (ret, cx, mx, waiter)
    \<Longrightarrow> step g t Wait_Unlock s
          (goto t (if ret = 0 then Cond_Waiting c m waiter else Returned ret)
             (set_held t m (lost ret (held s t m)) (set_cond c cx (set_mutex m mx s))))"
| step_wait_check: "sy_pc s t = Cond_Waiting c m waiter \<Longrightarrow> c_lock (conds s c) = 0
    \<Longrightarrow> cond_wait_still_queued t (conds s c) (sy_links s) = Some queued
    \<Longrightarrow> step g t Wait_Check s (goto t (if queued then Cond_Waiting c m SGX_THREAD_T_NULL else Locking m True) s)"
| step_signal: "sy_pc s t = Returned r \<Longrightarrow> parameters_ok g (Signal c) \<Longrightarrow> c_lock (conds s c) = 0
    \<Longrightarrow> sgx_thread_cond_signal (sy_links s) (conds s c) = (ret, cx, woken)
    \<Longrightarrow> step g t (Signal c) s (goto t (Returned ret) (set_cond c cx s))"
| step_broadcast: "sy_pc s t = Returned r \<Longrightarrow> parameters_ok g (Broadcast c mem_ok) \<Longrightarrow> c_lock (conds s c) = 0
    \<Longrightarrow> sgx_thread_cond_broadcast mem_ok (sy_links s) (conds s c) = Some (ret, cx, n_waiter, waiters)
    \<Longrightarrow> step g t (Broadcast c mem_ok) s (goto t (Returned ret) (set_cond c cx s))"

text \<open>
  What the library asks of its clients: a thread waits on a condition variable only with the
  mutex held, and an object is initialised again only when nobody uses it.
\<close>

fun disciplined :: "sgx_thread_t \<Rightarrow> action \<Rightarrow> sync \<Rightarrow> bool" where
  "disciplined t (Init m) s = (m_owner (mutexes s m) = SGX_THREAD_T_NULL \<and> QUEUE_FIRST (m_queue (mutexes s m)) = SGX_THREAD_T_NULL)"
| "disciplined t (Cond_Init c) s = (c_lock (conds s c) = 0 \<and> QUEUE_FIRST (c_queue (conds s c)) = SGX_THREAD_T_NULL)"
| "disciplined t (Wait c m) s = (0 < held s t m)"
| "disciplined t _ s = True"

definition initial :: "sync \<Rightarrow> bool" where
  "initial s \<longleftrightarrow> (\<forall>m. m_owner (mutexes s m) = SGX_THREAD_T_NULL \<and> m_refcount (mutexes s m) = 0 \<and> m_lock (mutexes s m) = 0
       \<and> m_queue (mutexes s m) = QUEUE_INIT)
     \<and> (\<forall>c. c_lock (conds s c) = 0 \<and> c_queue (conds s c) = QUEUE_INIT)
     \<and> (\<forall>t. sy_pc s t = Returned 0) \<and> held s = (\<lambda>_ _. 0)"

text \<open>\<open>run g n s\<close>: the state \<open>s\<close> is reached by \<open>n\<close> steps of disciplined threads.\<close>

inductive run :: "enclave_range_t \<Rightarrow> nat \<Rightarrow> sync \<Rightarrow> bool" for g where
  run_initial: "initial s \<Longrightarrow> run g 0 s"
| run_step: "run g n s \<Longrightarrow> t \<noteq> SGX_THREAD_T_NULL \<Longrightarrow> disciplined t a s \<Longrightarrow> step g t a s s' \<Longrightarrow> run g (Suc n) s'"

inductive_cases step_elims: "step g t a s s'"

text \<open>\<open>thread_steps g t k s s'\<close>: \<open>k\<close> steps of the disciplined thread \<open>t\<close> alone lead from \<open>s\<close> to \<open>s'\<close>.\<close>

inductive thread_steps :: "enclave_range_t \<Rightarrow> sgx_thread_t \<Rightarrow> nat \<Rightarrow> sync \<Rightarrow> sync \<Rightarrow> bool" for g t where
  steps_refl: "thread_steps g t 0 s s"
| steps_step: "thread_steps g t k s s' \<Longrightarrow> disciplined t a s' \<Longrightarrow> step g t a s' s'' \<Longrightarrow> thread_steps g t (Suc k) s s''"

lemma run_thread_steps: "thread_steps g t k s s' \<Longrightarrow> run g n s \<Longrightarrow> t \<noteq> SGX_THREAD_T_NULL \<Longrightarrow> run g (n + k) s'"
  by (induction rule: thread_steps.induct) (auto intro: run_step)

section \<open>The mutexes\<close>

text \<open>
  \<open>mutex_ok n h mx\<close>: with \<open>h\<close> the number of times that each thread holds it, the mutex is owned
  by the only thread that holds it, and its counter is that number.
\<close>

definition mutex_ok :: "nat \<Rightarrow> (sgx_thread_t \<Rightarrow> nat) \<Rightarrow> sgx_thread_mutex_t \<Rightarrow> bool" where
  "mutex_ok n h mx \<longleftrightarrow> m_lock mx = 0 \<and> h SGX_THREAD_T_NULL = 0
     \<and> (\<forall>t. h t \<le> n \<and> (0 < h t \<longrightarrow> m_owner mx = t))
     \<and> m_refcount mx = of_nat (h (m_owner mx))
     \<and> (m_owner mx \<noteq> SGX_THREAD_T_NULL \<longrightarrow> mutex_valid mx \<and> 0 < h (m_owner mx))
     \<and> (m_control mx = SGX_THREAD_MUTEX_NONRECURSIVE \<longrightarrow> h (m_owner mx) \<le> 1)"

lemma of_nat_u64_0: "k < 2 ^ 64 \<Longrightarrow> (of_nat k :: u64) = 0 \<longleftrightarrow> k = 0"
  using nat_dvd_not_less [of k "2 ^ 64"] by (auto simp: word_of_nat_eq_0_iff)

lemma mutex_ok_mono: "mutex_ok n h mx \<Longrightarrow> mutex_ok (Suc n) h mx"
  by (auto simp: mutex_ok_def le_SucI)

lemma mutex_ok_other: "mutex_ok n h mx \<Longrightarrow> m_owner mx \<noteq> u \<Longrightarrow> h u = 0"
  unfolding mutex_ok_def by blast

lemma mutex_okD:
  assumes "mutex_ok n h mx"
  shows "h t \<le> n" and "m_refcount mx = of_nat (h (m_owner mx))"
    and "m_control mx = SGX_THREAD_MUTEX_NONRECURSIVE \<Longrightarrow> h (m_owner mx) \<le> 1"
  using assms unfolding mutex_ok_def by blast+

lemma mutex_ok_free:
  assumes "mutex_ok n h mx" "m_owner mx = SGX_THREAD_T_NULL"
  shows "h t = 0"
  using mutex_ok_other [OF assms(1), of t] assms by (cases "t = SGX_THREAD_T_NULL") (auto simp: mutex_ok_def)

lemma mutex_ok_acquire:
  assumes "mutex_ok n h mx" "t \<noteq> SGX_THREAD_T_NULL" "mutex_valid mx"
    and "m_owner mx = SGX_THREAD_T_NULL \<or> m_owner mx = t \<and> m_control mx = SGX_THREAD_MUTEX_RECURSIVE"
    and "m_owner mx' = t" "m_refcount mx' = m_refcount mx + 1" "m_lock mx' = m_lock mx" "m_control mx' = m_control mx"
  shows "mutex_ok (Suc n) (h(t := h t + 1)) mx'"
proof -
  have other: "h u = 0" if "u \<noteq> t" for u
    using that assms(4) mutex_ok_free [OF assms(1)] mutex_ok_other [OF assms(1), of u] by auto
  have "m_refcount mx = of_nat (h t)" using assms(1,4) mutex_ok_free [OF assms(1)] by (auto simp: mutex_ok_def)
  moreover have "h t = 0" if "m_control mx = SGX_THREAD_MUTEX_NONRECURSIVE"
    using that assms(4) mutex_ok_free [OF assms(1)]
    by (auto simp: SGX_THREAD_MUTEX_NONRECURSIVE_def SGX_THREAD_MUTEX_RECURSIVE_def)
  ultimately show ?thesis
    using assms other by (auto simp: mutex_ok_def mutex_valid_def add.commute)
qed

lemma lock_round_ok:
  assumes "mutex_ok n h mx" "t \<noteq> SGX_THREAD_T_NULL" "mutex_lock_round t mx nx = Some (out, mx', nx')"
  shows "mutex_ok (Suc n) (h(t := (case out of Return r \<Rightarrow> gained r (h t) | Wait_Outside \<Rightarrow> h t))) mx'"
proof (cases "out = Return 0")
  case True
  then have "mutex_ok (Suc n) (h(t := h t + 1)) mx'"
    using assms(3)
    by (intro mutex_ok_acquire [OF assms(1,2)])
      (auto simp: mutex_lock_round_def mutex_valid_def EINVAL_def Let_def split: if_splits option.splits prod.splits)
  then show ?thesis using True by (simp add: gained_def)
next
  case False
  then have "out = Return EINVAL \<and> mx' = mx \<or> out = Wait_Outside \<and> (\<exists>q. mx' = mx\<lparr>m_queue := q\<rparr>) \<or> out = Wait_Outside \<and> mx' = mx"
    using assms(3) by (auto simp: mutex_lock_round_def Let_def split: if_splits option.splits prod.splits)
  moreover have "mutex_ok (Suc n) h (mx\<lparr>m_queue := q\<rparr>)" for q
    using mutex_ok_mono [OF assms(1)] by (simp add: mutex_ok_def mutex_valid_def)
  ultimately show ?thesis
    using mutex_ok_mono [OF assms(1)] by (auto simp: gained_def EINVAL_def)
qed

lemma trylock_ok:
  assumes "mutex_ok n h mx" "t \<noteq> SGX_THREAD_T_NULL" "sgx_thread_mutex_trylock t nx mx = (ret, mx')"
  shows "mutex_ok (Suc n) (h(t := gained ret (h t))) mx'"
proof (cases "ret = 0")
  case True
  then have "mutex_ok (Suc n) (h(t := h t + 1)) mx'"
    using assms(3)
    by (intro mutex_ok_acquire [OF assms(1,2)])
      (auto simp: sgx_thread_mutex_trylock_def mutex_valid_def EINVAL_def EBUSY_def Let_def split: if_splits)
  then show ?thesis using True by (simp add: gained_def)
next
  case False
  then have "mx' = mx" using assms(3) by (auto simp: sgx_thread_mutex_trylock_def Let_def split: if_splits)
  then show ?thesis using mutex_ok_mono [OF assms(1)] False by (simp add: gained_def)
qed

lemma unlock_lazy_owner:
  assumes "mutex_valid mx" "m_owner mx = t" "t \<noteq> SGX_THREAD_T_NULL"
  shows "sgx_thread_mutex_unlock_lazy t mx w =
    (if m_refcount mx - 1 = 0
     then (0, mx\<lparr>m_refcount := 0, m_owner := SGX_THREAD_T_NULL\<rparr>, QUEUE_FIRST (m_queue mx))
     else (0, mx\<lparr>m_refcount := m_refcount mx - 1\<rparr>, w))"
  using assms by (auto simp: sgx_thread_mutex_unlock_lazy_def mutex_valid_def Let_def)

lemma unlock_lazy_refused:
  assumes "\<not> (mutex_valid mx \<and> m_owner mx = t)" "t \<noteq> SGX_THREAD_T_NULL"
  shows "\<exists>r. r \<noteq> 0 \<and> sgx_thread_mutex_unlock_lazy t mx w = (r, mx, w)"
  using assms by (auto simp: sgx_thread_mutex_unlock_lazy_def mutex_valid_def errno_defs)

lemma mutex_ok_owner:
  assumes "mutex_ok n h mx" "t \<noteq> SGX_THREAD_T_NULL"
  shows "mutex_valid mx \<and> m_owner mx = t \<longleftrightarrow> 0 < h t"
proof
  show "0 < h t" if "mutex_valid mx \<and> m_owner mx = t" using that assms by (auto simp: mutex_ok_def)
  show "mutex_valid mx \<and> m_owner mx = t" if "0 < h t" using that assms mutex_ok_other [OF assms(1), of t] by (auto simp: mutex_ok_def)
qed

lemma mutex_ok_release:
  assumes ok: "mutex_ok n h mx" and "n < 2 ^ 64" and h: "0 < h t" and "m_owner mx = t" "t \<noteq> SGX_THREAD_T_NULL"
  shows "mutex_ok (Suc n) (h(t := h t - 1))
    (if m_refcount mx - 1 = 0 then mx\<lparr>m_refcount := 0, m_owner := SGX_THREAD_T_NULL\<rparr> else mx\<lparr>m_refcount := m_refcount mx - 1\<rparr>)"
proof -
  obtain k where k: "h t = Suc k" using h by (cases "h t") auto
  have "h t \<le> n" using ok by (simp add: mutex_ok_def)
  then have rc: "m_refcount mx - 1 = of_nat k" "(of_nat k :: u64) = 0 \<longleftrightarrow> k = 0"
    using ok k assms(2,4) of_nat_u64_0 [of k] by (simp_all add: mutex_ok_def)
  have other: "h v = 0" if "v \<noteq> t" for v using that assms(4) mutex_ok_other [OF ok, of v] by simp
  have facts: "m_lock mx = 0" "h SGX_THREAD_T_NULL = 0" "\<And>v. h v \<le> n" "mutex_valid mx"
      "m_control mx = SGX_THREAD_MUTEX_NONRECURSIVE \<Longrightarrow> k = 0"
    using ok k assms(4,5) by (auto simp: mutex_ok_def)
  then have le: "h v \<le> Suc n" "k \<le> Suc n" for v using k le_SucI [of "h v" n] facts(3) [of t] by simp_all
  show ?thesis
  proof (cases "k = 0")
    case True
    then show ?thesis unfolding rc k mutex_ok_def using facts(1,2) other le by simp
  next
    case False
    then show ?thesis unfolding rc k mutex_ok_def using facts(1,2,4,5) other le assms(4,5)
      by (auto simp: mutex_valid_def)
  qed
qed

lemma unlock_lazy_ok:
  assumes ok: "mutex_ok n h mx" and n: "n < 2 ^ 64" and t: "t \<noteq> SGX_THREAD_T_NULL"
    and u: "sgx_thread_mutex_unlock_lazy t mx w = (ret, mx', waiter)"
  shows "mutex_ok (Suc n) (h(t := lost ret (h t))) mx'" and "ret = 0 \<longleftrightarrow> 0 < h t" and "m_queue mx' = m_queue mx"
proof -
  show "ret = 0 \<longleftrightarrow> 0 < h t" and "m_queue mx' = m_queue mx" and "mutex_ok (Suc n) (h(t := lost ret (h t))) mx'"
  proof (atomize(full), cases "0 < h t")
    case True
    then have o: "mutex_valid mx" "m_owner mx = t" using mutex_ok_owner [OF ok t] by simp_all
    show "(ret = 0 \<longleftrightarrow> 0 < h t) \<and> m_queue mx' = m_queue mx \<and> mutex_ok (Suc n) (h(t := lost ret (h t))) mx'"
      using mutex_ok_release [OF ok n True o(2) t] u True
      unfolding unlock_lazy_owner [OF o t] by (auto simp: lost_def split: if_splits)
  next
    case False
    then have "\<not> (mutex_valid mx \<and> m_owner mx = t)" using mutex_ok_owner [OF ok t] by simp
    then have "ret \<noteq> 0" "mx' = mx" using unlock_lazy_refused [of mx t w] t u by auto
    then show "(ret = 0 \<longleftrightarrow> 0 < h t) \<and> m_queue mx' = m_queue mx \<and> mutex_ok (Suc n) (h(t := lost ret (h t))) mx'"
      using False mutex_ok_mono [OF ok] by (simp add: lost_def fun_upd_idem)
  qed
qed

lemma unlock_ok:
  assumes "mutex_ok n h mx" "n < 2 ^ 64" "t \<noteq> SGX_THREAD_T_NULL" "sgx_thread_mutex_unlock t mx = (ret, mx', woken)"
  shows "mutex_ok (Suc n) (h(t := lost ret (h t))) mx'" and "m_queue mx' = m_queue mx"
proof -
  obtain waiter where "sgx_thread_mutex_unlock_lazy t mx SGX_THREAD_T_NULL = (ret, mx', waiter)"
    using assms(4) by (auto simp: sgx_thread_mutex_unlock_def split: prod.splits if_splits)
  then show "mutex_ok (Suc n) (h(t := lost ret (h t))) mx'" "m_queue mx' = m_queue mx"
    using unlock_lazy_ok [OF assms(1-3)] by blast+
qed

lemma mutex_ok_unowned:
  assumes "mutex_ok n h mx" "m_owner mx = SGX_THREAD_T_NULL"
    and "m_owner mx' = SGX_THREAD_T_NULL" "m_refcount mx' = 0" "m_lock mx' = 0"
  shows "mutex_ok (Suc n) h mx'"
  using assms(3-5) mutex_ok_free [OF assms(1,2)] by (simp add: mutex_ok_def)

lemma destroy_ok:
  assumes "mutex_ok n h mx" "sgx_thread_mutex_destroy mx = (ret, mx')"
  shows "mutex_ok (Suc n) h mx'"
proof (cases "m_owner mx \<noteq> SGX_THREAD_T_NULL \<or> QUEUE_FIRST (m_queue mx) \<noteq> SGX_THREAD_T_NULL")
  case True
  then have "mx' = mx" using assms(2) by (auto simp: sgx_thread_mutex_destroy_def)
  then show ?thesis using mutex_ok_mono [OF assms(1)] by simp
next
  case False
  then have "mx' = mx\<lparr>m_control := 0, m_refcount := 0\<rparr>" using assms(2) by (simp add: sgx_thread_mutex_destroy_def)
  moreover have "m_lock mx = 0" using assms(1) by (simp add: mutex_ok_def)
  ultimately show ?thesis using False by (intro mutex_ok_unowned [OF assms(1)]) simp_all
qed

lemma init_ok:
  assumes "mutex_ok n h mx" "m_owner mx = SGX_THREAD_T_NULL" "sgx_thread_mutex_init mx = (ret, mx')"
  shows "mutex_ok (Suc n) h mx'"
  using assms(3) by (intro mutex_ok_unowned [OF assms(1,2)]) (auto simp: sgx_thread_mutex_init_def SGX_SPINLOCK_INITIALIZER_def)

definition mutexes_ok :: "nat \<Rightarrow> sync \<Rightarrow> bool" where
  "mutexes_ok n s \<longleftrightarrow> (\<forall>m. mutex_ok n (\<lambda>t. held s t m) (mutexes s m))"

lemma mutexes_ok_other:
  assumes "mutexes_ok n s" "mutexes s' = mutexes s" "held s' = held s"
  shows "mutexes_ok (Suc n) s'"
  using assms mutex_ok_mono by (simp add: mutexes_ok_def)

lemma mutexes_ok_one:
  assumes "mutexes_ok n s" "mutex_ok (Suc n) ((\<lambda>u. held s u m)(t := k)) mx"
    and "mutexes s' = (mutexes s)(m := mx)" "held s' = (held s)(t := (held s t)(m := k))"
  shows "mutexes_ok (Suc n) s'"
proof -
  have "(\<lambda>u. held s' u m) = (\<lambda>u. held s u m)(t := k)" "x \<noteq> m \<Longrightarrow> (\<lambda>u. held s' u x) = (\<lambda>u. held s u x)" for x
    using assms(4) by (auto simp: fun_eq_iff)
  then show ?thesis using assms(1-3) mutex_ok_mono unfolding mutexes_ok_def by simp
qed

lemma mutexes_ok_mutex:
  assumes "mutexes_ok n s" "mutex_ok (Suc n) (\<lambda>u. held s u m) mx"
    and "mutexes s' = (mutexes s)(m := mx)" "held s' = held s"
  shows "mutexes_ok (Suc n) s'"
  using assms mutex_ok_mono unfolding mutexes_ok_def by simp

lemma step_mutexes_ok:
  assumes ok: "mutexes_ok n s" and "n < 2 ^ 64" "t \<noteq> SGX_THREAD_T_NULL" "disciplined t a s" and st: "step g t a s s'"
  shows "mutexes_ok (Suc n) s'"
proof -
  have m: "mutex_ok n (\<lambda>u. held s u m) (mutexes s m)" for m using ok by (simp add: mutexes_ok_def)
  from st show ?thesis
  proof cases
    case (step_init r m ret mx)
    then show ?thesis
      using init_ok [OF m] assms(4) by (intro mutexes_ok_mutex [OF ok]) (auto simp: sync_defs)
  next
    case (step_destroy r m ret mx)
    then show ?thesis
      using destroy_ok [OF m] by (intro mutexes_ok_mutex [OF ok]) (auto simp: sync_defs)
  next
    case (step_lock_round m b out mx nx)
    show ?thesis
      by (rule mutexes_ok_one [OF ok lock_round_ok [OF m assms(3) step_lock_round(5)]])
        (cases out; simp add: step_lock_round(2) sync_defs)+
  next
    case (step_trylock r m ret mx)
    show ?thesis
      by (rule mutexes_ok_one [OF ok trylock_ok [OF m assms(3) step_trylock(6)]]) (simp_all add: step_trylock(2) sync_defs)
  next
    case (step_unlock r m ret mx woken)
    show ?thesis
      by (rule mutexes_ok_one [OF ok unlock_ok(1) [OF m assms(2,3) step_unlock(6)]]) (simp_all add: step_unlock(2) sync_defs)
  next
    case (step_wait_unlock c m ret cx mx waiter)
    then have u: "sgx_thread_mutex_unlock_lazy t (mutexes s m) SGX_THREAD_T_NULL = (ret, mx, waiter)"
      by (auto simp: cond_wait_unlock_def split: prod.splits)
    show ?thesis
      by (rule mutexes_ok_one [OF ok unlock_lazy_ok(1) [OF m assms(2,3) u]]) (simp_all add: step_wait_unlock(2) sync_defs)
  qed (auto intro!: mutexes_ok_other [OF ok] simp: sync_defs)
qed

section \<open>The queues\<close>

text \<open>The queue in which a thread may be, and the queues of all objects.\<close>

fun queue_of :: "pc \<Rightarrow> (u64 + u64) option" where
  "queue_of (Returned r) = None"
| "queue_of (Locking m b) = Some (Inl m)"
| "queue_of (Lock_Waiting m b) = Some (Inl m)"
| "queue_of (Cond_Queued c m) = Some (Inr c)"
| "queue_of (Cond_Waiting c m w) = Some (Inr c)"

definition queues :: "sync \<Rightarrow> u64 + u64 \<Rightarrow> sgx_thread_queue_t" where
  "queues s i = (case i of Inl m \<Rightarrow> m_queue (mutexes s m) | Inr c \<Rightarrow> c_queue (conds s c))"

text \<open>
  A mutex with waiting threads is valid, and the owner of a recursive mutex does not wait for it.
  (The owner of another mutex does, when it locks it a second time.)
\<close>

definition waiters_ok :: "sgx_thread_mutex_t \<Rightarrow> sgx_thread_t list \<Rightarrow> bool" where
  "waiters_ok mx ts \<longleftrightarrow> (ts \<noteq> [] \<longrightarrow> mutex_valid mx) \<and> (m_control mx = SGX_THREAD_MUTEX_RECURSIVE \<longrightarrow> m_owner mx \<notin> set ts)"

definition queues_ok :: "sync \<Rightarrow> (u64 + u64 \<Rightarrow> sgx_thread_t list) \<Rightarrow> bool" where
  "queues_ok s ls \<longleftrightarrow> tq.reps (sy_links s) (queues s) ls
     \<and> (\<forall>i t. t \<in> set (ls i) \<longrightarrow> queue_of (sy_pc s t) = Some i)
     \<and> (\<forall>t m b. sy_pc s t = Lock_Waiting m b \<longrightarrow> t \<in> set (ls (Inl m)))
     \<and> (\<forall>m. waiters_ok (mutexes s m) (ls (Inl m)))"

lemma lock_round_queue:
  assumes "queue_rep nx (m_queue mx) ts" "waiters_ok mx ts" "t \<noteq> SGX_THREAD_T_NULL"
  shows "\<exists>out mx' nx'. mutex_lock_round t mx nx = Some (out, mx', nx')
    \<and> ((\<exists>r. out = Return r) \<and> nx' = nx \<and> t \<notin> set ts \<and> m_queue mx' = m_queue mx \<and> waiters_ok mx' ts
      \<or> (\<exists>us. out = Return 0 \<and> nx' = nx \<and> ts = t # us \<and> m_queue mx' = QUEUE_REMOVE_HEAD nx (m_queue mx) \<and> waiters_ok mx' us)
      \<or> out = Wait_Outside \<and> nx' = nx \<and> t \<in> set ts \<and> mx' = mx
      \<or> out = Wait_Outside \<and> t \<notin> set ts \<and> QUEUE_INSERT_TAIL t (m_queue mx) nx = (m_queue mx', nx') \<and> waiters_ok mx' (ts @ [t]))"
proof -
  have first: "QUEUE_FIRST (m_queue mx) = (if ts = [] then SGX_THREAD_T_NULL else hd ts)" "distinct ts" "SGX_THREAD_T_NULL \<notin> set ts"
    using tq.rep_first [OF assms(1)] tq.rep_elements [OF assms(1)] by simp_all
  then have hd: "ts \<noteq> [] \<Longrightarrow> hd ts \<noteq> SGX_THREAD_T_NULL" by (metis hd_in_set)
  consider (invalid) "\<not> mutex_valid mx"
    | (again) "mutex_valid mx" "m_control mx = SGX_THREAD_MUTEX_RECURSIVE" "m_owner mx = t"
    | (empty) "mutex_valid mx" "m_owner mx = SGX_THREAD_T_NULL" "ts = []"
    | (turn) us where "mutex_valid mx" "m_owner mx = SGX_THREAD_T_NULL" "ts = t # us"
    | (blocked) "mutex_valid mx" "\<not> (m_control mx = SGX_THREAD_MUTEX_RECURSIVE \<and> m_owner mx = t)"
        "m_owner mx \<noteq> SGX_THREAD_T_NULL \<or> ts \<noteq> [] \<and> hd ts \<noteq> t"
    by (metis list.collapse)
  then show ?thesis
  proof cases
    case invalid
    then show ?thesis using assms(2) by (auto simp: mutex_lock_round_def mutex_valid_def waiters_ok_def)
  next
    case again
    then show ?thesis using assms(2) by (auto simp: mutex_lock_round_def mutex_valid_def waiters_ok_def)
  next
    case empty
    then show ?thesis
      using assms(3) first by (auto simp: mutex_lock_round_def mutex_valid_def waiters_ok_def)
  next
    case turn
    then show ?thesis
      using assms(3) first by (auto simp: mutex_lock_round_def mutex_valid_def waiters_ok_def)
  next
    case blocked
    have round: "mutex_lock_round t mx nx =
        (if t \<in> set ts then Some (Wait_Outside, mx, nx)
         else case QUEUE_INSERT_TAIL t (m_queue mx) nx of (q, nx) \<Rightarrow> Some (Wait_Outside, mx\<lparr>m_queue := q\<rparr>, nx))"
      using blocked assms(3) first hd queue_find_rep [OF assms(1), of t]
      by (auto simp: mutex_lock_round_def mutex_valid_def)
    have "waiters_ok (mx\<lparr>m_queue := q\<rparr>) (ts @ [t])" for q
      using assms(2) blocked(1,2) by (auto simp: waiters_ok_def mutex_valid_def)
    then show ?thesis by (cases "t \<in> set ts") (auto simp: round split: prod.splits)
  qed
qed

lemma goto_simps [simp]:
  "mutexes (goto t p s) = mutexes s" "conds (goto t p s) = conds s" "sy_links (goto t p s) = sy_links s"
  "held (goto t p s) = held s" "sy_pc (goto t p s) = (sy_pc s)(t := p)"
  by (simp_all add: goto_def)

lemma queues_simps [simp]:
  "queues (goto t p s) = queues s"
  "queues (set_held t m k s) = queues s"
  "queues (s\<lparr>sy_links := nx\<rparr>) = queues s"
  "queues (set_mutex m mx s) = (queues s)(Inl m := m_queue mx)"
  "queues (set_cond c cx s) = (queues s)(Inr c := c_queue cx)"
  by (auto simp: queues_def sync_defs fun_eq_iff split: sum.splits)

lemma queues_ok_rep: "queues_ok s ls \<Longrightarrow> queue_rep (sy_links s) (queues s i) (ls i)"
  by (simp add: queues_ok_def tq.reps_def)

lemma queues_ok_in: "queues_ok s ls \<Longrightarrow> t \<in> set (ls i) \<Longrightarrow> queue_of (sy_pc s t) = Some i"
  by (simp add: queues_ok_def)

lemma queues_ok_idle: "queues_ok s ls \<Longrightarrow> sy_pc s t = Returned r \<Longrightarrow> t \<notin> set (ls i)"
  using queues_ok_in [of s ls t i] by auto

text \<open>
  All steps change the queues in the same way: only the thread that takes the step may enter a
  queue, and no other thread leaves the queue of a mutex.
\<close>

lemma queues_ok_upd:
  assumes ok: "queues_ok s ls" and reps: "tq.reps (sy_links s') (queues s') ls'"
    and pc: "sy_pc s' = (sy_pc s)(t := p)"
    and self: "\<And>i. t \<in> set (ls' i) \<Longrightarrow> queue_of p = Some i" "\<And>m b. p = Lock_Waiting m b \<Longrightarrow> t \<in> set (ls' (Inl m))"
    and others: "\<And>i. set (ls' i) - {t} \<subseteq> set (ls i)" "\<And>m. set (ls (Inl m)) - {t} \<subseteq> set (ls' (Inl m))"
    and mx: "\<And>m. waiters_ok (mutexes s' m) (ls' (Inl m))"
  shows "queues_ok s' ls'"
  unfolding queues_ok_def
proof (intro conjI allI impI)
  show "queue_of (sy_pc s' u) = Some i" if "u \<in> set (ls' i)" for i u
  proof (cases "u = t")
    case False
    then have "u \<in> set (ls i)" using that others(1) [of i] by blast
    then show ?thesis using ok False by (simp add: pc queues_ok_def)
  qed (use that self(1) pc in simp)
  show "u \<in> set (ls' (Inl m))" if "sy_pc s' u = Lock_Waiting m b" for u m b
  proof (cases "u = t")
    case False
    then have "u \<in> set (ls (Inl m))" using that ok by (auto simp: pc queues_ok_def)
    then show ?thesis using others(2) [of m] False by blast
  qed (use that self(2) pc in auto)
qed (use reps mx in auto)

lemma queues_ok_step_round:
  assumes ok: "queues_ok s ls" and t: "t \<noteq> SGX_THREAD_T_NULL" and pc: "sy_pc s t = Locking m b"
    and round: "mutex_lock_round t (mutexes s m) (sy_links s) = Some (out, mx, nx)"
  shows "\<exists>ls'. queues_ok (after_round t m b out (set_mutex m mx (s\<lparr>sy_links := nx\<rparr>))) ls'"
proof -
  let ?i = "Inl m :: u64 + u64" and ?s = "after_round t m b out (set_mutex m mx (s\<lparr>sy_links := nx\<rparr>))"
  have reps: "tq.reps (sy_links s) (queues s) ls" and q: "queues s ?i = m_queue (mutexes s m)"
    and w: "waiters_ok (mutexes s x) (ls (Inl x))" for x
    using ok by (auto simp: queues_ok_def queues_def)
  have mine: "i \<noteq> ?i \<Longrightarrow> t \<notin> set (ls i)" for i
    using queues_ok_in [OF ok, of t i] pc by auto
  have s: "queues ?s = (queues s)(?i := m_queue mx)" "sy_links ?s = nx" "mutexes ?s = (mutexes s)(m := mx)"
    by (cases out; simp add: sync_defs; simp add: queues_def fun_eq_iff split: sum.split)+
  have rep: "queue_rep (sy_links s) (m_queue (mutexes s m)) (ls ?i)" using queues_ok_rep [OF ok, of ?i] q by simp
  consider (out) r where "out = Return r" "nx = sy_links s" "t \<notin> set (ls ?i)" "m_queue mx = m_queue (mutexes s m)" "waiters_ok mx (ls ?i)"
    | (turn) us where "out = Return 0" "nx = sy_links s" "ls ?i = t # us"
        "m_queue mx = QUEUE_REMOVE_HEAD nx (m_queue (mutexes s m))" "waiters_ok mx us"
    | (again) "out = Wait_Outside" "nx = sy_links s" "t \<in> set (ls ?i)" "mx = mutexes s m"
    | (enter) "out = Wait_Outside" "t \<notin> set (ls ?i)" "QUEUE_INSERT_TAIL t (m_queue (mutexes s m)) (sy_links s) = (m_queue mx, nx)"
        "waiters_ok mx (ls ?i @ [t])"
    using lock_round_queue [OF rep w t] round by auto
  then show ?thesis
  proof cases
    case (out r)
    have none: "t \<notin> set (ls i)" for i using out(3) mine [of i] by (cases "i = ?i") auto
    have "queues_ok ?s ls"
      using out reps q w none tq.reps_same [OF reps, of ?i]
      by (intro queues_ok_upd [OF ok, of _ _ t "Returned (if b then 0 else r)"]) (auto simp: s split: if_splits, auto simp: sync_defs)
    then show ?thesis by blast
  next
    case (turn us)
    have "queue_rep (sy_links s) (m_queue (mutexes s m)) (t # us)" using rep turn by simp
    then have "t \<notin> set us" using tq.rep_elements by fastforce
    then have "queues_ok ?s (ls(?i := us))"
      using tq.reps_remove [OF reps turn(3)] turn q w mine
      by (intro queues_ok_upd [OF ok, of _ _ t "Returned 0"]) (auto simp: s split: if_splits, auto simp: sync_defs)
    then show ?thesis by blast
  next
    case again
    have same: "queues ?s = queues s" "sy_links ?s = sy_links s" "mutexes ?s = mutexes s" "sy_pc ?s = (sy_pc s)(t := Lock_Waiting m b)"
      using s again q by (simp_all add: fun_upd_idem, simp add: sync_defs)
    have "queues_ok ?s ls"
    proof (rule queues_ok_upd [OF ok _ same(4)])
      show "queue_of (Lock_Waiting m b) = Some i" if "t \<in> set (ls i)" for i using mine [of i] that by auto
    qed (use reps w again(3) in \<open>auto simp: same\<close>)
    then show ?thesis by blast
  next
    case enter
    have none: "t \<notin> set (ls i)" for i using enter(2) mine [of i] by (cases "i = ?i") auto
    then have "tq.reps nx ((queues s)(?i := m_queue mx)) (ls(?i := ls ?i @ [t]))"
      using tq.reps_insert [OF reps _ t, of ?i] enter(3) q by simp
    then have "queues_ok ?s (ls(?i := ls ?i @ [t]))"
      using enter w none by (intro queues_ok_upd [OF ok, of _ _ t "Lock_Waiting m b"]) (auto simp: s split: if_splits, auto simp: sync_defs)
    then show ?thesis by blast
  qed
qed

lemma queues_ok_same:
  assumes ok: "queues_ok s ls"
    and same: "queues s' = queues s" "sy_links s' = sy_links s" "sy_pc s' = (sy_pc s)(t := p)"
    and self: "\<And>i. t \<in> set (ls i) \<Longrightarrow> queue_of p = Some i" "\<And>m b. p = Lock_Waiting m b \<Longrightarrow> t \<in> set (ls (Inl m))"
    and mx: "\<And>m. waiters_ok (mutexes s' m) (ls (Inl m))"
  shows "queues_ok s' ls"
proof (rule queues_ok_upd [OF ok _ same(3)])
  show "tq.reps (sy_links s') (queues s') ls" using ok by (simp add: same queues_ok_def)
qed (fact self mx | blast)+

text \<open>A call that returns at once and leaves all queues as they are.\<close>

lemma queues_ok_return:
  assumes ok: "queues_ok s ls" and idle: "sy_pc s t = Returned r"
    and same: "queues s' = queues s" "sy_links s' = sy_links s" "sy_pc s' = (sy_pc s)(t := p)"
    and p: "\<And>m b. p \<noteq> Lock_Waiting m b" and mx: "\<And>m. waiters_ok (mutexes s' m) (ls (Inl m))"
  shows "\<exists>ls'. queues_ok s' ls'"
  by (rule exI, rule queues_ok_same [OF ok same]) (use queues_ok_idle [OF ok idle] p mx in auto)

lemma trylock_queue:
  assumes "queue_rep nx (m_queue mx) ts" "waiters_ok mx ts" "t \<notin> set ts" "t \<noteq> SGX_THREAD_T_NULL"
    and "sgx_thread_mutex_trylock t nx mx = (ret, mx')"
  shows "m_queue mx' = m_queue mx" and "waiters_ok mx' ts"
proof -
  have first: "QUEUE_FIRST (m_queue mx) \<noteq> t" "QUEUE_FIRST (m_queue mx) = SGX_THREAD_T_NULL \<longleftrightarrow> ts = []"
    using tq.rep_first [OF assms(1)] tq.first_null_iff [OF assms(1)] assms(3,4) by (auto split: if_splits)
  have "mx' = mx \<or> mx' = mx\<lparr>m_refcount := m_refcount mx + 1\<rparr>
      \<or> ts = [] \<and> mx' = mx\<lparr>m_owner := t, m_refcount := m_refcount mx + 1\<rparr>"
    using assms(5) first by (auto simp: sgx_thread_mutex_trylock_def split: if_splits)
  then show "m_queue mx' = m_queue mx" "waiters_ok mx' ts"
    using assms(2) by (auto simp: waiters_ok_def mutex_valid_def)
qed

lemma unlock_lazy_queue:
  assumes "sgx_thread_mutex_unlock_lazy t mx w = (ret, mx', waiter)" "waiters_ok mx ts" "SGX_THREAD_T_NULL \<notin> set ts"
  shows "m_queue mx' = m_queue mx" and "waiters_ok mx' ts"
proof -
  have "mx' = mx \<or> (\<exists>r. mx' = mx\<lparr>m_refcount := r\<rparr>) \<or> (\<exists>r. mx' = mx\<lparr>m_refcount := r, m_owner := SGX_THREAD_T_NULL\<rparr>)"
    using assms(1) by (auto simp: sgx_thread_mutex_unlock_lazy_def Let_def split: if_splits)
  then show "m_queue mx' = m_queue mx" "waiters_ok mx' ts"
    using assms(2,3) by (auto simp: waiters_ok_def mutex_valid_def)
qed

lemma unlock_queue:
  assumes "sgx_thread_mutex_unlock t mx = (ret, mx', woken)" "waiters_ok mx ts" "SGX_THREAD_T_NULL \<notin> set ts"
  shows "m_queue mx' = m_queue mx" and "waiters_ok mx' ts"
proof -
  obtain waiter where "sgx_thread_mutex_unlock_lazy t mx SGX_THREAD_T_NULL = (ret, mx', waiter)"
    using assms(1) by (auto simp: sgx_thread_mutex_unlock_def split: prod.splits if_splits)
  from unlock_lazy_queue [OF this assms(2,3)] show "m_queue mx' = m_queue mx" "waiters_ok mx' ts" by simp_all
qed

text \<open>Removing threads from the queue of a condition variable.\<close>

lemma queues_ok_cond:
  assumes ok: "queues_ok s ls" and idle: "sy_pc s t = Returned r"
    and reps: "tq.reps (sy_links s) ((queues s)(Inr c := c_queue cx)) (ls(Inr c := us))" and us: "set us \<subseteq> set (ls (Inr c))"
  shows "\<exists>ls'. queues_ok (goto t (Returned ret) (set_cond c cx s)) ls'"
proof
  show "queues_ok (goto t (Returned ret) (set_cond c cx s)) (ls(Inr c := us))"
    by (rule queues_ok_upd [OF ok, of _ _ t "Returned ret"])
      (use reps us queues_ok_idle [OF ok idle] ok in \<open>auto simp: queues_ok_def split: if_splits, auto simp: sync_defs\<close>)
qed

lemma cond_signal_queue:
  assumes "queue_rep nx (c_queue cx) ts" "sgx_thread_cond_signal nx cx = (ret, cx', woken)"
  shows "ret = 0" and "c_lock cx' = c_lock cx" and "queue_rep nx (c_queue cx') (tl ts)"
    and "woken = (if ts = [] then None else Some (hd ts))"
    and "c_queue cx' = (if ts = [] then c_queue cx else QUEUE_REMOVE_HEAD nx (c_queue cx))"
proof -
  have f: "QUEUE_FIRST (c_queue cx) = SGX_THREAD_T_NULL \<longleftrightarrow> ts = []" "ts \<noteq> [] \<Longrightarrow> QUEUE_FIRST (c_queue cx) = hd ts"
    using tq.first_null_iff [OF assms(1)] tq.rep_first [OF assms(1)] by auto
  show q: "c_queue cx' = (if ts = [] then c_queue cx else QUEUE_REMOVE_HEAD nx (c_queue cx))"
    and "ret = 0" "c_lock cx' = c_lock cx" "woken = (if ts = [] then None else Some (hd ts))"
    using assms(2) f by (auto simp: sgx_thread_cond_signal_def Let_def split: if_splits)
  show "queue_rep nx (c_queue cx') (tl ts)"
    using assms(1) by (cases ts) (auto simp: q intro: tq.rep_remove)
qed

lemma queue_rep_length:
  assumes "queue_rep nx q ts"
  shows "length ts < 2 ^ 64"
proof -
  have "distinct ts" "set ts \<subset> UNIV" using tq.rep_elements [OF assms] by auto
  then have "length ts < card (UNIV :: u64 set)" using psubset_card_mono [of UNIV "set ts"] by (simp add: distinct_card)
  then show ?thesis by (simp add: card_word)
qed

lemma still_queued_rep:
  assumes "queue_rep nx (c_queue cx) ts" "t \<noteq> SGX_THREAD_T_NULL"
  shows "cond_wait_still_queued t cx nx = Some (t \<in> set ts)"
  using queue_find_rep [OF assms(1), of t] assms(2) by (simp add: cond_wait_still_queued_def)

lemma cond_broadcast_queue:
  assumes "queue_rep nx (c_queue cx) ts"
  shows "sgx_thread_cond_broadcast mem_ok nx cx =
    Some (if ts = [] then (0, cx, 0, []) else if \<not> mem_ok then (ENOMEM, cx, 0, [])
          else (0, cx\<lparr>c_queue := QUEUE_INIT\<rparr>, of_nat (length ts), ts))"
  using queue_count_rep [OF assms] queue_drain_rep [OF assms, of "[]"] of_nat_u64_0 [OF queue_rep_length [OF assms]]
  by (simp add: sgx_thread_cond_broadcast_def)

text \<open>A thread that is about to release the mutex in \<^verbatim>\<open>sgx_thread_cond_wait\<close> holds it.\<close>

definition waits_held :: "sync \<Rightarrow> bool" where
  "waits_held s \<longleftrightarrow> (\<forall>t c m. sy_pc s t = Cond_Queued c m \<longrightarrow> 0 < held s t m)"

lemma step_waits_held:
  assumes "waits_held s" "disciplined t a s" "step g t a s s'"
  shows "waits_held s'"
  using assms(3)
proof cases
  case (step_lock_round m b out mx nx)
  then show ?thesis using assms(1) by (cases out) (auto simp: waits_held_def sync_defs)
qed (use assms(1,2) in \<open>auto simp: waits_held_def sync_defs split: if_splits\<close>)

lemma queues_ok_init:
  assumes ok: "queues_ok s ls" and idle: "sy_pc s t = Returned r" and "QUEUE_FIRST (m_queue (mutexes s m)) = SGX_THREAD_T_NULL"
    and "m_queue mx = QUEUE_INIT \<or> m_queue mx = m_queue (mutexes s m)"
  shows "\<exists>ls'. queues_ok (goto t (Returned ret) (set_mutex m mx s)) ls'"
proof -
  have reps: "tq.reps (sy_links s) (queues s) ls" and w: "waiters_ok (mutexes s x) (ls (Inl x))" for x
    using ok by (auto simp: queues_ok_def)
  have e: "ls (Inl m) = []" using tq.first_null_iff [OF queues_ok_rep [OF ok, of "Inl m"]] assms(3) by (simp add: queues_def)
  then have e': "ls(Inl m := []) = ls" by (simp add: fun_upd_idem)
  have "tq.reps (sy_links s) ((queues s)(Inl m := m_queue mx)) ls"
    using tq.reps_reset [OF reps, of "Inl m"] tq.reps_same [OF reps, of "Inl m"] assms(4) unfolding e' by (auto simp: queues_def)
  moreover have "waiters_ok mx (ls (Inl m))" using e by (simp add: waiters_ok_def)
  ultimately have "queues_ok (goto t (Returned ret) (set_mutex m mx s)) ls"
    using queues_ok_idle [OF ok idle] w
    by (intro queues_ok_upd [OF ok, of _ _ t "Returned ret"]) (auto, auto simp: sync_defs)
  then show ?thesis by blast
qed

lemma queues_ok_mutex:
  assumes ok: "queues_ok s ls" and "m_queue mx = m_queue (mutexes s m)" "waiters_ok mx (ls (Inl m))"
    and s': "mutexes s' = (mutexes s)(m := mx)" "\<And>c. c_queue (conds s' c) = c_queue (conds s c)"
  shows "queues s' = queues s" and "waiters_ok (mutexes s' x) (ls (Inl x))"
  using assms by (auto simp: queues_ok_def queues_def fun_eq_iff split: sum.split)

lemma step_queues_ok:
  assumes ok: "queues_ok s ls" and mok: "mutexes_ok n s" and "n < 2 ^ 64" and hold: "waits_held s"
    and t: "t \<noteq> SGX_THREAD_T_NULL" and "disciplined t a s" and st: "step g t a s s'"
  shows "\<exists>ls'. queues_ok s' ls'"
proof -
  have reps: "tq.reps (sy_links s) (queues s) ls" and w: "waiters_ok (mutexes s x) (ls (Inl x))" for x
    using ok by (auto simp: queues_ok_def)
  have null: "SGX_THREAD_T_NULL \<notin> set (ls i)" for i using tq.rep_elements [OF queues_ok_rep [OF ok, of i]] by simp
  have rc: "queue_rep (sy_links s) (c_queue (conds s c)) (ls (Inr c))" for c
    using queues_ok_rep [OF ok, of "Inr c"] by (simp add: queues_def)
  have rm: "queue_rep (sy_links s) (m_queue (mutexes s m)) (ls (Inl m))" for m
    using queues_ok_rep [OF ok, of "Inl m"] by (simp add: queues_def)
  note return = queues_ok_return [OF ok]
  from st show ?thesis
  proof cases
    case (step_init r m ret mx)
    then show ?thesis using assms(6) queues_ok_init [OF ok step_init(3), of m mx] by (auto simp: sgx_thread_mutex_init_def)
  next
    case (step_destroy r m ret mx)
    show ?thesis
    proof (cases "QUEUE_FIRST (m_queue (mutexes s m)) = SGX_THREAD_T_NULL")
      case True
      moreover have "m_queue mx = m_queue (mutexes s m)"
        using step_destroy by (auto simp: sgx_thread_mutex_destroy_def split: if_splits)
      ultimately show ?thesis using queues_ok_init [OF ok step_destroy(3), of m mx] step_destroy(2) by simp
    next
      case False
      then have "mx = mutexes s m" using step_destroy by (simp add: sgx_thread_mutex_destroy_def)
      then show ?thesis
        using step_destroy w by (intro return [OF step_destroy(3), of s' "Returned ret"]) (auto simp: sync_defs queues_def fun_eq_iff split: sum.split)
    qed
  next
    case (step_lock_round m b out mx nx)
    then show ?thesis using queues_ok_step_round [OF ok t] by simp
  next
    case (step_trylock r m ret mx)
    note q = trylock_queue [OF rm w queues_ok_idle [OF ok step_trylock(3)] t step_trylock(6)]
    show ?thesis
      by (rule return [OF step_trylock(3), of s' "Returned ret"])
        (use queues_ok_mutex [OF ok q, of s'] in \<open>auto simp: step_trylock(2) sync_defs\<close>)
  next
    case (step_unlock r m ret mx woken)
    note q = unlock_queue [OF step_unlock(6) w null]
    show ?thesis
      by (rule return [OF step_unlock(3), of s' "Returned ret"])
        (use queues_ok_mutex [OF ok q, of s'] in \<open>auto simp: step_unlock(2) sync_defs\<close>)
  next
    case (step_cond_init r c ret cx)
    then have "ls (Inr c) = []" using assms(6) tq.first_null_iff [OF rc] by simp
    moreover have "c_queue cx = QUEUE_INIT" using step_cond_init by (auto simp: sgx_thread_cond_init_def)
    ultimately show ?thesis
      using tq.reps_reset [OF reps, of "Inr c"] queues_ok_cond [OF ok step_cond_init(3), of c cx "[]"] step_cond_init(2) by simp
  next
    case (step_wait r c m cx nx)
    obtain q where q: "QUEUE_INSERT_TAIL t (queues s (Inr c)) (sy_links s) = (q, nx)" "cx = (conds s c)\<lparr>c_lock := 1, c_queue := q\<rparr>"
      using step_wait by (auto simp: cond_wait_enqueue_def queues_def split: prod.splits)
    have none: "t \<notin> set (ls i)" for i by (rule queues_ok_idle [OF ok step_wait(3)])
    then have "tq.reps nx ((queues s)(Inr c := q)) (ls(Inr c := ls (Inr c) @ [t]))"
      using tq.reps_insert [OF reps q(1) t] by simp
    then have "queues_ok s' (ls(Inr c := ls (Inr c) @ [t]))"
      using w none q(2)
      by (intro queues_ok_upd [OF ok, of _ _ t "Cond_Queued c m"])
        (auto simp: step_wait(2) split: if_splits, auto simp: sync_defs queues_def fun_eq_iff split: sum.split)
    then show ?thesis by blast
  next
    case (step_wait_unlock c m ret cx mx waiter)
    then have u: "sgx_thread_mutex_unlock_lazy t (mutexes s m) SGX_THREAD_T_NULL = (ret, mx, waiter)" "cx = (conds s c)\<lparr>c_lock := 0\<rparr>"
      by (auto simp: cond_wait_unlock_def split: prod.splits)
    have "0 < held s t m" using hold step_wait_unlock(3) by (simp add: waits_held_def)
    moreover have "mutex_ok n (\<lambda>u. held s u m) (mutexes s m)" using mok by (simp add: mutexes_ok_def)
    ultimately have "ret = 0" using unlock_lazy_ok(2) [OF _ assms(3) t u(1)] by blast
    then have s': "s' = goto t (Cond_Waiting c m waiter) (set_held t m (lost 0 (held s t m)) (set_cond c cx (set_mutex m mx s)))"
      using step_wait_unlock(2) by simp
    have "mutexes s' = (mutexes s)(m := mx)" "c_queue (conds s' x) = c_queue (conds s x)" for x
      by (simp_all add: s' sync_defs u(2))
    note q = queues_ok_mutex [OF ok unlock_lazy_queue [OF u(1) w null] this]
    have "queue_of (Cond_Waiting c m waiter) = Some i" if "t \<in> set (ls i)" for i
      using queues_ok_in [OF ok that] step_wait_unlock(3) by simp
    then have "queues_ok s' ls"
      by (intro queues_ok_same [OF ok q(1), of t "Cond_Waiting c m waiter"] q(2)) (simp_all add: s' sync_defs)
    then show ?thesis by blast
  next
    case (step_wait_check c m waiter queued)
    then have "queued \<longleftrightarrow> t \<in> set (ls (Inr c))"
      using still_queued_rep [OF rc t, of c] by simp
    moreover have "i = Inr c" if "t \<in> set (ls i)" for i using queues_ok_in [OF ok that] step_wait_check(3) by simp
    ultimately have "queue_of (if queued then Cond_Waiting c m SGX_THREAD_T_NULL else Locking m True) = Some i"
      if "t \<in> set (ls i)" for i using that by fastforce
    then have "queues_ok s' ls"
      by (intro queues_ok_same [OF ok _ _ _ _ _, of s' t "if queued then Cond_Waiting c m SGX_THREAD_T_NULL else Locking m True"])
        (use w in \<open>auto simp: step_wait_check(2) sync_defs queues_def fun_eq_iff split: if_splits sum.split\<close>)
    then show ?thesis by blast
  next
    case (step_lock_wake m b)
    have "queue_of (Locking m b) = Some i" if "t \<in> set (ls i)" for i
      using queues_ok_in [OF ok that] step_lock_wake(3) by simp
    then have "queues_ok s' ls"
      by (intro queues_ok_same [OF ok, of s' t "Locking m b"]) (use w in \<open>simp_all add: step_lock_wake(2)\<close>)
    then show ?thesis by blast
  next
    case (step_signal r c ret cx woken)
    note sig = cond_signal_queue [OF rc step_signal(6)]
    have "tq.reps (sy_links s) ((queues s)(Inr c := c_queue cx)) (ls(Inr c := tl (ls (Inr c))))"
      using tq.reps_same [OF reps, of "Inr c"] tq.reps_remove [OF reps, of "Inr c"]
      by (cases "ls (Inr c)") (auto simp: sig(5) queues_def fun_upd_idem)
    from queues_ok_cond [OF ok step_signal(3) this] show ?thesis
      using list.set_sel(2) step_signal(2) by (cases "ls (Inr c)") (auto simp: step_signal(2))
  next
    case (step_broadcast r c mem_ok ret cx n_waiter waiters)
    have "c_queue cx = c_queue (conds s c) \<or> c_queue cx = QUEUE_INIT"
      using step_broadcast(6) unfolding cond_broadcast_queue [OF rc] by (auto split: if_splits)
    then have "\<exists>us. tq.reps (sy_links s) ((queues s)(Inr c := c_queue cx)) (ls(Inr c := us)) \<and> set us \<subseteq> set (ls (Inr c))"
    proof
      assume "c_queue cx = c_queue (conds s c)"
      then show ?thesis
        using tq.reps_same [OF reps, of "Inr c"] by (intro exI [of _ "ls (Inr c)"]) (simp add: queues_def fun_upd_idem)
    next
      assume "c_queue cx = QUEUE_INIT"
      then show ?thesis using tq.reps_reset [OF reps, of "Inr c"] by (intro exI [of _ "[]"]) simp
    qed
    then show ?thesis using queues_ok_cond [OF ok step_broadcast(3)] step_broadcast(2) by blast
  next
    case (step_invalid r)
    show ?thesis
      by (rule return [OF step_invalid(2), of s' "Returned EINVAL"]) (use w in \<open>simp_all add: step_invalid(1)\<close>)
  next
    case (step_lock r m)
    show ?thesis
      by (rule return [OF step_lock(3), of s' "Locking m False"]) (use w in \<open>simp_all add: step_lock(2)\<close>)
  next
    case (step_cond_destroy r c)
    show ?thesis
      by (rule return [OF step_cond_destroy(3), of s' "Returned (sgx_thread_cond_destroy (conds s c))"])
        (use w in \<open>simp_all add: step_cond_destroy(2)\<close>)
  qed
qed

section \<open>The locks of the condition variables\<close>

text \<open>
  The lock of a condition variable is taken between two steps only by a thread that is about to
  release its mutex in \<^verbatim>\<open>sgx_thread_cond_wait\<close>.
\<close>

definition cond_locks_ok :: "sync \<Rightarrow> bool" where
  "cond_locks_ok s \<longleftrightarrow>
     (\<forall>c t m. sy_pc s t = Cond_Queued c m \<longrightarrow> c_lock (conds s c) \<noteq> 0 \<and> (\<forall>u k. sy_pc s u = Cond_Queued c k \<longrightarrow> u = t))"

lemma cond_locks_same:
  assumes "cond_locks_ok s" "\<And>c. c_lock (conds s' c) = c_lock (conds s c)" "sy_pc s' = (sy_pc s)(t := p)"
    and "\<And>c m. sy_pc s t \<noteq> Cond_Queued c m" "\<And>c m. p \<noteq> Cond_Queued c m"
  shows "cond_locks_ok s'"
proof -
  have "sy_pc s' u = Cond_Queued c m \<longleftrightarrow> sy_pc s u = Cond_Queued c m" for u c m
    using assms(3-5) by auto
  then show ?thesis using assms(1,2) by (simp add: cond_locks_ok_def)
qed

lemma cond_locks_enter:
  assumes "cond_locks_ok s" "c_lock (conds s c) = 0" "sy_pc s t = Returned r"
    and "conds s' = (conds s)(c := cx)" "c_lock cx = 1" "sy_pc s' = (sy_pc s)(t := Cond_Queued c m)"
  shows "cond_locks_ok s'"
proof -
  have "sy_pc s' u = Cond_Queued x k \<longleftrightarrow> (if u = t then x = c \<and> k = m else sy_pc s u = Cond_Queued x k)" for u x k
    using assms(6) by auto
  moreover have "sy_pc s u \<noteq> Cond_Queued c k" for u k using assms(1,2) by (auto simp: cond_locks_ok_def)
  moreover have "sy_pc s t \<noteq> Cond_Queued x k" for x k using assms(3) by simp
  ultimately show ?thesis using assms(1,4,5) unfolding cond_locks_ok_def by (auto split: if_splits) blast
qed

lemma cond_locks_leave:
  assumes "cond_locks_ok s" "sy_pc s t = Cond_Queued c m"
    and "conds s' = (conds s)(c := cx)" "c_lock cx = 0" "sy_pc s' = (sy_pc s)(t := p)" "\<And>c m. p \<noteq> Cond_Queued c m"
  shows "cond_locks_ok s'"
proof -
  have "sy_pc s' u = Cond_Queued x k \<longleftrightarrow> u \<noteq> t \<and> sy_pc s u = Cond_Queued x k" for u x k
    using assms(5,6) by auto
  moreover have "u \<noteq> t \<Longrightarrow> sy_pc s u \<noteq> Cond_Queued c k" for u k using assms(1,2) unfolding cond_locks_ok_def by blast
  ultimately show ?thesis using assms(1,3,4) unfolding cond_locks_ok_def by (auto split: if_splits) blast
qed

lemma broadcast_lock:
  "sgx_thread_cond_broadcast mem_ok nx cx = Some (ret, cx', k, ws) \<Longrightarrow> c_lock cx' = c_lock cx"
  by (auto simp: sgx_thread_cond_broadcast_def split: option.splits if_splits)

lemma signal_lock: "sgx_thread_cond_signal nx cx = (ret, cx', woken) \<Longrightarrow> c_lock cx' = c_lock cx"
  by (auto simp: sgx_thread_cond_signal_def Let_def split: if_splits)

lemma step_cond_locks:
  assumes ok: "cond_locks_ok s" and "disciplined t a s" and st: "step g t a s s'"
  shows "cond_locks_ok s'"
  using st
proof cases
  case (step_lock_round m b out mx nx)
  show ?thesis
  proof (cases out)
    case (Return r)
    then show ?thesis
      using step_lock_round by (intro cond_locks_same [OF ok, of _ t "Returned (if b then 0 else r)"]) (auto simp: sync_defs)
  next
    case Wait_Outside
    then show ?thesis
      using step_lock_round by (intro cond_locks_same [OF ok, of _ t "Lock_Waiting m b"]) (auto simp: sync_defs)
  qed
next
  case (step_wait r c m cx nx)
  then have "c_lock cx = 1" by (auto simp: cond_wait_enqueue_def split: prod.splits)
  then show ?thesis
    using step_wait by (intro cond_locks_enter [OF ok step_wait(5,3), of _ cx m]) (auto simp: sync_defs)
next
  case (step_wait_unlock c m ret cx mx waiter)
  then have "c_lock cx = 0" by (auto simp: cond_wait_unlock_def split: prod.splits)
  then show ?thesis
    using step_wait_unlock
    by (intro cond_locks_leave [OF ok step_wait_unlock(3), of _ cx "if ret = 0 then Cond_Waiting c m waiter else Returned ret"])
      (auto simp: sync_defs)
next
  case (step_cond_init r c ret cx)
  then have "c_lock cx = c_lock (conds s c)"
    using assms(2) by (auto simp: sgx_thread_cond_init_def SGX_SPINLOCK_INITIALIZER_def)
  then show ?thesis
    using step_cond_init by (intro cond_locks_same [OF ok, of _ t "Returned ret"]) (auto simp: sync_defs)
next
  case (step_wait_check c m waiter queued)
  then show ?thesis
    by (intro cond_locks_same [OF ok, of _ t "if queued then Cond_Waiting c m SGX_THREAD_T_NULL else Locking m True"]) auto
next
  case (step_lock_wake m b)
  then show ?thesis by (intro cond_locks_same [OF ok, of _ t "Locking m b"]) auto
next
  case (step_lock r m)
  then show ?thesis by (intro cond_locks_same [OF ok, of _ t "Locking m False"]) auto
qed (use signal_lock broadcast_lock in
    \<open>intro cond_locks_same [OF ok, of _ t "Returned _"]; force simp: sync_defs\<close>)+

section \<open>Reachable states\<close>

lemma run_mutexes: "run g n s \<Longrightarrow> n \<le> 2 ^ 64 \<Longrightarrow> mutexes_ok n s"
proof (induction rule: run.induct)
  case (run_initial s)
  then show ?case by (auto simp: mutexes_ok_def mutex_ok_def initial_def)
next
  case (run_step n s t a s')
  then show ?case by (intro step_mutexes_ok [OF _ _ run_step.hyps(2-4)]) auto
qed

lemma run_waits_held: "run g n s \<Longrightarrow> waits_held s"
  by (induction rule: run.induct) (simp add: waits_held_def initial_def, rule step_waits_held)

lemma run_cond_locks: "run g n s \<Longrightarrow> cond_locks_ok s"
  by (induction rule: run.induct) (simp add: cond_locks_ok_def initial_def, rule step_cond_locks)

lemma run_queues: "run g n s \<Longrightarrow> n \<le> 2 ^ 64 \<Longrightarrow> \<exists>ls. queues_ok s ls"
proof (induction rule: run.induct)
  case (run_initial s)
  then have "queues_ok s (\<lambda>_. [])"
    by (auto simp: queues_ok_def tq.reps_def waiters_ok_def initial_def queues_def tq.rep_empty split: sum.split)
  then show ?case by blast
next
  case (run_step n s t a s')
  then obtain ls where "queues_ok s ls" by auto
  then show ?case
    using step_queues_ok [OF _ run_mutexes [OF run_step.hyps(1)] _ run_waits_held [OF run_step.hyps(1)] run_step.hyps(2-4)]
      run_step.prems by simp
qed

text \<open>
  C21: mutual exclusion. In every state that fewer than \<open>2 ^ 64\<close> steps of disciplined threads reach,
  a mutex is held by at most one thread; that thread is its owner, the counter of the mutex is the
  number of times that the thread has locked it, and a non-recursive mutex is locked only once.
\<close>

theorem mutual_exclusion:
  assumes "run g n s" "n < 2 ^ 64" "0 < held s t m"
  shows "(\<forall>u. 0 < held s u m \<longrightarrow> u = t) \<and> m_owner (mutexes s m) = t
    \<and> unat (m_refcount (mutexes s m)) = held s t m
    \<and> (m_control (mutexes s m) = SGX_THREAD_MUTEX_NONRECURSIVE \<longrightarrow> held s t m = 1)"
proof -
  have ok: "mutex_ok n (\<lambda>u. held s u m) (mutexes s m)"
    using run_mutexes [OF assms(1)] assms(2) by (simp add: mutexes_ok_def)
  have o: "m_owner (mutexes s m) = t" using mutex_ok_other [OF ok, of t] assms(3) by fastforce
  have others: "u = t" if "0 < held s u m" for u using mutex_ok_other [OF ok, of u] that o by fastforce
  have "held s t m \<le> n" by (rule mutex_okD(1) [OF ok])
  then have "unat (m_refcount (mutexes s m)) = held s t m"
    using assms(2) mutex_okD(2) [OF ok] o by (simp add: unat_of_nat)
  moreover have "m_control (mutexes s m) = SGX_THREAD_MUTEX_NONRECURSIVE \<longrightarrow> held s t m = 1"
    using mutex_okD(3) [OF ok] o assms(3) by auto
  moreover have "\<forall>u. 0 < held s u m \<longrightarrow> u = t" using others by (intro allI impI)
  ultimately show ?thesis using o by (intro conjI)
qed

text \<open>
  C22: the loops of the library end. In every reachable state, with all queues over one store of
  links, a round of \<^verbatim>\<open>sgx_thread_mutex_lock\<close> returns or waits, a thread that comes back in
  \<^verbatim>\<open>sgx_thread_cond_wait\<close> learns whether it is still queued, and \<^verbatim>\<open>sgx_thread_cond_broadcast\<close>
  returns and writes as many waiters as its array has room for.
\<close>

theorem queue_loops_end:
  assumes "run g n s" "n < 2 ^ 64" "t \<noteq> SGX_THREAD_T_NULL"
  shows "mutex_lock_round t (mutexes s m) (sy_links s) \<noteq> None
    \<and> cond_wait_still_queued t (conds s c) (sy_links s) \<noteq> None
    \<and> (\<exists>ret cx n_waiter waiters. sgx_thread_cond_broadcast mem_ok (sy_links s) (conds s c) = Some (ret, cx, n_waiter, waiters)
         \<and> length waiters = unat n_waiter)"
proof -
  obtain ls where ok: "queues_ok s ls" using run_queues [OF assms(1)] assms(2) by auto
  have rm: "queue_rep (sy_links s) (m_queue (mutexes s m)) (ls (Inl m))"
    and rc: "queue_rep (sy_links s) (c_queue (conds s c)) (ls (Inr c))"
    using queues_ok_rep [OF ok, of "Inl m"] queues_ok_rep [OF ok, of "Inr c"] by (simp_all add: queues_def)
  have "waiters_ok (mutexes s m) (ls (Inl m))" using ok by (simp add: queues_ok_def)
  then show ?thesis
    using lock_round_queue [OF rm _ assms(3)] still_queued_rep [OF rc assms(3)] queue_rep_length [OF rc]
    unfolding cond_broadcast_queue [OF rc] by (auto simp: unat_of_nat)
qed

lemma lock_round_turn:
  assumes "mutex_valid mx" "m_owner mx = SGX_THREAD_T_NULL" "QUEUE_FIRST (m_queue mx) = u" "u \<noteq> SGX_THREAD_T_NULL"
  shows "mutex_lock_round u mx nx = Some (Return 0, mx\<lparr>m_queue := QUEUE_REMOVE_HEAD nx (m_queue mx), m_owner := u,
    m_refcount := m_refcount mx + 1\<rparr>, nx)"
  using assms by (auto simp: mutex_lock_round_def mutex_valid_def)

lemma round_takes_mutex:
  assumes run: "run g n s" and n: "n < 2 ^ 64" and pc: "sy_pc s u = Locking m b" and u: "u \<noteq> SGX_THREAD_T_NULL"
    and mx: "mutex_valid (mutexes s m)" "m_owner (mutexes s m) = SGX_THREAD_T_NULL" "QUEUE_FIRST (m_queue (mutexes s m)) = u"
  shows "\<exists>s'. step g u Lock_Round s s' \<and> m_owner (mutexes s' m) = u \<and> held s' u m = 1 \<and> sy_pc s' = (sy_pc s)(u := Returned 0)"
proof -
  have ok: "mutex_ok n (\<lambda>t. held s t m) (mutexes s m)" using run_mutexes [OF run] n by (simp add: mutexes_ok_def)
  have free: "m_lock (mutexes s m) = 0" "held s u m = 0"
    using ok mutex_ok_free [OF ok mx(2), of u] unfolding mutex_ok_def by blast+
  define mx' where "mx' = (mutexes s m)\<lparr>m_queue := QUEUE_REMOVE_HEAD (sy_links s) (m_queue (mutexes s m)), m_owner := u,
    m_refcount := m_refcount (mutexes s m) + 1\<rparr>"
  define s' where "s' = after_round u m b (Return 0) (set_mutex m mx' (s\<lparr>sy_links := sy_links s\<rparr>))"
  have "step g u Lock_Round s s'"
    unfolding s'_def mx'_def by (rule step_lock_round [OF pc free(1) lock_round_turn [OF mx u]])
  moreover have "m_owner (mutexes s' m) = u" "held s' u m = 1" "sy_pc s' = (sy_pc s)(u := Returned 0)"
    by (simp_all add: s'_def mx'_def sync_defs gained_def free(2))
  ultimately show ?thesis by auto
qed

text \<open>A thread that is not the first in the queue of a free mutex leaves it free.\<close>

lemma lock_round_not_first:
  assumes "m_owner mx = SGX_THREAD_T_NULL" "QUEUE_FIRST (m_queue mx) \<noteq> v" "QUEUE_FIRST (m_queue mx) \<noteq> SGX_THREAD_T_NULL"
    and "mutex_lock_round v mx nx = Some (out, mx', nx')"
  shows "m_owner mx' = SGX_THREAD_T_NULL"
  using assms by (auto simp: mutex_lock_round_def Let_def split: if_splits option.splits prod.splits)

lemma others_leave_mutex:
  assumes free: "m_owner (mutexes s m) = SGX_THREAD_T_NULL"
    and first: "QUEUE_FIRST (m_queue (mutexes s m)) \<noteq> v" "QUEUE_FIRST (m_queue (mutexes s m)) \<noteq> SGX_THREAD_T_NULL"
    and "a \<in> {Lock_Round, Trylock m}" and st: "step g v a s s'"
  shows "m_owner (mutexes s' m) = SGX_THREAD_T_NULL"
  using st
proof cases
  case (step_lock_round m' b out mx nx)
  then show ?thesis
    using free lock_round_not_first [OF free first] by (cases out; cases "m' = m") (auto simp: sync_defs)
next
  case (step_trylock r m' ret mx)
  then show ?thesis
    using assms(1-4) by (auto simp: sync_defs sgx_thread_mutex_trylock_def split: if_splits)
qed (use assms in \<open>auto simp: sync_defs\<close>)

text \<open>
  C23: a released mutex is handed on in the order of the queue. When a thread waits for a mutex that
  nobody owns, then from this very state the first waiter takes the mutex with at most two steps
  of its own and returns from \<^verbatim>\<open>sgx_thread_mutex_lock\<close>, while the other threads stay where they are; and no
  other thread can take the mutex before it.
\<close>

theorem mutex_handoff:
  assumes "run g n s" "n < 2 ^ 64 - 1" "m_owner (mutexes s m) = SGX_THREAD_T_NULL" "sy_pc s t = Lock_Waiting m b"
  shows "\<exists>u. u = QUEUE_FIRST (m_queue (mutexes s m)) \<and> u \<noteq> SGX_THREAD_T_NULL
    \<and> (\<exists>k s'. k \<le> 2 \<and> thread_steps g u k s s' \<and> m_owner (mutexes s' m) = u \<and> held s' u m = 1
         \<and> sy_pc s' = (sy_pc s)(u := Returned 0))
    \<and> (\<forall>v a s'. v \<noteq> u \<and> a \<in> {Lock_Round, Trylock m} \<and> step g v a s s' \<longrightarrow> m_owner (mutexes s' m) = SGX_THREAD_T_NULL)"
proof -
  obtain ls where ok: "queues_ok s ls" using run_queues [OF assms(1)] assms(2) by auto
  have "t \<in> set (ls (Inl m))" and w: "waiters_ok (mutexes s m) (ls (Inl m))" using ok assms(4) by (auto simp: queues_ok_def)
  then obtain u us where us: "ls (Inl m) = u # us" by (cases "ls (Inl m)") auto
  have rep: "queue_rep (sy_links s) (m_queue (mutexes s m)) (u # us)"
    using queues_ok_rep [OF ok, of "Inl m"] us by (simp add: queues_def)
  have first: "QUEUE_FIRST (m_queue (mutexes s m)) = u" "u \<noteq> SGX_THREAD_T_NULL" and valid: "mutex_valid (mutexes s m)"
    using tq.rep_first [OF rep] tq.rep_elements [OF rep] w us by (auto simp: waiters_ok_def)
  have "queue_of (sy_pc s u) = Some (Inl m)" using queues_ok_in [OF ok, of u "Inl m"] us by simp
  then consider b' where "sy_pc s u = Locking m b'" | b' where "sy_pc s u = Lock_Waiting m b'" by (cases "sy_pc s u") auto
  then have "\<exists>k s'. k \<le> 2 \<and> thread_steps g u k s s' \<and> m_owner (mutexes s' m) = u \<and> held s' u m = 1
      \<and> sy_pc s' = (sy_pc s)(u := Returned 0)"
  proof cases
    case (1 b')
    then obtain s' where "step g u Lock_Round s s'" "m_owner (mutexes s' m) = u" "held s' u m = 1" "sy_pc s' = (sy_pc s)(u := Returned 0)"
      using round_takes_mutex [OF assms(1) _ 1 first(2) valid assms(3) first(1)] assms(2) by auto
    moreover from this(1) have "thread_steps g u 1 s s'" using steps_step [OF steps_refl, where a = Lock_Round] by simp
    ultimately show ?thesis by (intro exI [of _ "1 :: nat"] exI [of _ s']) simp
  next
    case (2 b')
    let ?s = "goto u (Locking m b') s"
    have wake: "thread_steps g u 1 s ?s" using steps_step [OF steps_refl _ step_lock_wake [OF 2]] by simp
    have run: "run g (n + 1) ?s" by (rule run_thread_steps [OF wake assms(1) first(2)])
    obtain s' where "step g u Lock_Round ?s s'" "m_owner (mutexes s' m) = u" "held s' u m = 1" "sy_pc s' = (sy_pc ?s)(u := Returned 0)"
      using round_takes_mutex [OF run, of u m b'] assms(2,3) first valid by auto
    moreover from this(1) have "thread_steps g u 2 s s'" using steps_step [OF wake, where a = Lock_Round] by (simp add: eval_nat_numeral)
    ultimately show ?thesis by (intro exI [of _ "2 :: nat"] exI [of _ s']) simp
  qed
  moreover have "m_owner (mutexes s' m) = SGX_THREAD_T_NULL" if "v \<noteq> u" "a \<in> {Lock_Round, Trylock m}" "step g v a s s'" for v a s'
    using others_leave_mutex [OF assms(3) _ _ that(2,3)] first that(1) by auto
  ultimately show ?thesis using first by auto
qed

text \<open>
  C24: a signal is not lost. When \<^verbatim>\<open>sgx_thread_cond_signal\<close> finds a waiter, the first one leaves
  \<^verbatim>\<open>sgx_thread_cond_wait\<close> for the mutex as soon as it looks again, and the others stay queued.
\<close>

theorem signal_releases_first_waiter:
  assumes "run g n s" "n < 2 ^ 64" "sy_pc s t = Returned r" "CHECK_PARAMETER g c sizeof_cond" "c_lock (conds s c) = 0"
    and "QUEUE_FIRST (c_queue (conds s c)) = w" "w \<noteq> SGX_THREAD_T_NULL"
  shows "\<exists>s' m. step g t (Signal c) s s' \<and> step g w Wait_Check s' (goto w (Locking m True) s')
    \<and> (\<forall>s''. step g w Wait_Check s' s'' \<longrightarrow> s'' = goto w (Locking m True) s')
    \<and> (\<forall>v. v \<noteq> w \<and> v \<noteq> SGX_THREAD_T_NULL \<longrightarrow>
         cond_wait_still_queued v (conds s' c) (sy_links s') = cond_wait_still_queued v (conds s c) (sy_links s))"
proof -
  obtain ls where ok: "queues_ok s ls" using run_queues [OF assms(1)] assms(2) by auto
  have rep: "queue_rep (sy_links s) (c_queue (conds s c)) (ls (Inr c))"
    using queues_ok_rep [OF ok, of "Inr c"] by (simp add: queues_def)
  then obtain us where us: "ls (Inr c) = w # us" using tq.remove_first assms(6,7) by metis
  have "queue_of (sy_pc s w) = Some (Inr c)" using queues_ok_in [OF ok, of w "Inr c"] us by simp
  moreover have "sy_pc s w \<noteq> Cond_Queued c m" for m using run_cond_locks [OF assms(1)] assms(5) by (auto simp: cond_locks_ok_def)
  ultimately obtain m x where pc: "sy_pc s w = Cond_Waiting c m x" by (cases "sy_pc s w") auto
  obtain ret cx woken where sig: "sgx_thread_cond_signal (sy_links s) (conds s c) = (ret, cx, woken)" by (cases "sgx_thread_cond_signal (sy_links s) (conds s c)")
  define s' where "s' = goto t (Returned ret) (set_cond c cx s)"
  have st: "step g t (Signal c) s s'" unfolding s'_def by (rule step_signal [OF assms(3) _ assms(5) sig]) (simp add: assms(4))
  have "w \<noteq> t" using pc assms(3) by auto
  then have s': "sy_pc s' w = Cond_Waiting c m x" "conds s' c = cx" "sy_links s' = sy_links s" "c_lock cx = 0"
    using pc signal_lock [OF sig] assms(5) by (simp_all add: s'_def set_cond_def)
  have rep': "queue_rep (sy_links s) (c_queue cx) us" using cond_signal_queue(3) [OF rep sig] us by simp
  have "w \<notin> set us" using tq.rep_elements [OF rep] us by simp
  then have gone: "cond_wait_still_queued w (conds s' c) (sy_links s') = Some False"
    using still_queued_rep [OF rep' assms(7)] s' by simp
  have others: "cond_wait_still_queued v (conds s' c) (sy_links s') = cond_wait_still_queued v (conds s c) (sy_links s)"
    if "v \<noteq> w" "v \<noteq> SGX_THREAD_T_NULL" for v
    using still_queued_rep [OF rep' that(2)] still_queued_rep [OF rep that(2)] s' us that(1) by simp
  have "step g w Wait_Check s' (goto w (Locking m True) s')"
    using step_wait_check [OF s'(1) _ gone, of g] s' by simp
  moreover have "s'' = goto w (Locking m True) s'" if "step g w Wait_Check s' s''" for s''
    using that s'(1) gone by cases auto
  ultimately show ?thesis using st others by blast
qed

lemma queue_count_cycle: "queue_count nx w k = Some y \<Longrightarrow> \<not> (w \<noteq> SGX_THREAD_T_NULL \<and> nx w = w)"
  by (rule queue_count.raw_induct [where P = "\<lambda>nx w k y. \<not> (w \<noteq> SGX_THREAD_T_NULL \<and> nx w = w)", rotated])
    (auto simp: QUEUE_NEXT_def split: if_splits, blast)

text \<open>
  C25: waiting without the mutex. A thread that calls \<^verbatim>\<open>sgx_thread_cond_wait\<close> without owning the mutex
  gets an error but stays in the queue of the condition variable. When it calls the function once
  more, its link points to itself and \<^verbatim>\<open>sgx_thread_cond_broadcast\<close> never returns.
\<close>

theorem cond_wait_without_mutex:
  assumes t: "t \<noteq> SGX_THREAD_T_NULL" and "m_owner mx \<noteq> t" and cx: "c_queue cx = QUEUE_INIT"
    and one: "cond_wait_enqueue t cx nx = (cx1, nx1)" "cond_wait_unlock t cx1 mx = (ret1, cx2, mx2, w1)"
    and two: "cond_wait_enqueue t cx2 nx1 = (cx3, nx3)" "cond_wait_unlock t cx3 mx2 = (ret2, cx4, mx4, w2)"
  shows "ret1 \<noteq> 0 \<and> cond_wait_still_queued t cx2 nx1 = Some True
    \<and> ret2 \<noteq> 0 \<and> sgx_thread_cond_broadcast mem_ok nx3 cx4 = None"
proof -
  have u: "\<exists>r. r \<noteq> 0 \<and> sgx_thread_mutex_unlock_lazy t mx w = (r, mx, w)" for w
    using unlock_lazy_refused [of mx t w] assms(2) t by simp
  have r1: "ret1 \<noteq> 0" "mx2 = mx" "c_queue cx2 = c_queue cx1"
    using one(2) u [of SGX_THREAD_T_NULL] by (auto simp: cond_wait_unlock_def)
  have r2: "ret2 \<noteq> 0" "c_queue cx4 = c_queue cx3"
    using two(2) u [of SGX_THREAD_T_NULL] r1 by (auto simp: cond_wait_unlock_def)
  have q1: "c_queue cx1 = \<lparr>m_first = t, m_last = t\<rparr>" "nx1 = nx(t := SGX_THREAD_T_NULL)"
    using one(1) cx by (auto simp: cond_wait_enqueue_def QUEUE_INSERT_TAIL_def QUEUE_INIT_def Let_def)
  have q3: "c_queue cx3 = \<lparr>m_first = t, m_last = t\<rparr>" "nx3 t = t"
    using two(1) t by (auto simp: cond_wait_enqueue_def QUEUE_INSERT_TAIL_def r1 q1 Let_def)
  have "queue_count nx3 t 0 = None" using queue_count_cycle [of nx3 t 0] t q3(2) by (cases "queue_count nx3 t 0") auto
  moreover have "cond_wait_still_queued t cx2 nx1 = Some True"
    using t by (simp add: cond_wait_still_queued_def r1 q1 QUEUE_FIRST_def queue_find.simps)
  ultimately show ?thesis using r1 r2 q3 by (simp add: sgx_thread_cond_broadcast_def QUEUE_FIRST_def)
qed

section \<open>Examples\<close>

text \<open>One mutex, one condition variable and two threads of an enclave.\<close>

definition example_mutex :: sgx_thread_mutex_t where
  "example_mutex = \<lparr>m_refcount = 0, m_control = SGX_THREAD_MUTEX_NONRECURSIVE, m_lock = 0, m_owner = SGX_THREAD_T_NULL,
     m_queue = QUEUE_INIT\<rparr>"

definition example_sync :: sync where
  "example_sync = \<lparr>mutexes = \<lambda>_. example_mutex, conds = \<lambda>_. \<lparr>c_lock = 0, c_queue = QUEUE_INIT\<rparr>, sy_links = \<lambda>_. 0,
     sy_pc = \<lambda>_. Returned 0, held = \<lambda>_ _. 0\<rparr>"

lemma run_example: "run example_enclave 0 example_sync"
  by (rule run_initial) (simp add: initial_def example_sync_def example_mutex_def)

lemma example_parameters:
  "CHECK_PARAMETER example_enclave 0x10000 sizeof_mutex" "CHECK_PARAMETER example_enclave 0x10100 sizeof_cond"
  by (simp_all add: CHECK_PARAMETER_def sgx_is_within_enclave_def buffer_end_def example_enclave_def sizeof_mutex_def sizeof_cond_def)

text \<open>The first thread locks the mutex.\<close>

definition example_locked :: sync where
  "example_locked = example_sync\<lparr>
     mutexes := (mutexes example_sync)(0x10000 := example_mutex\<lparr>m_owner := 1, m_refcount := 1\<rparr>),
     held := (held example_sync)(1 := (held example_sync 1)(0x10000 := 1))\<rparr>"

lemmas example_defs = example_locked_def example_sync_def example_mutex_def SGX_THREAD_T_NULL_def
  SGX_THREAD_MUTEX_NONRECURSIVE_def SGX_THREAD_MUTEX_RECURSIVE_def QUEUE_INIT_def QUEUE_FIRST_def sync_defs gained_def lost_def

lemma run_example_locked: "run example_enclave 2 example_locked"
proof -
  have "step example_enclave 1 (Lock 0x10000) example_sync (goto 1 (Locking 0x10000 False) example_sync)"
    by (rule step_lock [of _ _ 0]) (simp_all add: example_parameters, simp add: example_defs)
  from run_step [OF run_example _ _ this] have r: "run example_enclave 1 (goto 1 (Locking 0x10000 False) example_sync)"
    by (simp add: SGX_THREAD_T_NULL_def)
  have "mutex_lock_round 1 example_mutex (sy_links example_sync)
      = Some (Return 0, example_mutex\<lparr>m_owner := 1, m_refcount := 1\<rparr>, sy_links example_sync)"
    by (simp add: mutex_lock_round_def example_defs)
  then have "step example_enclave 1 Lock_Round (goto 1 (Locking 0x10000 False) example_sync) example_locked"
    using step_lock_round [of "goto 1 (Locking 0x10000 False) example_sync" 1 "0x10000" False "Return 0"
        "example_mutex\<lparr>m_owner := 1, m_refcount := 1\<rparr>" "sy_links example_sync" example_enclave]
    by (simp add: example_defs fun_upd_idem)
  from run_step [OF r _ _ this] show ?thesis by (simp add: SGX_THREAD_T_NULL_def numeral_2_eq_2)
qed

theorem mutual_exclusion_witness:
  "run example_enclave 2 example_locked \<and> held example_locked 1 0x10000 = 1
   \<and> held example_locked 2 0x10000 = 0 \<and> m_owner (mutexes example_locked 0x10000) = 1"
  using mutual_exclusion [OF run_example_locked, of 1 "0x10000"] run_example_locked by (simp add: example_defs)

theorem queue_loops_end_witness:
  "run example_enclave 2 example_locked \<and> mutex_lock_round 2 (mutexes example_locked 0x10000) (sy_links example_locked) \<noteq> None"
  using queue_loops_end [OF run_example_locked, of 2 "0x10000"] run_example_locked by (simp add: SGX_THREAD_T_NULL_def)

text \<open>Then the second thread waits for it and the first one unlocks it.\<close>

definition example_queued :: sync where
  "example_queued = goto 2 (Lock_Waiting 0x10000 False) (set_mutex 0x10000
     (example_mutex\<lparr>m_owner := 1, m_refcount := 1, m_queue := \<lparr>m_first = 2, m_last = 2\<rparr>\<rparr>) example_locked)"

definition example_released :: sync where
  "example_released = set_held 1 0x10000 0 (set_mutex 0x10000
     (example_mutex\<lparr>m_queue := \<lparr>m_first = 2, m_last = 2\<rparr>\<rparr>) example_queued)"

lemma run_example_queued: "run example_enclave 4 example_queued"
proof -
  let ?s = "goto 2 (Locking 0x10000 False) example_locked"
  have "step example_enclave 2 (Lock 0x10000) example_locked ?s"
    by (rule step_lock [of _ _ 0]) (simp_all add: example_parameters, simp add: example_defs)
  from run_step [OF run_example_locked _ _ this] have r: "run example_enclave 3 ?s"
    by (simp add: SGX_THREAD_T_NULL_def eval_nat_numeral)
  have "mutex_lock_round 2 (mutexes ?s 0x10000) (sy_links ?s) = Some (Wait_Outside,
      example_mutex\<lparr>m_owner := 1, m_refcount := 1, m_queue := \<lparr>m_first = 2, m_last = 2\<rparr>\<rparr>, sy_links ?s)"
    by (simp add: mutex_lock_round_def queue_find.simps QUEUE_INSERT_TAIL_def example_defs fun_upd_idem)
  then have "step example_enclave 2 Lock_Round ?s example_queued"
    using step_lock_round [of ?s 2 "0x10000" False Wait_Outside
        "example_mutex\<lparr>m_owner := 1, m_refcount := 1, m_queue := \<lparr>m_first = 2, m_last = 2\<rparr>\<rparr>" "sy_links ?s" example_enclave]
    by (simp add: example_defs example_queued_def)
  from run_step [OF r _ _ this] show ?thesis by (simp add: SGX_THREAD_T_NULL_def eval_nat_numeral)
qed

lemma run_example_released: "run example_enclave 5 example_released"
proof -
  have "sgx_thread_mutex_unlock 1 (mutexes example_queued 0x10000)
      = (0, example_mutex\<lparr>m_queue := \<lparr>m_first = 2, m_last = 2\<rparr>\<rparr>, Some 2)"
    by (simp add: sgx_thread_mutex_unlock_def sgx_thread_mutex_unlock_lazy_def example_defs example_queued_def)
  moreover have "sy_pc example_queued 1 = Returned 0" "held example_queued 1 0x10000 = 1" "m_lock (mutexes example_queued 0x10000) = 0"
    by (simp_all add: example_queued_def example_defs)
  ultimately have "step example_enclave 1 (Unlock 0x10000) example_queued
      (goto 1 (Returned 0) (set_held 1 0x10000 0 (set_mutex 0x10000 (example_mutex\<lparr>m_queue := \<lparr>m_first = 2, m_last = 2\<rparr>\<rparr>) example_queued)))"
    using step_unlock [of example_queued 1 0 example_enclave "0x10000" 0] example_parameters by (simp add: lost_def)
  moreover have "goto 1 (Returned 0) example_released = example_released"
    by (simp add: example_released_def example_queued_def example_defs fun_upd_idem fun_upd_twist)
  ultimately have "step example_enclave 1 (Unlock 0x10000) example_queued example_released"
    by (simp add: example_released_def)
  from run_step [OF run_example_queued _ _ this] show ?thesis by (simp add: SGX_THREAD_T_NULL_def eval_nat_numeral)
qed

theorem mutex_handoff_witness:
  "run example_enclave 5 example_released \<and> sy_pc example_released 2 = Lock_Waiting 0x10000 False
   \<and> m_owner (mutexes example_released 0x10000) = SGX_THREAD_T_NULL
   \<and> (\<exists>k s'. k \<le> 2 \<and> thread_steps example_enclave 2 k example_released s' \<and> m_owner (mutexes s' 0x10000) = 2
        \<and> held s' 2 0x10000 = 1 \<and> sy_pc s' 2 = Returned 0)"
proof -
  have f: "m_owner (mutexes example_released 0x10000) = SGX_THREAD_T_NULL" "sy_pc example_released 2 = Lock_Waiting 0x10000 False"
    "QUEUE_FIRST (m_queue (mutexes example_released 0x10000)) = 2"
    by (simp_all add: example_released_def example_queued_def example_defs)
  then obtain k s' where "k \<le> 2" "thread_steps example_enclave 2 k example_released s'" "m_owner (mutexes s' 0x10000) = 2"
      "held s' 2 0x10000 = 1" "sy_pc s' = (sy_pc example_released)(2 := Returned 0)"
    using mutex_handoff [OF run_example_released _ f(1,2)] by auto
  then show ?thesis using run_example_released f by (intro conjI exI [of _ k] exI [of _ s']) simp_all
qed

text \<open>A thread that holds the mutex waits on the condition variable.\<close>

definition example_waiting :: sync where
  "example_waiting = example_sync\<lparr>conds := (conds example_sync)(0x10100 := \<lparr>c_lock = 0, c_queue = \<lparr>m_first = 1, m_last = 1\<rparr>\<rparr>),
     sy_pc := (sy_pc example_sync)(1 := Cond_Waiting 0x10100 0x10000 0)\<rparr>"

lemma run_example_waiting: "run example_enclave 4 example_waiting"
proof -
  let ?c = "\<lparr>c_lock = 1, c_queue = \<lparr>m_first = 1, m_last = 1\<rparr>\<rparr>"
  let ?s = "goto 1 (Cond_Queued 0x10100 0x10000) (set_cond 0x10100 ?c (example_locked\<lparr>sy_links := sy_links example_locked\<rparr>))"
  have "cond_wait_enqueue 1 (conds example_locked 0x10100) (sy_links example_locked) = (?c, sy_links example_locked)"
    by (simp add: cond_wait_enqueue_def QUEUE_INSERT_TAIL_def example_defs fun_upd_idem)
  then have "step example_enclave 1 (Wait 0x10100 0x10000) example_locked ?s"
    by (intro step_wait [of _ _ 0]) (simp_all add: example_parameters, simp_all add: example_defs)
  from run_step [OF run_example_locked _ _ this] have r: "run example_enclave 3 ?s"
    by (simp add: SGX_THREAD_T_NULL_def eval_nat_numeral example_locked_def)
  have "cond_wait_unlock 1 (conds ?s 0x10100) (mutexes ?s 0x10000)
      = (0, \<lparr>c_lock = 0, c_queue = \<lparr>m_first = 1, m_last = 1\<rparr>\<rparr>, example_mutex, 0)"
    by (simp add: cond_wait_unlock_def sgx_thread_mutex_unlock_lazy_def example_defs)
  then have "step example_enclave 1 Wait_Unlock ?s
      (goto 1 (Cond_Waiting 0x10100 0x10000 0) (set_held 1 0x10000 0
        (set_cond 0x10100 \<lparr>c_lock = 0, c_queue = \<lparr>m_first = 1, m_last = 1\<rparr>\<rparr> (set_mutex 0x10000 example_mutex ?s))))"
    using step_wait_unlock [of ?s 1 "0x10100" "0x10000" 0 _ _ 0 example_enclave] by (simp add: example_defs)
  moreover have "goto 1 (Cond_Waiting 0x10100 0x10000 0) (set_held 1 0x10000 0
        (set_cond 0x10100 \<lparr>c_lock = 0, c_queue = \<lparr>m_first = 1, m_last = 1\<rparr>\<rparr> (set_mutex 0x10000 example_mutex ?s))) = example_waiting"
    by (simp add: example_waiting_def example_defs fun_upd_idem)
  ultimately have "step example_enclave 1 Wait_Unlock ?s example_waiting" by simp
  from run_step [OF r _ _ this] show ?thesis by (simp add: SGX_THREAD_T_NULL_def eval_nat_numeral)
qed

theorem signal_releases_first_waiter_witness:
  "run example_enclave 4 example_waiting \<and> QUEUE_FIRST (c_queue (conds example_waiting 0x10100)) = 1
   \<and> (\<exists>s'. step example_enclave 2 (Signal 0x10100) example_waiting s'
        \<and> (\<exists>m. step example_enclave 1 Wait_Check s' (goto 1 (Locking m True) s')))"
proof -
  have f: "sy_pc example_waiting 2 = Returned 0" "c_lock (conds example_waiting 0x10100) = 0"
    "QUEUE_FIRST (c_queue (conds example_waiting 0x10100)) = 1" "(1 :: u64) \<noteq> SGX_THREAD_T_NULL"
    by (simp_all add: example_waiting_def example_defs)
  show ?thesis
    using signal_releases_first_waiter [OF run_example_waiting _ f(1) example_parameters(2) f(2,3,4)] run_example_waiting f by auto
qed

theorem cond_wait_without_mutex_witness:
  "\<exists>cx nx. c_queue cx = \<lparr>m_first = 7, m_last = 7\<rparr> \<and> sgx_thread_cond_broadcast True nx cx = None"
proof -
  let ?c = "\<lparr>c_lock = 0, c_queue = QUEUE_INIT\<rparr>" and ?n = "\<lambda>_. 0 :: u64"
  obtain cx1 nx1 where a: "cond_wait_enqueue 7 ?c ?n = (cx1, nx1)" by (cases "cond_wait_enqueue 7 ?c ?n")
  obtain r1 cx2 mx2 w1 where b: "cond_wait_unlock 7 cx1 example_mutex = (r1, cx2, mx2, w1)" by (cases "cond_wait_unlock 7 cx1 example_mutex")
  obtain cx3 nx3 where c: "cond_wait_enqueue 7 cx2 nx1 = (cx3, nx3)" by (cases "cond_wait_enqueue 7 cx2 nx1")
  obtain r2 cx4 mx4 w2 where d: "cond_wait_unlock 7 cx3 mx2 = (r2, cx4, mx4, w2)" by (cases "cond_wait_unlock 7 cx3 mx2")
  have "c_queue cx4 = \<lparr>m_first = 7, m_last = 7\<rparr>"
    using a b c d by (auto simp: cond_wait_enqueue_def cond_wait_unlock_def QUEUE_INSERT_TAIL_def example_defs Let_def split: prod.splits)
  moreover have "sgx_thread_cond_broadcast True nx3 cx4 = None"
    using cond_wait_without_mutex [OF _ _ _ a b c d] by (simp add: example_defs)
  ultimately show ?thesis by blast
qed

end
