(* ===== verification/Spin_Lock.thy ===== *)
theory Spin_Lock
  imports Sgx_Prelude
begin

text \<open>
  The spin lock of \<^verbatim>\<open>sdk/tlibc/gen/spinlock.c\<close>, with a step for each access to the lock word. It is
  the reason why \<^verbatim>\<open>Thread_Runs\<close> may treat a section under a spin lock as one step: at most one
  thread is between \<^verbatim>\<open>sgx_spin_lock\<close> and \<^verbatim>\<open>sgx_spin_unlock\<close>.
\<close>

text \<open>Where a thread is: outside, before the exchange, in the inner loop, or holding the lock.\<close>

datatype spin_pc = Spin_Outside | Spin_Exchange | Spin_Pause | Spin_Holding

record spin =
  sp_lock :: u32
  sp_pc :: "nat \<Rightarrow> spin_pc"

definition InterlockedExchange :: "u32 \<Rightarrow> u32 \<Rightarrow> u32 \<times> u32" where
  "InterlockedExchange dst val = (dst, val)"

text \<open>
  The steps. \<^verbatim>\<open>sgx_spin_unlock\<close> does not look at who holds the lock: any thread may call it.
\<close>

datatype spin_action = Spin_Call | Spin_Try | Spin_Look | Spin_Unlock

inductive spin_step :: "nat \<Rightarrow> spin_action \<Rightarrow> spin \<Rightarrow> spin \<Rightarrow> bool" for t where
  spin_call: "sp_pc s t = Spin_Outside \<Longrightarrow> spin_step t Spin_Call s (s\<lparr>sp_pc := (sp_pc s)(t := Spin_Exchange)\<rparr>)"
| spin_exchange: "sp_pc s t = Spin_Exchange \<Longrightarrow> InterlockedExchange (sp_lock s) 1 = (res, lock)
    \<Longrightarrow> spin_step t Spin_Try s (s\<lparr>sp_lock := lock, sp_pc := (sp_pc s)(t := if res \<noteq> 0 then Spin_Pause else Spin_Holding)\<rparr>)"
| spin_pause: "sp_pc s t = Spin_Pause
    \<Longrightarrow> spin_step t Spin_Look s (s\<lparr>sp_pc := (sp_pc s)(t := if sp_lock s \<noteq> 0 then Spin_Pause else Spin_Exchange)\<rparr>)"
| spin_unlock: "sp_pc s t = Spin_Outside \<or> sp_pc s t = Spin_Holding
    \<Longrightarrow> spin_step t Spin_Unlock s (s\<lparr>sp_lock := 0, sp_pc := (sp_pc s)(t := Spin_Outside)\<rparr>)"

text \<open>The use that the lock is meant for: only the thread that holds it unlocks it.\<close>

fun spin_disciplined :: "nat \<Rightarrow> spin_action \<Rightarrow> spin \<Rightarrow> bool" where
  "spin_disciplined t Spin_Unlock s \<longleftrightarrow> sp_pc s t = Spin_Holding"
| "spin_disciplined t _ s \<longleftrightarrow> True"

inductive spin_run :: "spin \<Rightarrow> bool" where
  spin_initial: "sp_lock s = 0 \<Longrightarrow> (\<And>t. sp_pc s t = Spin_Outside) \<Longrightarrow> spin_run s"
| spin_more: "spin_run s \<Longrightarrow> spin_disciplined t a s \<Longrightarrow> spin_step t a s s' \<Longrightarrow> spin_run s'"

definition holders :: "spin \<Rightarrow> nat set" where
  "holders s = {t. sp_pc s t = Spin_Holding}"

definition spin_ok :: "spin \<Rightarrow> bool" where
  "spin_ok s \<longleftrightarrow> (if sp_lock s = 0 then holders s = {} else \<exists>t. holders s = {t})"

lemma holders_upd:
  "sp_pc s' = (sp_pc s)(t := p) \<Longrightarrow> holders s' = (if p = Spin_Holding then insert t (holders s) else holders s - {t})"
  by (auto simp: holders_def split: if_splits)

lemma spin_ok_step:
  assumes "spin_ok s" "spin_disciplined t a s" "spin_step t a s s'"
  shows "spin_ok s'"
  using assms(3)
proof cases
  case spin_call
  then have "holders s' = holders s" using holders_upd [of s' s t Spin_Exchange] by (auto simp: holders_def)
  then show ?thesis using assms(1) spin_call by (simp add: spin_ok_def)
next
  case (spin_exchange res lock)
  then have "t \<notin> holders s" by (simp add: holders_def)
  moreover have "holders s' = (if sp_lock s = 0 then insert t (holders s) else holders s - {t})"
    using spin_exchange holders_upd [of s' s t "if res \<noteq> 0 then Spin_Pause else Spin_Holding"] by (simp add: InterlockedExchange_def)
  moreover have "sp_lock s' = 1" using spin_exchange by (simp add: InterlockedExchange_def)
  ultimately show ?thesis using assms(1) by (auto simp: spin_ok_def split: if_splits)
next
  case spin_pause
  then have "holders s' = holders s"
    using holders_upd [of s' s t "if sp_lock s \<noteq> 0 then Spin_Pause else Spin_Exchange"] by (auto simp: holders_def)
  moreover have "sp_lock s' = sp_lock s" using spin_pause by simp
  ultimately show ?thesis using assms(1) by (simp add: spin_ok_def)
next
  case spin_unlock
  then have "sp_pc s t = Spin_Holding" using assms(2) by simp
  with spin_unlock have "t \<in> holders s" "holders s' = holders s - {t}" "sp_lock s' = 0"
    using holders_upd [of s' s t Spin_Outside] by (simp_all add: holders_def)
  then show ?thesis using assms(1) by (auto simp: spin_ok_def split: if_splits)
qed

text \<open>
  C26: the spin lock excludes. In every state that threads reach which unlock only what they hold, the
  lock word is zero exactly when no thread holds the lock, and no two threads hold it.
\<close>

theorem spin_lock_excludes:
  assumes "spin_run s"
  shows "(sp_lock s = 0 \<longleftrightarrow> (\<forall>t. sp_pc s t \<noteq> Spin_Holding)) \<and> (sp_pc s t = Spin_Holding \<and> sp_pc s u = Spin_Holding \<longrightarrow> t = u)"
proof -
  have "spin_ok s" using assms by (induction rule: spin_run.induct) (simp add: spin_ok_def holders_def, rule spin_ok_step)
  moreover have h: "sp_pc s v = Spin_Holding \<longleftrightarrow> v \<in> holders s" for v by (simp add: holders_def)
  ultimately show ?thesis unfolding h by (auto simp: spin_ok_def split: if_splits)
qed

theorem spin_lock_excludes_witness:
  "\<exists>s. spin_run s \<and> sp_pc s 3 = Spin_Holding \<and> sp_lock s \<noteq> 0"
proof -
  define s0 where "s0 = \<lparr>sp_lock = 0, sp_pc = \<lambda>_. Spin_Outside\<rparr>"
  define s1 where "s1 = s0\<lparr>sp_pc := (sp_pc s0)(3 := Spin_Exchange)\<rparr>"
  define s2 where "s2 = s1\<lparr>sp_lock := 1, sp_pc := (sp_pc s1)(3 := Spin_Holding)\<rparr>"
  have "spin_run s0" by (rule spin_initial) (simp_all add: s0_def)
  moreover have "spin_step 3 Spin_Call s0 s1" unfolding s1_def by (rule spin_call) (simp add: s0_def)
  moreover have "spin_step 3 Spin_Try s1 s2"
    using spin_exchange [of s1 3 0 1] by (simp add: s2_def s1_def s0_def InterlockedExchange_def)
  ultimately have r: "spin_run s2" by (metis spin_more spin_disciplined.simps(2,3))
  have "sp_pc s2 3 = Spin_Holding" by (simp add: s2_def)
  then show ?thesis using spin_lock_excludes [OF r, of 3 3] r by auto
qed

end
