(* ===== verification/Tcrypto_Cmac.thy ===== *)
theory Tcrypto_Cmac
  imports Sgx_Prelude
begin

text \<open>
  The message authentication code of the trusted crypto library, \<^verbatim>\<open>sgx_rijndael128_cmac_msg\<close> of
  \<^verbatim>\<open>sdk/tlibcrypto/ipp/sgx_cmac128.cpp\<close>. The IPP primitives are an argument; \<open>ipp_cmac_ok I mac\<close> states
  that they compute the function \<open>mac\<close> of key and message.
\<close>

record 's ipp_cmac =
  ippsAES_CMACGetSize :: IppStatus
  cmac_malloc :: bool
  ippsAES_CMACInit :: "bytes \<Rightarrow> IppStatus \<times> 's"
  ippsAES_CMACUpdate :: "bytes \<Rightarrow> 's \<Rightarrow> IppStatus \<times> 's"
  ippsAES_CMACFinal :: "'s \<Rightarrow> IppStatus \<times> bytes"

fun cmac_init_status :: "IppStatus \<Rightarrow> sgx_status_t" where
  "cmac_init_status ippStsMemAllocErr = SGX_ERROR_OUT_OF_MEMORY"
| "cmac_init_status st = ipp_status st"

text \<open>\<^const>\<open>None\<close> is a null pointer, \<open>mac_null\<close> tells whether there is no buffer for the code.\<close>

definition sgx_rijndael128_cmac_msg ::
  "'s ipp_cmac \<Rightarrow> bytes option \<Rightarrow> bytes option \<Rightarrow> bool \<Rightarrow> sgx_status_t \<times> bytes option" where
  "sgx_rijndael128_cmac_msg I p_key p_src mac_null =
     (if p_key = None \<or> p_src = None \<or> mac_null then (SGX_ERROR_INVALID_PARAMETER, None)
      else if ippsAES_CMACGetSize I \<noteq> ippStsNoErr then (SGX_ERROR_UNEXPECTED, None)
      else if \<not> cmac_malloc I then (SGX_ERROR_OUT_OF_MEMORY, None)
      else case ippsAES_CMACInit I (the p_key) of (st, s) \<Rightarrow>
        if st \<noteq> ippStsNoErr then (cmac_init_status st, None)
        else case ippsAES_CMACUpdate I (the p_src) s of (st, s) \<Rightarrow>
          if st \<noteq> ippStsNoErr then (ipp_status st, None)
          else case ippsAES_CMACFinal I s of (st, mac) \<Rightarrow>
            if st \<noteq> ippStsNoErr then (ipp_status st, None) else (SGX_SUCCESS, Some mac))"

definition ipp_cmac_ok :: "'s ipp_cmac \<Rightarrow> (bytes \<Rightarrow> bytes \<Rightarrow> bytes) \<Rightarrow> bool" where
  "ipp_cmac_ok I mac \<longleftrightarrow> ippsAES_CMACGetSize I = ippStsNoErr \<and> cmac_malloc I
     \<and> (\<forall>key msg. length (mac key msg) = 16)
     \<and> (\<forall>key msg. length key = 16 \<longrightarrow> (\<exists>s0 s1. ippsAES_CMACInit I key = (ippStsNoErr, s0)
          \<and> ippsAES_CMACUpdate I msg s0 = (ippStsNoErr, s1) \<and> ippsAES_CMACFinal I s1 = (ippStsNoErr, mac key msg)))"

lemma cmac_msg_ok:
  assumes "ipp_cmac_ok I mac" "length key = 16"
  shows "sgx_rijndael128_cmac_msg I (Some key) (Some msg) False = (SGX_SUCCESS, Some (mac key msg))"
proof -
  obtain s0 s1 where "ippsAES_CMACInit I key = (ippStsNoErr, s0)" "ippsAES_CMACUpdate I msg s0 = (ippStsNoErr, s1)"
      "ippsAES_CMACFinal I s1 = (ippStsNoErr, mac key msg)"
    using assms unfolding ipp_cmac_ok_def by metis
  then show ?thesis using assms by (simp add: sgx_rijndael128_cmac_msg_def ipp_cmac_ok_def)
qed

text \<open>Primitives over a function, for examples: the state is the key and the message.\<close>

definition spec_cmac :: "(bytes \<Rightarrow> bytes \<Rightarrow> bytes) \<Rightarrow> (bytes \<times> bytes) ipp_cmac" where
  "spec_cmac mac = \<lparr>ippsAES_CMACGetSize = ippStsNoErr, cmac_malloc = True, ippsAES_CMACInit = (\<lambda>key. (ippStsNoErr, (key, []))),
     ippsAES_CMACUpdate = (\<lambda>msg (key, old). (ippStsNoErr, (key, old @ msg))),
     ippsAES_CMACFinal = (\<lambda>(key, msg). (ippStsNoErr, mac key msg))\<rparr>"

lemma spec_cmac_ok: "(\<And>key msg. length (mac key msg) = 16) \<Longrightarrow> ipp_cmac_ok (spec_cmac mac) mac"
  by (simp add: ipp_cmac_ok_def spec_cmac_def)

end
