(* ===== verification/Sgx_Key.thy ===== *)
theory Sgx_Key
  imports Sgx_Metadata Trts_Range Tcrypto_Cmac
begin

text \<open>
  Keys and reports of an enclave: \<^verbatim>\<open>sdk/selib/sgx_get_key.cpp\<close>, \<^verbatim>\<open>sgx_create_report.cpp\<close> and
  \<^verbatim>\<open>sgx_verify_report.cpp\<close>. The instructions EGETKEY, EREPORT and RDRAND and the allocator are the
  environment (\<open>sgx_env\<close>).
\<close>

unbundle bit_operations_syntax

section \<open>Structures\<close>

definition SGX_KEYSELECT_REPORT :: u16 where "SGX_KEYSELECT_REPORT = 3"

definition SGX_KEYSELECT_SEAL :: u16 where "SGX_KEYSELECT_SEAL = 4"

definition SGX_KEYPOLICY_MRENCLAVE :: u16 where "SGX_KEYPOLICY_MRENCLAVE = 0x1"

definition SGX_KEYPOLICY_MRSIGNER :: u16 where "SGX_KEYPOLICY_MRSIGNER = 0x2"

definition SGX_KEYPOLICY_NOISVPRODID :: u16 where "SGX_KEYPOLICY_NOISVPRODID = 0x4"

definition SGX_KEYPOLICY_CONFIGID :: u16 where "SGX_KEYPOLICY_CONFIGID = 0x8"

definition SGX_KEYPOLICY_ISVFAMILYID :: u16 where "SGX_KEYPOLICY_ISVFAMILYID = 0x10"

definition SGX_KEYPOLICY_ISVEXTPRODID :: u16 where "SGX_KEYPOLICY_ISVEXTPRODID = 0x20"

definition KEY_POLICY_KSS :: u16 where
  "KEY_POLICY_KSS = SGX_KEYPOLICY_CONFIGID OR SGX_KEYPOLICY_ISVFAMILYID OR SGX_KEYPOLICY_ISVEXTPRODID"

lemmas key_policy_defs = SGX_KEYPOLICY_MRENCLAVE_def SGX_KEYPOLICY_MRSIGNER_def SGX_KEYPOLICY_NOISVPRODID_def
  SGX_KEYPOLICY_CONFIGID_def SGX_KEYPOLICY_ISVFAMILYID_def SGX_KEYPOLICY_ISVEXTPRODID_def KEY_POLICY_KSS_def

record sgx_key_request_t =
  kr_key_name :: u16
  kr_key_policy :: u16
  kr_isv_svn :: u16
  kr_reserved1 :: u16
  kr_cpu_svn :: bytes
  kr_attribute_mask :: sgx_attributes_t
  kr_key_id :: bytes
  kr_misc_mask :: u32
  kr_config_svn :: u16
  kr_reserved2 :: bytes

definition SGX_KEY_REQUEST_RESERVED2_BYTES :: nat where "SGX_KEY_REQUEST_RESERVED2_BYTES = 434"

definition zero_key_request :: sgx_key_request_t where
  "zero_key_request = \<lparr>kr_key_name = 0, kr_key_policy = 0, kr_isv_svn = 0, kr_reserved1 = 0, kr_cpu_svn = replicate 16 0,
     kr_attribute_mask = \<lparr>attr_flags = 0, attr_xfrm = 0\<rparr>, kr_key_id = replicate 32 0, kr_misc_mask = 0, kr_config_svn = 0,
     kr_reserved2 = replicate SGX_KEY_REQUEST_RESERVED2_BYTES 0\<rparr>"

text \<open>The 512 bytes of a key request in memory.\<close>

definition key_request_bytes :: "sgx_key_request_t \<Rightarrow> bytes" where
  "key_request_bytes kr = le_bytes 2 (kr_key_name kr) @ le_bytes 2 (kr_key_policy kr) @ le_bytes 2 (kr_isv_svn kr)
     @ le_bytes 2 (kr_reserved1 kr) @ kr_cpu_svn kr @ le_bytes 8 (attr_flags (kr_attribute_mask kr))
     @ le_bytes 8 (attr_xfrm (kr_attribute_mask kr)) @ kr_key_id kr @ le_bytes 4 (kr_misc_mask kr)
     @ le_bytes 2 (kr_config_svn kr) @ kr_reserved2 kr"

definition decode_key_request :: "memory \<Rightarrow> nat \<Rightarrow> sgx_key_request_t" where
  "decode_key_request mem a = \<lparr>kr_key_name = rd_word mem a 2, kr_key_policy = rd_word mem (a + 2) 2,
     kr_isv_svn = rd_word mem (a + 4) 2, kr_reserved1 = rd_word mem (a + 6) 2, kr_cpu_svn = rd mem (a + 8) 16,
     kr_attribute_mask = \<lparr>attr_flags = rd_word mem (a + 24) 8, attr_xfrm = rd_word mem (a + 32) 8\<rparr>,
     kr_key_id = rd mem (a + 40) 32, kr_misc_mask = rd_word mem (a + 72) 4, kr_config_svn = rd_word mem (a + 76) 2,
     kr_reserved2 = rd mem (a + 78) SGX_KEY_REQUEST_RESERVED2_BYTES\<rparr>"

definition wf_key_request :: "sgx_key_request_t \<Rightarrow> bool" where
  "wf_key_request kr \<longleftrightarrow> length (kr_cpu_svn kr) = 16 \<and> length (kr_key_id kr) = 32
     \<and> length (kr_reserved2 kr) = SGX_KEY_REQUEST_RESERVED2_BYTES"

lemma length_key_request_bytes: "wf_key_request kr \<Longrightarrow> length (key_request_bytes kr) = 512"
  by (simp add: wf_key_request_def key_request_bytes_def SGX_KEY_REQUEST_RESERVED2_BYTES_def)

lemma rd_inside: "k + n \<le> m \<Longrightarrow> rd mem (a + k) n = take n (drop k (rd mem a m))"
  by (simp add: drop_rd take_rd)

lemma decode_key_request_bytes:
  assumes "rd mem a 512 = key_request_bytes kr" "wf_key_request kr"
  shows "decode_key_request mem a = kr"
proof -
  have r: "rd mem (a + k) n = take n (drop k (key_request_bytes kr))" if "k + n \<le> 512" for k n
    using rd_inside [OF that, of mem a] assms(1) by simp
  have 0: "rd mem a 2 = take 2 (key_request_bytes kr)" using r [of 0 2] by simp
  show ?thesis
    using assms(2)
    by (intro sgx_key_request_t.equality sgx_attributes_t.equality)
      (simp_all add: decode_key_request_def rd_word_def r 0 SGX_KEY_REQUEST_RESERVED2_BYTES_def del: add_2_eq_Suc',
       simp_all add: key_request_bytes_def wf_key_request_def of_le_le_bytes SGX_KEY_REQUEST_RESERVED2_BYTES_def)
qed

record sgx_report_body_t =
  rb_cpu_svn :: bytes
  rb_misc_select :: u32
  rb_reserved1 :: bytes
  rb_isv_ext_prod_id :: bytes
  rb_attributes :: sgx_attributes_t
  rb_mr_enclave :: bytes
  rb_reserved2 :: bytes
  rb_mr_signer :: bytes
  rb_reserved3 :: bytes
  rb_config_id :: bytes
  rb_isv_prod_id :: u16
  rb_isv_svn :: u16
  rb_config_svn :: u16
  rb_reserved4 :: bytes
  rb_isv_family_id :: bytes
  rb_report_data :: bytes

record sgx_report_t =
  rp_body :: sgx_report_body_t
  rp_key_id :: bytes
  rp_mac :: bytes

definition report_body_bytes :: "sgx_report_body_t \<Rightarrow> bytes" where
  "report_body_bytes b = rb_cpu_svn b @ le_bytes 4 (rb_misc_select b) @ rb_reserved1 b @ rb_isv_ext_prod_id b
     @ le_bytes 8 (attr_flags (rb_attributes b)) @ le_bytes 8 (attr_xfrm (rb_attributes b)) @ rb_mr_enclave b @ rb_reserved2 b
     @ rb_mr_signer b @ rb_reserved3 b @ rb_config_id b @ le_bytes 2 (rb_isv_prod_id b) @ le_bytes 2 (rb_isv_svn b)
     @ le_bytes 2 (rb_config_svn b) @ rb_reserved4 b @ rb_isv_family_id b @ rb_report_data b"

definition zero_report :: sgx_report_t where
  "zero_report = \<lparr>rp_body = \<lparr>rb_cpu_svn = replicate 16 0, rb_misc_select = 0, rb_reserved1 = replicate 12 0,
       rb_isv_ext_prod_id = replicate 16 0, rb_attributes = \<lparr>attr_flags = 0, attr_xfrm = 0\<rparr>, rb_mr_enclave = replicate 32 0,
       rb_reserved2 = replicate 32 0, rb_mr_signer = replicate 32 0, rb_reserved3 = replicate 32 0, rb_config_id = replicate 64 0,
       rb_isv_prod_id = 0, rb_isv_svn = 0, rb_config_svn = 0, rb_reserved4 = replicate 42 0, rb_isv_family_id = replicate 16 0,
       rb_report_data = replicate 64 0\<rparr>,
     rp_key_id = replicate 32 0, rp_mac = replicate 16 0\<rparr>"

section \<open>The environment\<close>

datatype egetkey_status_t = EGETKEY_SUCCESS | EGETKEY_INVALID_ATTRIBUTE | EGETKEY_INVALID_CPUSVN | EGETKEY_INVALID_ISVSVN
  | EGETKEY_INVALID_KEYNAME | EGETKEY_OTHER

text \<open>
  The address range of the enclave, the instructions (\<^const>\<open>None\<close>: EREPORT failed), whether \<^verbatim>\<open>malloc\<close>
  succeeds, and the address of a local buffer on the stack.
\<close>

record 'r sgx_env =
  env_range :: enclave_range_t
  env_rdrand :: "'r \<Rightarrow> u32 option \<times> 'r"
  env_egetkey :: "sgx_key_request_t \<Rightarrow> egetkey_status_t \<times> bytes"
  env_ereport :: "bytes \<Rightarrow> bytes \<Rightarrow> sgx_report_t option"
  env_malloc :: bool
  env_stack :: u64

section \<open>Reports and keys\<close>

text \<open>
  \<^verbatim>\<open>sgx_create_report\<close>: the optional structures are given with their address, the report by its address only.
\<close>

definition sgx_create_report ::
  "'r sgx_env \<Rightarrow> (u64 \<times> bytes) option \<Rightarrow> (u64 \<times> bytes) option \<Rightarrow> u64 \<Rightarrow> sgx_status_t \<times> sgx_report_t option" where
  "sgx_create_report V target_info report_data report =
     (if (case target_info of None \<Rightarrow> False | Some (p, _) \<Rightarrow> \<not> sgx_is_within_enclave (env_range V) p 512)
      then (SGX_ERROR_INVALID_PARAMETER, None)
      else if (case report_data of None \<Rightarrow> False | Some (p, _) \<Rightarrow> \<not> sgx_is_within_enclave (env_range V) p 64)
      then (SGX_ERROR_INVALID_PARAMETER, None)
      else if report = 0 \<or> \<not> sgx_is_within_enclave (env_range V) report 432 then (SGX_ERROR_INVALID_PARAMETER, None)
      else
        let tmp_target_info = (case target_info of None \<Rightarrow> replicate 512 0 | Some (_, b) \<Rightarrow> b);
            tmp_report_data = (case report_data of None \<Rightarrow> replicate 64 0 | Some (_, b) \<Rightarrow> b)
        in case env_ereport V tmp_target_info tmp_report_data of
             None \<Rightarrow> (SGX_ERROR_UNEXPECTED, None)
           | Some rep \<Rightarrow> (SGX_SUCCESS, Some rep))"

text \<open>
  \<^verbatim>\<open>sgx_self_report\<close>: the content of its static variable, which stays zero when no report can be made. The
  variable is inside the enclave.
\<close>

definition sgx_self_report :: "'r sgx_env \<Rightarrow> sgx_report_t" where
  "sgx_self_report V = (case sgx_create_report V None None (env_stack V) of (_, Some rep) \<Rightarrow> rep | (_, None) \<Rightarrow> zero_report)"

fun egetkey_error :: "egetkey_status_t \<Rightarrow> sgx_status_t" where
  "egetkey_error EGETKEY_SUCCESS = SGX_SUCCESS"
| "egetkey_error EGETKEY_INVALID_ATTRIBUTE = SGX_ERROR_INVALID_ATTRIBUTE"
| "egetkey_error EGETKEY_INVALID_CPUSVN = SGX_ERROR_INVALID_CPUSVN"
| "egetkey_error EGETKEY_INVALID_ISVSVN = SGX_ERROR_INVALID_ISVSVN"
| "egetkey_error EGETKEY_INVALID_KEYNAME = SGX_ERROR_INVALID_KEYNAME"
| "egetkey_error EGETKEY_OTHER = SGX_ERROR_UNEXPECTED"

text \<open>
  \<^verbatim>\<open>sgx_get_key\<close>: the request and the key buffer have addresses, 0 is null; \<open>key\<close> is what the buffer held
  before. When the key cannot be had, the buffer is filled with random bytes.
\<close>

definition get_key_status :: "'r sgx_env \<Rightarrow> u64 \<Rightarrow> sgx_key_request_t \<Rightarrow> u64 \<Rightarrow> sgx_status_t" where
  "get_key_status V kaddr kr key_addr =
     (if kaddr = 0 \<or> \<not> sgx_is_within_enclave (env_range V) kaddr 512 then SGX_ERROR_INVALID_PARAMETER
      else if kr_reserved1 kr \<noteq> 0 then SGX_ERROR_INVALID_PARAMETER
      else if \<exists>b \<in> set (take SGX_KEY_REQUEST_RESERVED2_BYTES (kr_reserved2 kr)). b \<noteq> 0 then SGX_ERROR_INVALID_PARAMETER
      else if key_addr = 0 \<or> \<not> sgx_is_within_enclave (env_range V) key_addr 16 then SGX_ERROR_INVALID_PARAMETER
      else if kr_key_policy kr AND NOT (SGX_KEYPOLICY_MRENCLAVE OR SGX_KEYPOLICY_MRSIGNER OR KEY_POLICY_KSS) \<noteq> 0
      then SGX_ERROR_INVALID_PARAMETER
      else if attr_flags (rb_attributes (rp_body (sgx_self_report V))) AND SGX_FLAGS_KSS = 0
        \<and> (kr_key_policy kr AND KEY_POLICY_KSS \<noteq> 0 \<or> kr_config_svn kr > 0)
      then SGX_ERROR_INVALID_PARAMETER
      else if \<not> env_malloc V then SGX_ERROR_OUT_OF_MEMORY
      else egetkey_error (fst (env_egetkey V kr)))"

definition sgx_get_key ::
  "'r sgx_env \<Rightarrow> u64 \<Rightarrow> sgx_key_request_t \<Rightarrow> u64 \<Rightarrow> bytes \<Rightarrow> 'r \<Rightarrow> sgx_status_t \<times> bytes \<times> 'r" where
  "sgx_get_key V kaddr kr key_addr key r =
     (let err = get_key_status V kaddr kr key_addr in
      if err \<noteq> SGX_SUCCESS \<and> key_addr \<noteq> 0
      then case sgx_read_rand (env_range V) (env_rdrand V) key_addr 16 r of
          (_, bs, r) \<Rightarrow> (err, bs @ drop (length bs) key, r)
      else if key_addr \<noteq> 0 then (err, snd (env_egetkey V kr), r)
      else (err, key, r))"

text \<open>\<^verbatim>\<open>sgx_verify_report\<close>, with the report at an address.\<close>

definition sgx_verify_report ::
  "'r sgx_env \<Rightarrow> 's ipp_cmac \<Rightarrow> u64 \<Rightarrow> sgx_report_t \<Rightarrow> 'r \<Rightarrow> sgx_status_t \<times> 'r" where
  "sgx_verify_report V C raddr report r =
     (if raddr = 0 \<or> \<not> sgx_is_within_enclave (env_range V) raddr 432 then (SGX_ERROR_INVALID_PARAMETER, r)
      else
        let key_request = zero_key_request\<lparr>kr_key_name := SGX_KEYSELECT_REPORT, kr_key_id := rp_key_id report\<rparr> in
        case sgx_get_key V (env_stack V) key_request (env_stack V) (replicate 16 0) r of (err, report_key, r) \<Rightarrow>
          if err \<noteq> SGX_SUCCESS then (err, r)
          else case sgx_rijndael128_cmac_msg C (Some report_key) (Some (report_body_bytes (rp_body report))) False of
            (err, mac) \<Rightarrow>
              if err \<noteq> SGX_SUCCESS then (if err \<noteq> SGX_ERROR_OUT_OF_MEMORY then SGX_ERROR_UNEXPECTED else err, r)
              else if the mac \<noteq> rp_mac report then (SGX_ERROR_MAC_MISMATCH, r)
              else (SGX_SUCCESS, r))"

section \<open>What the functions do\<close>

definition env_ok :: "'r sgx_env \<Rightarrow> bool" where
  "env_ok V \<longleftrightarrow> sgx_is_within_enclave (env_range V) (env_stack V) 512 \<and> sgx_is_within_enclave (env_range V) (env_stack V) 16
     \<and> env_stack V \<noteq> 0 \<and> env_malloc V"

text \<open>A request that \<^verbatim>\<open>sgx_get_key\<close> passes on to the processor.\<close>

definition request_ok :: "'r sgx_env \<Rightarrow> sgx_key_request_t \<Rightarrow> bool" where
  "request_ok V kr \<longleftrightarrow> kr_reserved1 kr = 0 \<and> (\<forall>b \<in> set (kr_reserved2 kr). b = 0)
     \<and> kr_key_policy kr AND NOT (SGX_KEYPOLICY_MRENCLAVE OR SGX_KEYPOLICY_MRSIGNER OR KEY_POLICY_KSS) = 0
     \<and> (attr_flags (rb_attributes (rp_body (sgx_self_report V))) AND SGX_FLAGS_KSS = 0
          \<longrightarrow> kr_key_policy kr AND KEY_POLICY_KSS = 0 \<and> kr_config_svn kr = 0)"

lemma get_key_ok:
  assumes "env_ok V" "request_ok V kr" "kaddr \<noteq> 0" "sgx_is_within_enclave (env_range V) kaddr 512"
    and "env_egetkey V kr = (EGETKEY_SUCCESS, k)"
  shows "sgx_get_key V kaddr kr (env_stack V) key r = (SGX_SUCCESS, k, r)"
proof -
  have "\<forall>b \<in> set (take n (kr_reserved2 kr)). b = 0" for n
    using assms(2) by (auto simp: request_ok_def dest: in_set_takeD)
  then have "get_key_status V kaddr kr (env_stack V) = SGX_SUCCESS"
    using assms by (auto simp: get_key_status_def env_ok_def request_ok_def)
  then show ?thesis using assms by (simp add: sgx_get_key_def env_ok_def)
qed

lemma report_request_ok: "request_ok V (zero_key_request\<lparr>kr_key_name := SGX_KEYSELECT_REPORT, kr_key_id := i\<rparr>)"
  by (simp add: request_ok_def zero_key_request_def)

text \<open>
  C27: verification of reports. When the processor provides the report key, \<^verbatim>\<open>sgx_verify_report\<close> succeeds
  exactly for the reports whose code is the MAC of their body under that key, and otherwise
  returns the mismatch error.
\<close>

theorem verify_report_exact:
  assumes "env_ok V" "ipp_cmac_ok C mac" "raddr \<noteq> 0" "sgx_is_within_enclave (env_range V) raddr 432" "length k = 16"
    and "env_egetkey V (zero_key_request\<lparr>kr_key_name := SGX_KEYSELECT_REPORT, kr_key_id := rp_key_id report\<rparr>) = (EGETKEY_SUCCESS, k)"
  shows "sgx_verify_report V C raddr report r
    = (if rp_mac report = mac k (report_body_bytes (rp_body report)) then SGX_SUCCESS else SGX_ERROR_MAC_MISMATCH, r)"
proof -
  have stack: "env_stack V \<noteq> 0" "sgx_is_within_enclave (env_range V) (env_stack V) 512" using assms(1) by (simp_all add: env_ok_def)
  show ?thesis
    using assms(3,4) get_key_ok [OF assms(1) report_request_ok stack assms(6)] cmac_msg_ok [OF assms(2,5)]
    by (auto simp: sgx_verify_report_def)
qed

text \<open>An environment for examples: the processor derives keys from the key identifier.\<close>

definition example_sgx_env :: "unit sgx_env" where
  "example_sgx_env = \<lparr>env_range = example_enclave, env_rdrand = (\<lambda>r. (Some 7, r)),
     env_egetkey = (\<lambda>kr. (EGETKEY_SUCCESS, take 16 (kr_key_id kr @ replicate 16 0))),
     env_ereport = (\<lambda>_ _. Some zero_report), env_malloc = True, env_stack = 0x10c00\<rparr>"

definition example_mac :: "bytes \<Rightarrow> bytes \<Rightarrow> bytes" where
  "example_mac key msg = take 16 (key @ msg @ replicate 16 0)"

lemma example_sgx_env_ok: "env_ok example_sgx_env"
  by (simp add: env_ok_def example_sgx_env_def sgx_is_within_enclave_def buffer_end_def example_enclave_def)

lemma example_mac_ok: "ipp_cmac_ok (spec_cmac example_mac) example_mac"
  by (rule spec_cmac_ok) (simp add: example_mac_def)

theorem verify_report_exact_witness:
  "sgx_verify_report example_sgx_env (spec_cmac example_mac) 0x10000 (zero_report\<lparr>rp_mac := replicate 16 0\<rparr>) () = (SGX_SUCCESS, ())
   \<and> sgx_verify_report example_sgx_env (spec_cmac example_mac) 0x10000 (zero_report\<lparr>rp_mac := replicate 16 1\<rparr>) ()
       = (SGX_ERROR_MAC_MISMATCH, ())"
proof -
  have w: "sgx_is_within_enclave (env_range example_sgx_env) 0x10000 432"
    by (simp add: example_sgx_env_def sgx_is_within_enclave_def buffer_end_def example_enclave_def)
  have k: "env_egetkey example_sgx_env (zero_key_request\<lparr>kr_key_name := SGX_KEYSELECT_REPORT, kr_key_id := replicate 32 0\<rparr>)
      = (EGETKEY_SUCCESS, replicate 16 0)"
    by (simp add: example_sgx_env_def)
  have m: "example_mac (replicate 16 0) msg = replicate 16 0" for msg by (simp add: example_mac_def)
  show ?thesis
    using verify_report_exact [OF example_sgx_env_ok example_mac_ok _ w, of "replicate 16 0" "zero_report\<lparr>rp_mac := replicate 16 0\<rparr>"]
      verify_report_exact [OF example_sgx_env_ok example_mac_ok _ w, of "replicate 16 0" "zero_report\<lparr>rp_mac := replicate 16 1\<rparr>"] k m
    by (simp add: zero_report_def)
qed

end
