(* ===== verification/Tcrypto_Gcm.thy ===== *)
theory Tcrypto_Gcm
  imports Gcm_Correct Sgx_Metadata
begin

text \<open>
  AES-GCM of the trusted crypto library, \<^verbatim>\<open>sdk/tlibcrypto/ipp/sgx_aes_gcm.cpp\<close>. The IPP primitives are
  an argument; \<open>ipp_gcm_ok\<close> states what they compute, in terms of the functions of NIST SP 800-38D.
  Buffers of the caller are addresses in a memory, keys and initialisation vectors are values. The
  primitives take their lengths as \<^verbatim>\<open>int\<close>, so that the 32 bit length of a caller is converted to a signed
  one: from \<open>2 ^ 31\<close> bytes on it is negative, which the primitives refuse. The field \<open>gcm_malloc\<close> says
  whether \<^verbatim>\<open>malloc\<close> gives the memory for their state.
\<close>

section \<open>The wrappers\<close>

record 's ipp_gcm =
  ippsAES_GCMGetSize :: IppStatus
  gcm_malloc :: bool
  ippsAES_GCMInit :: "bytes \<Rightarrow> IppStatus \<times> 's"
  ippsAES_GCMStart :: "bytes \<Rightarrow> bytes \<Rightarrow> int \<Rightarrow> 's \<Rightarrow> IppStatus \<times> 's"
  ippsAES_GCMEncrypt :: "bytes \<Rightarrow> int \<Rightarrow> 's \<Rightarrow> IppStatus \<times> bytes \<times> 's"
  ippsAES_GCMDecrypt :: "bytes \<Rightarrow> int \<Rightarrow> 's \<Rightarrow> IppStatus \<times> bytes \<times> 's"
  ippsAES_GCMGetTag :: "'s \<Rightarrow> IppStatus \<times> bytes"

definition SGX_AESGCM_IV_SIZE :: u32 where "SGX_AESGCM_IV_SIZE = 12"

definition SGX_AESGCM_MAC_SIZE :: nat where "SGX_AESGCM_MAC_SIZE = 16"

fun gcm_init_status :: "IppStatus \<Rightarrow> sgx_status_t" where
  "gcm_init_status ippStsMemAllocErr = SGX_ERROR_OUT_OF_MEMORY"
| "gcm_init_status st = ipp_status st"

fun gcm_crypt_status :: "IppStatus \<Rightarrow> sgx_status_t" where
  "gcm_crypt_status ippStsNoErr = SGX_SUCCESS"
| "gcm_crypt_status ippStsNullPtrErr = SGX_ERROR_INVALID_PARAMETER"
| "gcm_crypt_status _ = SGX_ERROR_UNEXPECTED"

text \<open>\<^verbatim>\<open>memset_s\<close> on a buffer that was given with its length.\<close>

definition clear :: "u64 \<Rightarrow> u32 \<Rightarrow> memory \<Rightarrow> memory" where
  "clear p n mem = wr mem (unat p) (replicate (unat n) 0)"

text \<open>The address 0 is a null pointer; \<^const>\<open>None\<close> is a null key or vector.\<close>

definition gcm_bad_parameters ::
  "bytes option \<Rightarrow> u64 \<Rightarrow> u32 \<Rightarrow> u64 \<Rightarrow> bytes option \<Rightarrow> u32 \<Rightarrow> u64 \<Rightarrow> u32 \<Rightarrow> bool \<Rightarrow> bool" where
  "gcm_bad_parameters p_key p_src src_len p_dst p_iv iv_len p_aad aad_len mac_null \<longleftrightarrow>
     p_key = None \<or> (src_len > 0 \<and> p_dst = 0) \<or> (src_len > 0 \<and> p_src = 0) \<or> mac_null
     \<or> iv_len \<noteq> SGX_AESGCM_IV_SIZE \<or> (aad_len > 0 \<and> p_aad = 0) \<or> p_iv = None \<or> (p_src = 0 \<and> p_aad = 0)"

definition sgx_rijndael128GCM_encrypt ::
  "'s ipp_gcm \<Rightarrow> bytes option \<Rightarrow> u64 \<Rightarrow> u32 \<Rightarrow> u64 \<Rightarrow> bytes option \<Rightarrow> u32 \<Rightarrow> u64 \<Rightarrow> u32 \<Rightarrow> u64 \<Rightarrow> memory
    \<Rightarrow> sgx_status_t \<times> memory" where
  "sgx_rijndael128GCM_encrypt I p_key p_src src_len p_dst p_iv iv_len p_aad aad_len p_out_mac mem =
     (if gcm_bad_parameters p_key p_src src_len p_dst p_iv iv_len p_aad aad_len (p_out_mac = 0)
      then (SGX_ERROR_INVALID_PARAMETER, mem)
      else if ippsAES_GCMGetSize I \<noteq> ippStsNoErr then (SGX_ERROR_UNEXPECTED, mem)
      else if \<not> gcm_malloc I then (SGX_ERROR_OUT_OF_MEMORY, mem)
      else case ippsAES_GCMInit I (the p_key) of (st, s) \<Rightarrow>
        if st \<noteq> ippStsNoErr then (gcm_init_status st, mem)
        else case ippsAES_GCMStart I (the p_iv) (rd mem (unat p_aad) (unat aad_len)) (sint aad_len) s of (st, s) \<Rightarrow>
          if st \<noteq> ippStsNoErr then (ipp_status st, mem)
          else case (if src_len > 0
                     then case ippsAES_GCMEncrypt I (rd mem (unat p_src) (unat src_len)) (sint src_len) s of
                       (st, out, s) \<Rightarrow> (st, if st = ippStsNoErr then wr mem (unat p_dst) out else mem, s)
                     else (ippStsNoErr, mem, s)) of (st, mem, s) \<Rightarrow>
            if st \<noteq> ippStsNoErr then (gcm_crypt_status st, mem)
            else case ippsAES_GCMGetTag I s of (st, tag) \<Rightarrow>
              if st \<noteq> ippStsNoErr then (ipp_status st, clear p_dst src_len mem)
              else (SGX_SUCCESS, wr mem (unat p_out_mac) tag))"

definition sgx_rijndael128GCM_decrypt ::
  "'s ipp_gcm \<Rightarrow> bytes option \<Rightarrow> u64 \<Rightarrow> u32 \<Rightarrow> u64 \<Rightarrow> bytes option \<Rightarrow> u32 \<Rightarrow> u64 \<Rightarrow> u32 \<Rightarrow> u64 \<Rightarrow> memory
    \<Rightarrow> sgx_status_t \<times> memory" where
  "sgx_rijndael128GCM_decrypt I p_key p_src src_len p_dst p_iv iv_len p_aad aad_len p_in_mac mem =
     (if gcm_bad_parameters p_key p_src src_len p_dst p_iv iv_len p_aad aad_len (p_in_mac = 0)
      then (SGX_ERROR_INVALID_PARAMETER, mem)
      else if ippsAES_GCMGetSize I \<noteq> ippStsNoErr then (SGX_ERROR_UNEXPECTED, mem)
      else if \<not> gcm_malloc I then (SGX_ERROR_OUT_OF_MEMORY, mem)
      else case ippsAES_GCMInit I (the p_key) of (st, s) \<Rightarrow>
        if st \<noteq> ippStsNoErr then (gcm_init_status st, mem)
        else case ippsAES_GCMStart I (the p_iv) (rd mem (unat p_aad) (unat aad_len)) (sint aad_len) s of (st, s) \<Rightarrow>
          if st \<noteq> ippStsNoErr then (ipp_status st, mem)
          else case (if src_len > 0
                     then case ippsAES_GCMDecrypt I (rd mem (unat p_src) (unat src_len)) (sint src_len) s of
                       (st, out, s) \<Rightarrow> (st, if st = ippStsNoErr then wr mem (unat p_dst) out else mem, s)
                     else (ippStsNoErr, mem, s)) of (st, mem, s) \<Rightarrow>
            if st \<noteq> ippStsNoErr then (gcm_crypt_status st, mem)
            else case ippsAES_GCMGetTag I s of (st, l_tag) \<Rightarrow>
              if st \<noteq> ippStsNoErr then (ipp_status st, clear p_dst src_len mem)
              else if rd mem (unat p_in_mac) SGX_AESGCM_MAC_SIZE \<noteq> l_tag
              then (SGX_ERROR_MAC_MISMATCH, clear p_dst src_len mem)
              else (SGX_SUCCESS, mem))"

section \<open>What the primitives are relied on for\<close>

text \<open>
  What a state that has taken the vector and the additional text promises, and one that has taken the key:
  a negative length is refused with \<^verbatim>\<open>ippStsLengthErr\<close>, the length of the buffer gives the text and the tag of
  the standard. That there is memory for the state is not promised.
\<close>

definition gcm_started :: "'s ipp_gcm \<Rightarrow> (bytes \<Rightarrow> bytes) \<Rightarrow> bytes \<Rightarrow> bytes \<Rightarrow> 's \<Rightarrow> bool" where
  "gcm_started I E iv aad s \<longleftrightarrow> ippsAES_GCMGetTag I s = (ippStsNoErr, gcm_tag E iv aad [])
     \<and> (\<forall>text len. len < 0 \<longrightarrow> fst (ippsAES_GCMEncrypt I text len s) = ippStsLengthErr
          \<and> fst (ippsAES_GCMDecrypt I text len s) = ippStsLengthErr)
     \<and> (\<forall>text. length text < 2 ^ 31 \<longrightarrow>
          (\<exists>s'. ippsAES_GCMEncrypt I text (int (length text)) s = (ippStsNoErr, gcm_crypt E iv text, s')
             \<and> ippsAES_GCMGetTag I s' = (ippStsNoErr, gcm_tag E iv aad (gcm_crypt E iv text)))
        \<and> (\<exists>s'. ippsAES_GCMDecrypt I text (int (length text)) s = (ippStsNoErr, gcm_crypt E iv text, s')
             \<and> ippsAES_GCMGetTag I s' = (ippStsNoErr, gcm_tag E iv aad text)))"

definition gcm_keyed :: "'s ipp_gcm \<Rightarrow> (bytes \<Rightarrow> bytes) \<Rightarrow> 's \<Rightarrow> bool" where
  "gcm_keyed I E s \<longleftrightarrow> (\<forall>iv aad. length iv = 12 \<longrightarrow>
     (\<forall>len < 0. fst (ippsAES_GCMStart I iv aad len s) = ippStsLengthErr)
     \<and> (length aad < 2 ^ 31 \<longrightarrow>
          (\<exists>s'. ippsAES_GCMStart I iv aad (int (length aad)) s = (ippStsNoErr, s') \<and> gcm_started I E iv aad s')))"

definition ipp_gcm_ok :: "'s ipp_gcm \<Rightarrow> (bytes \<Rightarrow> bytes \<Rightarrow> bytes) \<Rightarrow> bool" where
  "ipp_gcm_ok I E \<longleftrightarrow> ippsAES_GCMGetSize I = ippStsNoErr \<and> (\<forall>key b. length (E key b) = 16)
     \<and> (\<forall>key. length key = 16 \<longrightarrow> (\<exists>s. ippsAES_GCMInit I key = (ippStsNoErr, s) \<and> gcm_keyed I (E key) s))"

text \<open>When the wrappers get through to the primitives: there is memory, and both lengths fit into an \<^verbatim>\<open>int\<close>.\<close>

definition gcm_runs :: "'s ipp_gcm \<Rightarrow> u32 \<Rightarrow> u32 \<Rightarrow> bool" where
  "gcm_runs I aad_len src_len \<longleftrightarrow> gcm_malloc I \<and> unat aad_len < 2 ^ 31 \<and> unat src_len < 2 ^ 31"

text \<open>The error that they return otherwise.\<close>

definition gcm_refusal :: "'s ipp_gcm \<Rightarrow> u32 \<Rightarrow> sgx_status_t" where
  "gcm_refusal I aad_len =
     (if \<not> gcm_malloc I then SGX_ERROR_OUT_OF_MEMORY
      else if \<not> unat aad_len < 2 ^ 31 then SGX_ERROR_INVALID_PARAMETER else SGX_ERROR_UNEXPECTED)"

lemma sint_length: "sint n = int (length (rd mem a (unat n)))" if "unat (n :: u32) < 2 ^ 31"
proof -
  have "uint n < 2 ^ 31" using that by (metis of_nat_less_iff of_nat_numeral of_nat_power of_nat_unat)
  moreover have "- (2 ^ 31) \<le> uint n" by (rule order.trans [OF _ uint_ge_0]) simp
  ultimately have "signed_take_bit 31 (uint n) = uint n" by (intro signed_take_bit_int_eq_self) simp_all
  then show ?thesis by (simp add: sint_uint)
qed

lemma sint_negative: "sint n < 0" if "\<not> unat (n :: u32) < 2 ^ 31"
proof -
  have "2 ^ 31 \<le> uint n" using that by (metis not_less of_nat_less_iff of_nat_numeral of_nat_power of_nat_unat)
  moreover have "uint n < 2 ^ 32" using uint_lt2p [of n] by simp
  ultimately have "bit (uint n) 31" by (auto simp: bit_iff_odd div_pos_geq)
  then show ?thesis by (simp add: sint_uint)
qed

lemma gcm_crypt_Nil [simp]: "gcm_crypt E iv [] = []"
  by (simp add: gcm_crypt_def)

lemma wr_Nil [simp]: "wr mem a [] = mem"
  by (auto simp: wr_def fun_eq_iff)

text \<open>The states that a run of the primitives goes through.\<close>

lemma gcm_init_state:
  assumes "ipp_gcm_ok I E" "length key = 16"
  obtains s where "ippsAES_GCMInit I key = (ippStsNoErr, s)" "gcm_keyed I (E key) s"
  using assms by (auto simp: ipp_gcm_ok_def)

lemma gcm_start_state:
  assumes "gcm_keyed I E s" "length iv = 12" "unat (n :: u32) < 2 ^ 31" "text = rd mem a (unat n)"
  obtains s' where "ippsAES_GCMStart I iv text (sint n) s = (ippStsNoErr, s')" "gcm_started I E iv text s'"
proof -
  have "length text < 2 ^ 31" using assms(3,4) by simp
  then show thesis using assms(1,2) that unfolding gcm_keyed_def assms(4) sint_length [OF assms(3), of mem a] by blast
qed

lemma gcm_crypt_states:
  assumes "gcm_started I E iv aad s" "unat (n :: u32) < 2 ^ 31" "text = rd mem a (unat n)"
  shows "\<exists>s'. ippsAES_GCMEncrypt I text (sint n) s = (ippStsNoErr, gcm_crypt E iv text, s')
      \<and> ippsAES_GCMGetTag I s' = (ippStsNoErr, gcm_tag E iv aad (gcm_crypt E iv text))"
    and "\<exists>s'. ippsAES_GCMDecrypt I text (sint n) s = (ippStsNoErr, gcm_crypt E iv text, s')
      \<and> ippsAES_GCMGetTag I s' = (ippStsNoErr, gcm_tag E iv aad text)"
proof -
  have "length text < 2 ^ 31" using assms(2,3) by simp
  note c = assms(1) [unfolded gcm_started_def] this [unfolded assms(3)]
  show "\<exists>s'. ippsAES_GCMEncrypt I text (sint n) s = (ippStsNoErr, gcm_crypt E iv text, s')
      \<and> ippsAES_GCMGetTag I s' = (ippStsNoErr, gcm_tag E iv aad (gcm_crypt E iv text))"
    using c unfolding assms(3) sint_length [OF assms(2), of mem a] by blast
  show "\<exists>s'. ippsAES_GCMDecrypt I text (sint n) s = (ippStsNoErr, gcm_crypt E iv text, s')
      \<and> ippsAES_GCMGetTag I s' = (ippStsNoErr, gcm_tag E iv aad text)"
    using c unfolding assms(3) sint_length [OF assms(2), of mem a] by blast
qed

lemma encrypt_ok:
  assumes ok: "ipp_gcm_ok I E" and len: "length key = 16" "length iv = 12" and runs: "gcm_runs I aad_len src_len"
    and good: "\<not> gcm_bad_parameters (Some key) p_src src_len p_dst (Some iv) iv_len p_aad aad_len (p_out_mac = 0)"
    and out: "out = gcm_crypt (E key) iv (rd mem (unat p_src) (unat src_len))"
  shows "sgx_rijndael128GCM_encrypt I (Some key) p_src src_len p_dst (Some iv) iv_len p_aad aad_len p_out_mac mem
    = (SGX_SUCCESS, wr (wr mem (unat p_dst) out) (unat p_out_mac)
         (gcm_tag (E key) iv (rd mem (unat p_aad) (unat aad_len)) out))"
proof -
  let ?aad = "rd mem (unat p_aad) (unat aad_len)" and ?src = "rd mem (unat p_src) (unat src_len)"
  have r: "gcm_malloc I" "unat aad_len < 2 ^ 31" "unat src_len < 2 ^ 31" using runs by (simp_all add: gcm_runs_def)
  obtain s0 where s0: "ippsAES_GCMInit I key = (ippStsNoErr, s0)" "gcm_keyed I (E key) s0" by (rule gcm_init_state [OF ok len(1)])
  obtain s1 where s1: "ippsAES_GCMStart I iv ?aad (sint aad_len) s0 = (ippStsNoErr, s1)" "gcm_started I (E key) iv ?aad s1"
    by (rule gcm_start_state [OF s0(2) len(2) r(2) refl])
  obtain s2 where s2: "ippsAES_GCMEncrypt I ?src (sint src_len) s1 = (ippStsNoErr, out, s2)"
      "ippsAES_GCMGetTag I s2 = (ippStsNoErr, gcm_tag (E key) iv ?aad out)"
    using gcm_crypt_states(1) [OF s1(2) r(3) refl] unfolding out by blast
  have "ippsAES_GCMGetSize I = ippStsNoErr" "ippsAES_GCMGetTag I s1 = (ippStsNoErr, gcm_tag (E key) iv ?aad [])"
    using ok s1(2) by (simp_all add: ipp_gcm_ok_def gcm_started_def)
  moreover have "src_len = 0 \<Longrightarrow> out = []" by (simp add: out rd_def)
  ultimately show ?thesis
    using good r(1) s0(1) s1(1) s2 by (cases "src_len = 0") (auto simp: sgx_rijndael128GCM_encrypt_def word_neq_0_conv)
qed

lemma decrypt_ok:
  assumes ok: "ipp_gcm_ok I E" and len: "length key = 16" "length iv = 12" and runs: "gcm_runs I aad_len src_len"
    and good: "\<not> gcm_bad_parameters (Some key) p_src src_len p_dst (Some iv) iv_len p_aad aad_len (p_in_mac = 0)"
    and out: "mem' = wr mem (unat p_dst) (gcm_crypt (E key) iv (rd mem (unat p_src) (unat src_len)))"
  shows "sgx_rijndael128GCM_decrypt I (Some key) p_src src_len p_dst (Some iv) iv_len p_aad aad_len p_in_mac mem
    = (if rd mem' (unat p_in_mac) 16 = gcm_tag (E key) iv (rd mem (unat p_aad) (unat aad_len)) (rd mem (unat p_src) (unat src_len))
       then (SGX_SUCCESS, mem') else (SGX_ERROR_MAC_MISMATCH, clear p_dst src_len mem'))"
proof -
  let ?aad = "rd mem (unat p_aad) (unat aad_len)" and ?src = "rd mem (unat p_src) (unat src_len)"
  have r: "gcm_malloc I" "unat aad_len < 2 ^ 31" "unat src_len < 2 ^ 31" using runs by (simp_all add: gcm_runs_def)
  obtain s0 where s0: "ippsAES_GCMInit I key = (ippStsNoErr, s0)" "gcm_keyed I (E key) s0" by (rule gcm_init_state [OF ok len(1)])
  obtain s1 where s1: "ippsAES_GCMStart I iv ?aad (sint aad_len) s0 = (ippStsNoErr, s1)" "gcm_started I (E key) iv ?aad s1"
    by (rule gcm_start_state [OF s0(2) len(2) r(2) refl])
  obtain s2 where s2: "ippsAES_GCMDecrypt I ?src (sint src_len) s1 = (ippStsNoErr, gcm_crypt (E key) iv ?src, s2)"
      "ippsAES_GCMGetTag I s2 = (ippStsNoErr, gcm_tag (E key) iv ?aad ?src)"
    using gcm_crypt_states(2) [OF s1(2) r(3) refl] by blast
  have "ippsAES_GCMGetSize I = ippStsNoErr" "ippsAES_GCMGetTag I s1 = (ippStsNoErr, gcm_tag (E key) iv ?aad [])"
    using ok s1(2) by (simp_all add: ipp_gcm_ok_def gcm_started_def)
  moreover have "src_len = 0 \<Longrightarrow> ?src = []" by (simp add: rd_def)
  ultimately show ?thesis
    using good out r(1) s0(1) s1(1) s2
    by (cases "src_len = 0") (auto simp: sgx_rijndael128GCM_decrypt_def SGX_AESGCM_MAC_SIZE_def word_neq_0_conv)
qed

text \<open>
  Otherwise the wrappers return an error and have written nothing: without memory, or with a length that is
  negative as an \<^verbatim>\<open>int\<close>.
\<close>

lemma crypt_refused:
  assumes ok: "ipp_gcm_ok I E" and len: "length key = 16" "length iv = 12" and runs: "\<not> gcm_runs I aad_len src_len"
  shows "sgx_rijndael128GCM_encrypt I (Some key) p_src src_len p_dst (Some iv) iv_len p_aad aad_len p_mac mem
      = (if gcm_bad_parameters (Some key) p_src src_len p_dst (Some iv) iv_len p_aad aad_len (p_mac = 0)
         then SGX_ERROR_INVALID_PARAMETER else gcm_refusal I aad_len, mem)"
    and "sgx_rijndael128GCM_decrypt I (Some key) p_src src_len p_dst (Some iv) iv_len p_aad aad_len p_mac mem
      = (if gcm_bad_parameters (Some key) p_src src_len p_dst (Some iv) iv_len p_aad aad_len (p_mac = 0)
         then SGX_ERROR_INVALID_PARAMETER else gcm_refusal I aad_len, mem)"
proof -
  let ?aad = "rd mem (unat p_aad) (unat aad_len)" and ?src = "rd mem (unat p_src) (unat src_len)"
  obtain s0 where s0: "ippsAES_GCMInit I key = (ippStsNoErr, s0)" "gcm_keyed I (E key) s0" by (rule gcm_init_state [OF ok len(1)])
  have start: "\<exists>s1. ippsAES_GCMStart I iv ?aad (sint aad_len) s0 = (ippStsLengthErr, s1)" if "\<not> unat aad_len < 2 ^ 31"
    using s0(2) len(2) sint_negative [OF that] unfolding gcm_keyed_def by (metis prod.collapse)
  have crypt: "\<exists>s1 o1 o2 s2 s3. ippsAES_GCMStart I iv ?aad (sint aad_len) s0 = (ippStsNoErr, s1)
      \<and> ippsAES_GCMEncrypt I ?src (sint src_len) s1 = (ippStsLengthErr, o1, s2)
      \<and> ippsAES_GCMDecrypt I ?src (sint src_len) s1 = (ippStsLengthErr, o2, s3)"
    if small: "unat aad_len < 2 ^ 31" and big: "\<not> unat src_len < 2 ^ 31"
  proof -
    obtain s1 where s1: "ippsAES_GCMStart I iv ?aad (sint aad_len) s0 = (ippStsNoErr, s1)" "gcm_started I (E key) iv ?aad s1"
      by (rule gcm_start_state [OF s0(2) len(2) small refl])
    have "fst (ippsAES_GCMEncrypt I ?src (sint src_len) s1) = ippStsLengthErr" "fst (ippsAES_GCMDecrypt I ?src (sint src_len) s1) = ippStsLengthErr"
      using s1(2) sint_negative [OF big] unfolding gcm_started_def by blast+
    with s1(1) show ?thesis by (metis prod.collapse)
  qed
  consider (memory) "\<not> gcm_malloc I"
    | (aad) s1 where "gcm_malloc I" "\<not> unat aad_len < 2 ^ 31" "ippsAES_GCMStart I iv ?aad (sint aad_len) s0 = (ippStsLengthErr, s1)"
    | (src) s1 o1 o2 s2 s3 where "gcm_malloc I" "unat aad_len < 2 ^ 31" "src_len > 0"
        "ippsAES_GCMStart I iv ?aad (sint aad_len) s0 = (ippStsNoErr, s1)"
        "ippsAES_GCMEncrypt I ?src (sint src_len) s1 = (ippStsLengthErr, o1, s2)"
        "ippsAES_GCMDecrypt I ?src (sint src_len) s1 = (ippStsLengthErr, o2, s3)"
  proof -
    have "src_len > 0" if "\<not> unat src_len < 2 ^ 31" using that by (auto simp: word_less_nat_alt)
    then show thesis using that runs start crypt unfolding gcm_runs_def by blast
  qed
  note c = this
  have gs: "ippsAES_GCMGetSize I = ippStsNoErr" using ok by (simp add: ipp_gcm_ok_def)
  show "sgx_rijndael128GCM_encrypt I (Some key) p_src src_len p_dst (Some iv) iv_len p_aad aad_len p_mac mem
      = (if gcm_bad_parameters (Some key) p_src src_len p_dst (Some iv) iv_len p_aad aad_len (p_mac = 0)
         then SGX_ERROR_INVALID_PARAMETER else gcm_refusal I aad_len, mem)"
    by (cases rule: c) (simp_all add: sgx_rijndael128GCM_encrypt_def s0(1) gs gcm_refusal_def)
  show "sgx_rijndael128GCM_decrypt I (Some key) p_src src_len p_dst (Some iv) iv_len p_aad aad_len p_mac mem
      = (if gcm_bad_parameters (Some key) p_src src_len p_dst (Some iv) iv_len p_aad aad_len (p_mac = 0)
         then SGX_ERROR_INVALID_PARAMETER else gcm_refusal I aad_len, mem)"
    by (cases rule: c) (simp_all add: sgx_rijndael128GCM_decrypt_def s0(1) gs gcm_refusal_def)
qed

lemma refused_not_success: "(if b then SGX_ERROR_INVALID_PARAMETER else gcm_refusal I aad_len) \<noteq> SGX_SUCCESS"
  by (simp add: gcm_refusal_def)


text \<open>The contract is met by the functions of the standard themselves.\<close>

definition spec_gcm :: "(bytes \<Rightarrow> bytes \<Rightarrow> bytes) \<Rightarrow> (bytes \<times> bytes \<times> bytes \<times> bytes) ipp_gcm" where
  "spec_gcm E = \<lparr>ippsAES_GCMGetSize = ippStsNoErr, gcm_malloc = True,
     ippsAES_GCMInit = (\<lambda>key. (ippStsNoErr, key, [], [], [])),
     ippsAES_GCMStart = (\<lambda>iv aad len (key, _). (if len < 0 then ippStsLengthErr else ippStsNoErr, key, iv, aad, [])),
     ippsAES_GCMEncrypt = (\<lambda>text len (key, iv, aad, c).
       let out = gcm_crypt (E key) iv text in (if len < 0 then ippStsLengthErr else ippStsNoErr, out, key, iv, aad, c @ out)),
     ippsAES_GCMDecrypt = (\<lambda>text len (key, iv, aad, c).
       (if len < 0 then ippStsLengthErr else ippStsNoErr, gcm_crypt (E key) iv text, key, iv, aad, c @ text)),
     ippsAES_GCMGetTag = (\<lambda>(key, iv, aad, c). (ippStsNoErr, gcm_tag (E key) iv aad c))\<rparr>"

lemma spec_gcm_ok: "(\<And>key b. length (E key b) = 16) \<Longrightarrow> ipp_gcm_ok (spec_gcm E) E"
  by (simp add: ipp_gcm_ok_def gcm_keyed_def gcm_started_def spec_gcm_def Let_def)


end
