(* ===== verification/Tseal.thy ===== *)
theory Tseal
  imports Sgx_Key Tcrypto_Gcm
begin

text \<open>
  Sealing, \<^verbatim>\<open>sdk/tseal\<close>: an enclave encrypts data under a key that the processor derives for it, and
  gets the data back later. The caller's buffers and the sealed blob are addresses in one memory, so
  that overlapping buffers behave as in the code.
\<close>

unbundle bit_operations_syntax

section \<open>Sizes\<close>

definition UINT32_MAX :: u32 where "UINT32_MAX = 0xffffffff"

definition SGX_SEAL_IV_SIZE :: u32 where "SGX_SEAL_IV_SIZE = 12"

text \<open>The offsets of the fields of \<^verbatim>\<open>sgx_sealed_data_t\<close>, and its size.\<close>

definition plain_text_offset_at :: nat where "plain_text_offset_at = 512"

definition payload_size_at :: nat where "payload_size_at = 528"

definition payload_tag_at :: u64 where "payload_tag_at = 544"

definition payload_at :: u64 where "payload_at = 560"

definition sizeof_sealed_data :: u32 where "sizeof_sealed_data = 560"

lemmas sealed_defs = plain_text_offset_at_def payload_size_at_def payload_tag_at_def payload_at_def sizeof_sealed_data_def

definition sgx_calc_sealed_data_size :: "u32 \<Rightarrow> u32 \<Rightarrow> u32" where
  "sgx_calc_sealed_data_size add_mac_txt_size txt_encrypt_size =
     (if add_mac_txt_size > UINT32_MAX - txt_encrypt_size then UINT32_MAX
      else
        let payload_size = add_mac_txt_size + txt_encrypt_size in
        if payload_size > UINT32_MAX - sizeof_sealed_data then UINT32_MAX
        else sizeof_sealed_data + payload_size)"

definition sgx_get_add_mac_txt_len :: "memory \<Rightarrow> u64 \<Rightarrow> u32" where
  "sgx_get_add_mac_txt_len mem p_sealed_data =
     (if p_sealed_data = 0 then UINT32_MAX
      else
        let payload_size = rd_word mem (unat p_sealed_data + payload_size_at) 4;
            data_size = payload_size - rd_word mem (unat p_sealed_data + plain_text_offset_at) 4
        in if data_size > payload_size then UINT32_MAX else data_size)"

definition sgx_get_encrypt_txt_len :: "memory \<Rightarrow> u64 \<Rightarrow> u32" where
  "sgx_get_encrypt_txt_len mem p_sealed_data =
     (if p_sealed_data = 0 then UINT32_MAX else rd_word mem (unat p_sealed_data + plain_text_offset_at) 4)"

section \<open>Sealing\<close>

definition sgx_seal_data_iv ::
  "'r sgx_env \<Rightarrow> 's ipp_gcm \<Rightarrow> u32 \<Rightarrow> u64 \<Rightarrow> u32 \<Rightarrow> u64 \<Rightarrow> bytes \<Rightarrow> sgx_key_request_t \<Rightarrow> u64 \<Rightarrow> memory \<Rightarrow> 'r
    \<Rightarrow> sgx_status_t \<times> memory \<times> 'r" where
  "sgx_seal_data_iv V G add_len p_add txt_len p_txt payload_iv key_request p_sealed mem r =
     (case sgx_get_key V (env_stack V) key_request (env_stack V) (replicate 16 0) r of (err, seal_key, r) \<Rightarrow>
        if err \<noteq> SGX_SUCCESS
        then (if err \<noteq> SGX_ERROR_OUT_OF_MEMORY then SGX_ERROR_UNEXPECTED else err, mem, r)
        else case sgx_rijndael128GCM_encrypt G (Some seal_key) p_txt txt_len (p_sealed + payload_at) (Some payload_iv)
               SGX_SEAL_IV_SIZE p_add add_len (p_sealed + payload_tag_at) mem of (err, mem) \<Rightarrow>
          if err \<noteq> SGX_SUCCESS then (err, mem, r)
          else
            let mem = (if add_len > 0
                       then wr mem (unat (p_sealed + payload_at + ucast txt_len)) (rd mem (unat p_add) (unat add_len))
                       else mem);
                mem = wr mem (unat p_sealed + plain_text_offset_at) (le_bytes 4 txt_len);
                mem = wr mem (unat p_sealed + payload_size_at) (le_bytes 4 (add_len + txt_len))
            in (SGX_SUCCESS, mem, r))"

text \<open>The checks of the key policy and of the attribute mask that both kinds of sealing make.\<close>

definition bad_key_policy :: "u16 \<Rightarrow> bool" where
  "bad_key_policy key_policy \<longleftrightarrow>
     key_policy AND NOT (SGX_KEYPOLICY_MRENCLAVE OR SGX_KEYPOLICY_MRSIGNER OR KEY_POLICY_KSS OR SGX_KEYPOLICY_NOISVPRODID) \<noteq> 0
     \<or> key_policy AND (SGX_KEYPOLICY_MRENCLAVE OR SGX_KEYPOLICY_MRSIGNER) = 0"

definition bad_attribute_mask :: "sgx_attributes_t \<Rightarrow> bool" where
  "bad_attribute_mask attribute_mask \<longleftrightarrow>
     attr_flags attribute_mask AND SGX_FLAGS_INITTED = 0 \<or> attr_flags attribute_mask AND SGX_FLAGS_DEBUG = 0"

text \<open>The key request, filled from the report of the enclave and with a random key identifier.\<close>

definition seal_key_request :: "'r sgx_env \<Rightarrow> u16 \<Rightarrow> sgx_attributes_t \<Rightarrow> u32 \<Rightarrow> bytes \<Rightarrow> sgx_key_request_t" where
  "seal_key_request V key_policy attribute_mask misc_mask keyID =
     (let body = rp_body (sgx_self_report V) in
      zero_key_request\<lparr>kr_cpu_svn := rb_cpu_svn body, kr_isv_svn := rb_isv_svn body, kr_config_svn := rb_config_svn body,
        kr_key_name := SGX_KEYSELECT_SEAL, kr_key_policy := key_policy,
        kr_attribute_mask := \<lparr>attr_flags = attr_flags attribute_mask, attr_xfrm = attr_xfrm attribute_mask\<rparr>,
        kr_key_id := keyID, kr_misc_mask := misc_mask\<rparr>)"

text \<open>The part after the checks, which \<^verbatim>\<open>sgx_seal_data_ex\<close> and \<^verbatim>\<open>sgx_mac_aadata_ex\<close> have in common.\<close>

definition seal_checked ::
  "'r sgx_env \<Rightarrow> 's ipp_gcm \<Rightarrow> u16 \<Rightarrow> sgx_attributes_t \<Rightarrow> u32 \<Rightarrow> u32 \<Rightarrow> u64 \<Rightarrow> u32 \<Rightarrow> u64 \<Rightarrow> u32 \<Rightarrow> u64 \<Rightarrow> memory \<Rightarrow> 'r
    \<Rightarrow> sgx_status_t \<times> memory \<times> 'r" where
  "seal_checked V G key_policy attribute_mask misc_mask add_len p_add txt_len p_txt sealedDataSize p_sealed mem r =
     (let mem = clear p_sealed sealedDataSize mem in
      case sgx_read_rand (env_range V) (env_rdrand V) (env_stack V) 32 r of (err, keyID, r) \<Rightarrow>
        if err \<noteq> SGX_SUCCESS then (err, mem, r)
        else
          let kr = seal_key_request V key_policy attribute_mask misc_mask keyID in
          case sgx_seal_data_iv V G add_len p_add txt_len p_txt (replicate 12 0) kr p_sealed mem r of (err, mem, r) \<Rightarrow>
            (err, if err = SGX_SUCCESS then wr mem (unat p_sealed) (key_request_bytes kr) else mem, r))"

definition sgx_seal_data_ex ::
  "'r sgx_env \<Rightarrow> 's ipp_gcm \<Rightarrow> u16 \<Rightarrow> sgx_attributes_t \<Rightarrow> u32 \<Rightarrow> u32 \<Rightarrow> u64 \<Rightarrow> u32 \<Rightarrow> u64 \<Rightarrow> u32 \<Rightarrow> u64 \<Rightarrow> memory \<Rightarrow> 'r
    \<Rightarrow> sgx_status_t \<times> memory \<times> 'r" where
  "sgx_seal_data_ex V G key_policy attribute_mask misc_mask add_len p_add txt_len p_txt sealed_data_size p_sealed mem r =
     (let sealedDataSize = sgx_calc_sealed_data_size add_len txt_len; g = env_range V in
      if sealedDataSize = UINT32_MAX then (SGX_ERROR_INVALID_PARAMETER, mem, r)
      else if bad_key_policy key_policy then (SGX_ERROR_INVALID_PARAMETER, mem, r)
      else if bad_attribute_mask attribute_mask then (SGX_ERROR_INVALID_PARAMETER, mem, r)
      else if add_len > 0 \<and> p_add = 0 then (SGX_ERROR_INVALID_PARAMETER, mem, r)
      else if txt_len = 0 \<or> p_txt = 0 \<or> \<not> sgx_is_within_enclave g p_txt (ucast txt_len)
      then (SGX_ERROR_INVALID_PARAMETER, mem, r)
      else if p_sealed = 0 \<or> \<not> sgx_is_within_enclave g p_sealed (ucast sealed_data_size)
      then (SGX_ERROR_INVALID_PARAMETER, mem, r)
      else if add_len > 0
        \<and> \<not> (sgx_is_within_enclave g p_add (ucast add_len) \<or> sgx_is_outside_enclave g p_add (ucast add_len))
      then (SGX_ERROR_INVALID_PARAMETER, mem, r)
      else if sealedDataSize \<noteq> sealed_data_size then (SGX_ERROR_INVALID_PARAMETER, mem, r)
      else seal_checked V G key_policy attribute_mask misc_mask add_len p_add txt_len p_txt sealedDataSize p_sealed mem r)"

definition TSEAL_DEFAULT_FLAGSMASK :: u64 where
  "TSEAL_DEFAULT_FLAGSMASK =
     NOT (0xFFFFFFFFFFFFC0 OR SGX_FLAGS_MODE64BIT OR SGX_FLAGS_PROVISION_KEY OR SGX_FLAGS_EINITTOKEN_KEY)"

definition TSEAL_DEFAULT_MISCMASK :: u32 where "TSEAL_DEFAULT_MISCMASK = NOT 0x0FFFFFFF"

definition default_key_policy :: "'r sgx_env \<Rightarrow> u16" where
  "default_key_policy V =
     (if attr_flags (rb_attributes (rp_body (sgx_self_report V))) AND SGX_FLAGS_KSS \<noteq> 0
      then SGX_KEYPOLICY_MRSIGNER OR KEY_POLICY_KSS else SGX_KEYPOLICY_MRSIGNER)"

definition sgx_seal_data ::
  "'r sgx_env \<Rightarrow> 's ipp_gcm \<Rightarrow> u32 \<Rightarrow> u64 \<Rightarrow> u32 \<Rightarrow> u64 \<Rightarrow> u32 \<Rightarrow> u64 \<Rightarrow> memory \<Rightarrow> 'r \<Rightarrow> sgx_status_t \<times> memory \<times> 'r" where
  "sgx_seal_data V G add_len p_add txt_len p_txt sealed_data_size p_sealed mem r =
     sgx_seal_data_ex V G (default_key_policy V) \<lparr>attr_flags = TSEAL_DEFAULT_FLAGSMASK, attr_xfrm = 0\<rparr> TSEAL_DEFAULT_MISCMASK
       add_len p_add txt_len p_txt sealed_data_size p_sealed mem r"

definition sgx_mac_aadata_ex ::
  "'r sgx_env \<Rightarrow> 's ipp_gcm \<Rightarrow> u16 \<Rightarrow> sgx_attributes_t \<Rightarrow> u32 \<Rightarrow> u32 \<Rightarrow> u64 \<Rightarrow> u32 \<Rightarrow> u64 \<Rightarrow> memory \<Rightarrow> 'r
    \<Rightarrow> sgx_status_t \<times> memory \<times> 'r" where
  "sgx_mac_aadata_ex V G key_policy attribute_mask misc_mask add_len p_add sealed_data_size p_sealed mem r =
     (let sealedDataSize = sgx_calc_sealed_data_size add_len 0; g = env_range V in
      if sealedDataSize = UINT32_MAX then (SGX_ERROR_INVALID_PARAMETER, mem, r)
      else if bad_key_policy key_policy then (SGX_ERROR_INVALID_PARAMETER, mem, r)
      else if bad_attribute_mask attribute_mask then (SGX_ERROR_INVALID_PARAMETER, mem, r)
      else if add_len = 0 \<or> p_add = 0 then (SGX_ERROR_INVALID_PARAMETER, mem, r)
      else if \<not> (sgx_is_within_enclave g p_add (ucast add_len) \<or> sgx_is_outside_enclave g p_add (ucast add_len))
      then (SGX_ERROR_INVALID_PARAMETER, mem, r)
      else if p_sealed = 0 \<or> \<not> sgx_is_within_enclave g p_sealed (ucast sealed_data_size)
      then (SGX_ERROR_INVALID_PARAMETER, mem, r)
      else if sealedDataSize \<noteq> sealed_data_size then (SGX_ERROR_INVALID_PARAMETER, mem, r)
      else seal_checked V G key_policy attribute_mask misc_mask add_len p_add 0 0 sealedDataSize p_sealed mem r)"

definition sgx_mac_aadata ::
  "'r sgx_env \<Rightarrow> 's ipp_gcm \<Rightarrow> u32 \<Rightarrow> u64 \<Rightarrow> u32 \<Rightarrow> u64 \<Rightarrow> memory \<Rightarrow> 'r \<Rightarrow> sgx_status_t \<times> memory \<times> 'r" where
  "sgx_mac_aadata V G add_len p_add sealed_data_size p_sealed mem r =
     sgx_mac_aadata_ex V G (default_key_policy V) \<lparr>attr_flags = TSEAL_DEFAULT_FLAGSMASK, attr_xfrm = 0\<rparr> TSEAL_DEFAULT_MISCMASK
       add_len p_add sealed_data_size p_sealed mem r"

section \<open>Unsealing\<close>

definition sgx_unseal_data_helper ::
  "'r sgx_env \<Rightarrow> 's ipp_gcm \<Rightarrow> u64 \<Rightarrow> u64 \<Rightarrow> u32 \<Rightarrow> u64 \<Rightarrow> u32 \<Rightarrow> memory \<Rightarrow> 'r \<Rightarrow> sgx_status_t \<times> memory \<times> 'r" where
  "sgx_unseal_data_helper V G p_sealed p_add add_len p_txt txt_len mem r =
     (let mem = (if txt_len > 0 then clear p_txt txt_len mem else mem);
          mem = (if add_len > 0 then clear p_add add_len mem else mem)
      in case sgx_get_key V p_sealed (decode_key_request mem (unat p_sealed)) (env_stack V) (replicate 16 0) r of
        (err, seal_key, r) \<Rightarrow>
          if err \<noteq> SGX_SUCCESS
          then (if err = SGX_ERROR_INVALID_CPUSVN \<or> err = SGX_ERROR_INVALID_ISVSVN \<or> err = SGX_ERROR_OUT_OF_MEMORY then err
                else SGX_ERROR_MAC_MISMATCH, mem, r)
          else case sgx_rijndael128GCM_decrypt G (Some seal_key) (p_sealed + payload_at) txt_len p_txt (Some (replicate 12 0))
                 SGX_SEAL_IV_SIZE (p_sealed + payload_at + ucast txt_len) add_len (p_sealed + payload_tag_at) mem of (err, mem) \<Rightarrow>
            if err \<noteq> SGX_SUCCESS then (err, mem, r)
            else (SGX_SUCCESS,
                  if add_len > 0 then wr mem (unat p_add) (rd mem (unat (p_sealed + payload_at + ucast txt_len)) (unat add_len))
                  else mem, r))"

definition sgx_unseal_data ::
  "'r sgx_env \<Rightarrow> 's ipp_gcm \<Rightarrow> u64 \<Rightarrow> u64 \<Rightarrow> u64 \<Rightarrow> u64 \<Rightarrow> u64 \<Rightarrow> memory \<Rightarrow> 'r \<Rightarrow> sgx_status_t \<times> memory \<times> 'r" where
  "sgx_unseal_data V G p_sealed p_add p_add_length p_txt p_txt_length mem r =
     (let g = env_range V in
      if p_sealed = 0 \<or> \<not> sgx_is_within_enclave g p_sealed (ucast sizeof_sealed_data) then (SGX_ERROR_INVALID_PARAMETER, mem, r)
      else
        let encrypt_text_length = sgx_get_encrypt_txt_len mem p_sealed;
            add_text_length = sgx_get_add_mac_txt_len mem p_sealed;
            sealedDataSize = sgx_calc_sealed_data_size add_text_length encrypt_text_length
        in
        if encrypt_text_length = UINT32_MAX then (SGX_ERROR_MAC_MISMATCH, mem, r)
        else if add_text_length = UINT32_MAX then (SGX_ERROR_MAC_MISMATCH, mem, r)
        else if sealedDataSize = UINT32_MAX then (SGX_ERROR_MAC_MISMATCH, mem, r)
        else if \<not> sgx_is_within_enclave g p_sealed (ucast sealedDataSize) then (SGX_ERROR_INVALID_PARAMETER, mem, r)
        else if add_text_length > 0 \<and> (p_add = 0 \<or> p_add_length = 0) then (SGX_ERROR_INVALID_PARAMETER, mem, r)
        else if encrypt_text_length < 1 \<or> p_txt = 0 \<or> p_txt_length = 0 then (SGX_ERROR_INVALID_PARAMETER, mem, r)
        else if \<not> sgx_is_within_enclave g p_txt_length 4 then (SGX_ERROR_INVALID_PARAMETER, mem, r)
        else
          let input_decrypted_text_length = rd_word mem (unat p_txt_length) 4 :: u32 in
          if input_decrypted_text_length < encrypt_text_length then (SGX_ERROR_INVALID_PARAMETER, mem, r)
          else if \<not> sgx_is_within_enclave g p_txt (ucast input_decrypted_text_length) then (SGX_ERROR_INVALID_PARAMETER, mem, r)
          else if p_add_length \<noteq> 0 \<and> \<not> (sgx_is_within_enclave g p_add_length 4 \<or> sgx_is_outside_enclave g p_add_length 4)
          then (SGX_ERROR_INVALID_PARAMETER, mem, r)
          else
            let additional_MACtext_length = (if p_add_length \<noteq> 0 then rd_word mem (unat p_add_length) 4 else 0 :: u32) in
            if additional_MACtext_length < add_text_length then (SGX_ERROR_INVALID_PARAMETER, mem, r)
            else if add_text_length > 0 \<and> \<not> (sgx_is_within_enclave g p_add (ucast additional_MACtext_length)
                \<or> sgx_is_outside_enclave g p_add (ucast additional_MACtext_length))
            then (SGX_ERROR_INVALID_PARAMETER, mem, r)
            else
              case sgx_unseal_data_helper V G p_sealed p_add add_text_length p_txt encrypt_text_length mem r of
                (err, mem, r) \<Rightarrow>
                  (err, if err = SGX_SUCCESS
                        then let mem = wr mem (unat p_txt_length) (le_bytes 4 encrypt_text_length) in
                             if p_add_length \<noteq> 0 then wr mem (unat p_add_length) (le_bytes 4 add_text_length) else mem
                        else mem, r))"

definition sgx_unmac_aadata ::
  "'r sgx_env \<Rightarrow> 's ipp_gcm \<Rightarrow> u64 \<Rightarrow> u64 \<Rightarrow> u64 \<Rightarrow> memory \<Rightarrow> 'r \<Rightarrow> sgx_status_t \<times> memory \<times> 'r" where
  "sgx_unmac_aadata V G p_sealed p_add p_add_length mem r =
     (let g = env_range V in
      if p_sealed = 0 \<or> \<not> sgx_is_within_enclave g p_sealed (ucast sizeof_sealed_data) then (SGX_ERROR_INVALID_PARAMETER, mem, r)
      else
        let encrypt_text_length = sgx_get_encrypt_txt_len mem p_sealed;
            add_text_length = sgx_get_add_mac_txt_len mem p_sealed;
            sealedDataSize = sgx_calc_sealed_data_size add_text_length encrypt_text_length
        in
        if encrypt_text_length \<noteq> 0 then (SGX_ERROR_MAC_MISMATCH, mem, r)
        else if add_text_length = UINT32_MAX \<or> add_text_length = 0 then (SGX_ERROR_MAC_MISMATCH, mem, r)
        else if sealedDataSize = UINT32_MAX then (SGX_ERROR_MAC_MISMATCH, mem, r)
        else if \<not> sgx_is_within_enclave g p_sealed (ucast sealedDataSize) then (SGX_ERROR_INVALID_PARAMETER, mem, r)
        else if p_add = 0 \<or> p_add_length = 0 then (SGX_ERROR_INVALID_PARAMETER, mem, r)
        else if \<not> (sgx_is_within_enclave g p_add_length 4 \<or> sgx_is_outside_enclave g p_add_length 4)
        then (SGX_ERROR_INVALID_PARAMETER, mem, r)
        else
          let additional_MACtext_length = rd_word mem (unat p_add_length) 4 :: u32 in
          if additional_MACtext_length < add_text_length then (SGX_ERROR_INVALID_PARAMETER, mem, r)
          else if \<not> (sgx_is_within_enclave g p_add (ucast additional_MACtext_length)
              \<or> sgx_is_outside_enclave g p_add (ucast additional_MACtext_length))
          then (SGX_ERROR_INVALID_PARAMETER, mem, r)
          else
            case sgx_unseal_data_helper V G p_sealed p_add add_text_length 0 encrypt_text_length mem r of (err, mem, r) \<Rightarrow>
              (err, if err = SGX_SUCCESS then wr mem (unat p_add_length) (le_bytes 4 add_text_length) else mem, r))"

end
