(* ===== verification/Tseal_Correct.thy ===== *)
theory Tseal_Correct
  imports Tseal
begin

text \<open>
  Sealing is correct: what the size computation gives, the bytes of the sealed blob, the round trip of sealing
  and unsealing, and what unsealing leaves in the caller's buffer when the blob is not authentic.
\<close>

unbundle bit_operations_syntax

section \<open>Separate buffers\<close>

fun apart :: "nat \<times> nat \<Rightarrow> nat \<times> nat \<Rightarrow> bool" where
  "apart (a, n) (b, m) \<longleftrightarrow> n = 0 \<or> m = 0 \<or> a + n \<le> b \<or> b + m \<le> a"

fun all_apart :: "(nat \<times> nat) list \<Rightarrow> bool" where
  "all_apart [] \<longleftrightarrow> True"
| "all_apart (x # xs) \<longleftrightarrow> list_all (apart x) xs \<and> all_apart xs"

lemma rd_wr_apart: "apart (a, n) (off, length bs) \<Longrightarrow> rd (wr mem off bs) a n = rd mem a n"
  by (auto intro!: rd_cong simp: wr_outside)

lemma rd_wr_inside:
  "apart (a, n) (b, m) \<Longrightarrow> a \<le> off \<Longrightarrow> off + length bs \<le> a + n \<Longrightarrow> rd (wr mem off bs) b m = rd mem b m"
  by (rule rd_wr_apart) (cases bs; auto)

lemma rd_word_wr_apart: "apart (a, n) (off, length bs) \<Longrightarrow> rd_word (wr mem off bs) a n = rd_word mem a n"
  by (simp add: rd_word_def rd_wr_apart del: apart.simps)

lemma rd_word_wr_same: "rd_word (wr mem off (le_bytes 4 w)) off 4 = (w :: u32)"
  by (simp add: rd_word_def of_le_le_bytes)

lemma if_clear: "(if n > 0 then clear p n mem else mem) = wr mem (unat p) (replicate (unat n) 0)"
  by (auto simp: clear_def word_gt_0)

lemma unat_ptr: "unat (p :: u64) + k < 2 ^ 64 \<Longrightarrow> unat (p + word_of_nat k) = unat p + k"
  by (simp add: unat_word_ariths unat_of_nat)

section \<open>Sizes\<close>

lemma calc_sealed_size:
  "sgx_calc_sealed_data_size add_len txt_len
     = (if 560 + unat add_len + unat txt_len < 2 ^ 32 - 1 then word_of_nat (560 + unat add_len + unat txt_len) else UINT32_MAX)"
proof -
  have lt: "unat add_len < 2 ^ 32" "unat txt_len < 2 ^ 32" using unat_less_exp [of add_len] unat_less_exp [of txt_len] by simp_all
  have sub: "unat (UINT32_MAX - w) = 2 ^ 32 - 1 - unat w" for w :: u32
    using unat_less_exp [of w] by (subst unat_sub) (auto simp: UINT32_MAX_def word_le_nat_alt)
  have guard: "add_len > UINT32_MAX - txt_len \<longleftrightarrow> unat add_len + unat txt_len \<ge> 2 ^ 32"
    using lt by (auto simp: word_less_nat_alt sub)
  have add: "unat (add_len + txt_len) = unat add_len + unat txt_len" if "unat add_len + unat txt_len < 2 ^ 32"
    using that by (simp add: unat_word_ariths)
  have guard2: "add_len + txt_len > UINT32_MAX - sizeof_sealed_data \<longleftrightarrow> unat add_len + unat txt_len + 560 \<ge> 2 ^ 32"
    if "unat add_len + unat txt_len < 2 ^ 32"
    using that by (auto simp: word_less_nat_alt sub add sizeof_sealed_data_def)
  have edge: "sizeof_sealed_data + (add_len + txt_len) = UINT32_MAX" if "560 + unat add_len + unat txt_len = 2 ^ 32 - 1"
    using that by (simp add: word_unat_eq_iff unat_word_ariths sizeof_sealed_data_def UINT32_MAX_def)
  have cases: "560 + unat add_len + unat txt_len < 2 ^ 32 - 1 \<or> 560 + unat add_len + unat txt_len = 2 ^ 32 - 1
      \<or> 560 + unat add_len + unat txt_len \<ge> 2 ^ 32" by linarith
  show ?thesis
    unfolding sgx_calc_sealed_data_size_def Let_def guard
    using cases guard2 edge by (auto simp: sizeof_sealed_data_def add.assoc)
qed

lemma sealed_size_unat:
  "sgx_calc_sealed_data_size add_len txt_len \<noteq> UINT32_MAX
    \<Longrightarrow> unat (sgx_calc_sealed_data_size add_len txt_len) = 560 + unat add_len + unat txt_len"
  unfolding calc_sealed_size by (auto simp: unat_of_nat simp del: of_nat_add split: if_splits)

text \<open>
  C29: the size of a sealed blob is that of its header and both texts, added without wrapping around: the sum saturates at
  the value that reports an error.
\<close>

theorem sealed_size_saturates:
  "unat (sgx_calc_sealed_data_size add_len txt_len) = min (unat UINT32_MAX) (560 + unat add_len + unat txt_len)"
  unfolding calc_sealed_size by (auto simp: unat_of_nat UINT32_MAX_def simp del: of_nat_add)

section \<open>The sealed blob\<close>

text \<open>The memory holds at \<open>a\<close> a blob with this key request, tag, encrypted text and additional text.\<close>

definition holds_blob :: "memory \<Rightarrow> nat \<Rightarrow> sgx_key_request_t \<Rightarrow> bytes \<Rightarrow> bytes \<Rightarrow> bytes \<Rightarrow> bool" where
  "holds_blob mem a kr tag ct aad \<longleftrightarrow> rd mem a 512 = key_request_bytes kr
     \<and> rd mem (a + 512) 4 = le_bytes 4 (word_of_nat (length ct) :: u32)
     \<and> rd mem (a + 528) 4 = le_bytes 4 (word_of_nat (length aad + length ct) :: u32)
     \<and> rd mem (a + 544) 16 = tag \<and> rd mem (a + 560) (length ct) = ct \<and> rd mem (a + 560 + length ct) (length aad) = aad"

lemma holds_blob_copy:
  assumes "holds_blob mem a kr tag ct aad" "rd mem' b (560 + length aad + length ct) = rd mem a (560 + length aad + length ct)"
  shows "holds_blob mem' b kr tag ct aad"
proof -
  have at: "rd mem' (b + k) n = rd mem (a + k) n" if "k + n \<le> 560 + length aad + length ct" for k n
    using assms(2) rd_inside [OF that] by metis
  have "rd mem' b 512 = rd mem a 512" using at [of 0 512] by simp
  moreover have "rd mem' (b + (560 + length ct)) (length aad) = rd mem (a + (560 + length ct)) (length aad)"
    by (rule at) simp
  ultimately show ?thesis using assms(1) by (simp add: holds_blob_def at add.assoc)
qed

lemma holds_blob_lengths:
  assumes "holds_blob mem (unat p) kr tag ct aad" "p \<noteq> 0" "560 + length aad + length ct < 2 ^ 32 - 1"
  shows "sgx_get_encrypt_txt_len mem p = word_of_nat (length ct)" "sgx_get_add_mac_txt_len mem p = word_of_nat (length aad)"
proof -
  have r: "rd_word mem (unat p + 512) 4 = (word_of_nat (length ct) :: u32)"
      "rd_word mem (unat p + 528) 4 = (word_of_nat (length aad + length ct) :: u32)"
    using assms(1) by (simp_all add: holds_blob_def rd_word_def of_le_le_bytes del: of_nat_add)
  have le: "(word_of_nat (length aad) :: u32) \<le> word_of_nat (length aad + length ct)"
    using assms(3) by (simp add: word_le_nat_alt unat_of_nat del: of_nat_add)
  show "sgx_get_encrypt_txt_len mem p = word_of_nat (length ct)"
    using assms(2) r by (simp add: sgx_get_encrypt_txt_len_def sealed_defs)
  show "sgx_get_add_mac_txt_len mem p = word_of_nat (length aad)"
    using assms(2) r leD [OF le] by (simp add: sgx_get_add_mac_txt_len_def sealed_defs Let_def)
qed

section \<open>What sealing writes\<close>

text \<open>
  The environment: a loaded enclave, 16 byte keys and security version numbers, and the primitives of AES-GCM.
\<close>

definition seal_env :: "'r sgx_env \<Rightarrow> 's ipp_gcm \<Rightarrow> (bytes \<Rightarrow> bytes \<Rightarrow> bytes) \<Rightarrow> bool" where
  "seal_env V G E \<longleftrightarrow> env_ok V \<and> wf_enclave (env_range V) \<and> ipp_gcm_ok G E
     \<and> (\<forall>kr. length (snd (env_egetkey V kr)) = 16) \<and> length (rb_cpu_svn (rp_body (sgx_self_report V))) = 16"

abbreviation seal_iv :: bytes where "seal_iv \<equiv> replicate 12 0"

lemma get_key_success:
  assumes "sgx_get_key V a kr (env_stack V) key r = (SGX_SUCCESS, k, r')" "env_ok V"
  shows "env_egetkey V kr = (EGETKEY_SUCCESS, k)" "r' = r"
    and "b \<noteq> 0 \<Longrightarrow> sgx_is_within_enclave (env_range V) b 512 \<Longrightarrow> sgx_get_key V b kr (env_stack V) key2 r2 = (SGX_SUCCESS, k, r2)"
proof -
  have stack: "env_stack V \<noteq> 0" using assms(2) by (simp add: env_ok_def)
  have st: "get_key_status V a kr (env_stack V) = SGX_SUCCESS" and k: "snd (env_egetkey V kr) = k" and "r' = r"
    using assms(1) stack by (auto simp: sgx_get_key_def Let_def split: if_splits prod.splits)
  then show "r' = r" by simp
  have "egetkey_error (fst (env_egetkey V kr)) = SGX_SUCCESS"
    using st by (auto simp: get_key_status_def split: if_splits)
  then have "fst (env_egetkey V kr) = EGETKEY_SUCCESS"
    by (cases "fst (env_egetkey V kr)") simp_all
  with k show "env_egetkey V kr = (EGETKEY_SUCCESS, k)" by (metis prod.collapse)
  assume "b \<noteq> 0" "sgx_is_within_enclave (env_range V) b 512"
  then have "get_key_status V b kr (env_stack V) = SGX_SUCCESS"
    using st by (auto simp: get_key_status_def split: if_splits)
  then show "sgx_get_key V b kr (env_stack V) key2 r2 = (SGX_SUCCESS, k, r2)"
    using stack k by (simp add: sgx_get_key_def)
qed

lemma read_rand_success: "sgx_read_rand g f p n r = (SGX_SUCCESS, bs, r') \<Longrightarrow> length bs = unat n"
  using read_rand_loop_bytes [where f = f and n = "unat n" and r = r] by (auto simp: sgx_read_rand_def split: prod.splits if_splits)

lemma wf_seal_key_request:
  "length (rb_cpu_svn (rp_body (sgx_self_report V))) = 16 \<Longrightarrow> length keyID = 32 \<Longrightarrow> wf_key_request (seal_key_request V kp am mm keyID)"
  by (simp add: wf_key_request_def seal_key_request_def zero_key_request_def Let_def)

text \<open>The pointers into a blob that does not wrap around.\<close>

lemma blob_pointers:
  assumes "unat p + (560 + m + unat n) \<le> 2 ^ 64" "0 < m + unat n"
  shows "unat (p + payload_at) = unat p + 560" "unat (p + payload_tag_at) = unat p + 544"
    and "m > 0 \<Longrightarrow> unat (p + payload_at + ucast (n :: u32)) = unat p + 560 + unat n"
    and "p + payload_at \<noteq> 0" "p + payload_tag_at \<noteq> 0"
proof -
  have "unat p + 560 < 2 ^ 64" using assms by linarith
  then show 1: "unat (p + payload_at) = unat p + 560" "unat (p + payload_tag_at) = unat p + 544"
    by (simp_all add: payload_at_def payload_tag_at_def unat_word_ariths)
  show "p + payload_at \<noteq> 0" "p + payload_tag_at \<noteq> 0" using 1 by auto
  show "unat (p + payload_at + ucast n) = unat p + 560 + unat n" if "m > 0"
    using assms that 1 unat_less_exp [of n] by (simp add: unat_word_ariths unsigned_ucast_eq take_bit_eq_mod)
qed

lemma rd_aad:
  assumes "unat p + (560 + unat m + unat n) \<le> 2 ^ 64" "0 < unat m + unat n"
  shows "rd mem (unat (p + payload_at + ucast (n :: u32))) (unat (m :: u32)) = rd mem (unat p + 560 + unat n) (unat m)"
  using blob_pointers(3) [OF assms] by (cases "unat m = 0") auto

lemma seal_data_iv_writes:
  assumes env: "seal_env V G E" and runs: "gcm_runs G m n" and key: "sgx_get_key V (env_stack V) kr (env_stack V) (replicate 16 0) r = (SGX_SUCCESS, k, r)"
    and fits: "unat p + (560 + unat m + unat n) \<le> 2 ^ 64" "0 < unat m + unat n"
    and args: "n > 0 \<longrightarrow> p_txt \<noteq> 0" "m > 0 \<longrightarrow> p_add \<noteq> 0"
    and sep: "apart (unat p, 560 + unat m + unat n) (unat p_add, unat m)"
    and ct: "ct = gcm_crypt (E k) seal_iv (rd mem (unat p_txt) (unat n))" and aad: "aad = rd mem (unat p_add) (unat m)"
  shows "sgx_seal_data_iv V G m p_add n p_txt seal_iv kr p mem r
    = (SGX_SUCCESS, wr (wr (wr (wr (wr mem (unat p + 560) ct) (unat p + 544) (gcm_tag (E k) seal_iv aad ct))
         (unat p + 560 + unat n) aad) (unat p + 512) (le_bytes 4 n)) (unat p + 528) (le_bytes 4 (m + n)), r)"
proof -
  note ptr = blob_pointers [OF fits]
  have ok: "ipp_gcm_ok G E" and k: "length k = 16" and E: "length (E key b) = 16" for key b
    using env get_key_success(1) [OF key] by (auto simp: seal_env_def ipp_gcm_ok_def dest: spec [of _ kr])
  have good: "\<not> gcm_bad_parameters (Some k) p_txt n (p + payload_at) (Some seal_iv) SGX_SEAL_IV_SIZE p_add m (p + payload_tag_at = 0)"
    using args fits ptr(4,5) by (auto simp: gcm_bad_parameters_def SGX_SEAL_IV_SIZE_def SGX_AESGCM_IV_SIZE_def word_gt_0 unat_gt_0)
  let ?m = "wr (wr mem (unat p + 560) ct) (unat p + 544) (gcm_tag (E k) seal_iv aad ct)"
  have enc: "sgx_rijndael128GCM_encrypt G (Some k) p_txt n (p + payload_at) (Some seal_iv) SGX_SEAL_IV_SIZE p_add m (p + payload_tag_at) mem
      = (SGX_SUCCESS, ?m)"
    using encrypt_ok [OF ok k _ runs good, of ct mem] by (simp add: ct aad ptr(1,2))
  have lct: "length ct = unat n" using E by (simp add: ct length_gcm_crypt)
  have same: "rd ?m (unat p_add) (unat m) = aad"
    using E lct by (simp add: aad rd_wr_inside [OF sep] length_gcm_tag)
  have copy: "(if m > 0 then wr ?m (unat (p + payload_at + ucast n)) (rd ?m (unat p_add) (unat m)) else ?m)
      = wr ?m (unat p + 560 + unat n) aad"
    using ptr(3) same by (cases "m = 0") (auto simp: aad word_gt_0 unat_gt_0)
  show ?thesis
    unfolding sgx_seal_data_iv_def key prod.case enc Let_def copy by (simp add: plain_text_offset_at_def payload_size_at_def)
qed

lemma seal_data_iv_runs:
  assumes env: "seal_env V G E" and key: "sgx_get_key V (env_stack V) kr (env_stack V) (replicate 16 0) r = (SGX_SUCCESS, k, r2)"
    and iv: "sgx_seal_data_iv V G m p_add n p_txt seal_iv kr p mem r = (SGX_SUCCESS, mem', r')"
  shows "gcm_runs G m n"
proof (rule ccontr)
  assume no: "\<not> gcm_runs G m n"
  have ok: "ipp_gcm_ok G E" "length k = 16"
    using env get_key_success(1) [OF key] by (auto simp: seal_env_def dest: spec [of _ kr])
  obtain e where "e \<noteq> SGX_SUCCESS" "sgx_rijndael128GCM_encrypt G (Some k) p_txt n (p + payload_at) (Some seal_iv) SGX_SEAL_IV_SIZE
      p_add m (p + payload_tag_at) mem = (e, mem)"
    using crypt_refused(1) [OF ok length_replicate no] refused_not_success by blast
  then show False using iv by (simp add: sgx_seal_data_iv_def key)
qed

text \<open>Writing the parts of a blob one after the other.\<close>

lemma written_blob:
  fixes n m :: u32
  assumes "length ct = unat n" "length aad = unat m" "length tag = 16" "wf_key_request kr"
  shows "holds_blob (wr (wr (wr (wr (wr (wr mem (a + 560) ct) (a + 544) tag) (a + 560 + unat n) aad) (a + 512) (le_bytes 4 n))
      (a + 528) (le_bytes 4 (m + n))) a (key_request_bytes kr)) a kr tag ct aad"
  using assms by (simp add: holds_blob_def rd_wr_apart length_key_request_bytes)

lemma seal_checked_blob:
  assumes env: "seal_env V G E"
    and seal: "seal_checked V G kp am mm m p_add n p_txt sz p mem r = (SGX_SUCCESS, mem', r')"
    and sz: "unat sz = 560 + unat m + unat n" and fits: "unat p + (560 + unat m + unat n) \<le> 2 ^ 64" "0 < unat m + unat n"
    and args: "n > 0 \<longrightarrow> p_txt \<noteq> 0" "m > 0 \<longrightarrow> p_add \<noteq> 0"
    and sep: "apart (unat p, 560 + unat m + unat n) (unat p_add, unat m)" "apart (unat p, 560 + unat m + unat n) (unat p_txt, unat n)"
  obtains kr k ct where "sgx_get_key V (env_stack V) kr (env_stack V) (replicate 16 0) r' = (SGX_SUCCESS, k, r')"
    and "wf_key_request kr" "gcm_runs G m n" "ct = gcm_crypt (E k) seal_iv (rd mem (unat p_txt) (unat n))"
    and "holds_blob mem' (unat p) kr (gcm_tag (E k) seal_iv (rd mem (unat p_add) (unat m)) ct) ct (rd mem (unat p_add) (unat m))"
proof -
  let ?mem = "clear p sz mem"
  obtain keyID r1 where rand: "sgx_read_rand (env_range V) (env_rdrand V) (env_stack V) 32 r = (SGX_SUCCESS, keyID, r1)"
    using seal by (auto simp: seal_checked_def Let_def split: prod.splits if_splits)
  define kr where "kr = seal_key_request V kp am mm keyID"
  obtain mem1 where iv: "sgx_seal_data_iv V G m p_add n p_txt seal_iv kr p ?mem r1 = (SGX_SUCCESS, mem1, r')"
      and mem': "mem' = wr mem1 (unat p) (key_request_bytes kr)"
    using seal rand by (auto simp: seal_checked_def Let_def kr_def split: prod.splits if_splits)
  obtain k r2 where key: "sgx_get_key V (env_stack V) kr (env_stack V) (replicate 16 0) r1 = (SGX_SUCCESS, k, r2)"
    using iv by (auto simp: sgx_seal_data_iv_def split: prod.splits if_splits)
  have ok: "env_ok V" and E: "length (E j b) = 16" for j b using env by (auto simp: seal_env_def ipp_gcm_ok_def)
  have r2: "r2 = r1" by (rule get_key_success(2) [OF key ok])
  have runs: "gcm_runs G m n" by (rule seal_data_iv_runs [OF env key iv])
  have wf: "wf_key_request kr"
    using env read_rand_success [OF rand] by (simp add: kr_def seal_env_def wf_seal_key_request)
  have inputs: "rd ?mem (unat p_add) (unat m) = rd mem (unat p_add) (unat m)" "rd ?mem (unat p_txt) (unat n) = rd mem (unat p_txt) (unat n)"
    using sz by (simp_all add: clear_def rd_wr_inside [OF sep(1)] rd_wr_inside [OF sep(2)])
  define aad ct where "aad = rd mem (unat p_add) (unat m)" and "ct = gcm_crypt (E k) seal_iv (rd mem (unat p_txt) (unat n))"
  note w = seal_data_iv_writes [OF env runs key [unfolded r2] fits args sep(1) refl refl, of ?mem, unfolded inputs, folded aad_def, folded ct_def]
  have lens: "length ct = unat n" "length aad = unat m" "length (gcm_tag (E k) seal_iv aad ct) = 16"
    using E by (simp_all add: aad_def ct_def length_gcm_crypt length_gcm_tag)
  have "holds_blob mem' (unat p) kr (gcm_tag (E k) seal_iv aad ct) ct aad"
    unfolding mem' using trans [OF iv [symmetric] w] written_blob [OF lens wf, of ?mem "unat p"] by simp
  moreover have "r' = r1" using iv w by simp
  ultimately show thesis using that key wf runs by (simp add: r2 aad_def ct_def)
qed

section \<open>What unsealing does with a blob\<close>

text \<open>Clearing the caller's buffers leaves the blob alone.\<close>

abbreviation cleared :: "memory \<Rightarrow> u64 \<Rightarrow> u32 \<Rightarrow> u64 \<Rightarrow> u32 \<Rightarrow> memory" where
  "cleared mem p_add m p_txt n \<equiv> wr (wr mem (unat p_txt) (replicate (unat n) 0)) (unat p_add) (replicate (unat m) 0)"

lemma rd_blob_cleared:
  assumes sep: "apart (a, 560 + unat m + unat n) (unat p_add, unat m)" "apart (a, 560 + unat m + unat n) (unat p_txt, unat n)"
    and "i + l \<le> 560 + unat m + unat n"
  shows "rd (cleared mem p_add m p_txt n) (a + i) l = rd mem (a + i) l"
proof -
  have "apart (a + i, l) (unat p_add, unat m)" "apart (a + i, l) (unat p_txt, unat n)" using assms by auto
  then show ?thesis by (simp add: rd_wr_apart del: apart.simps)
qed

lemma decode_cleared:
  assumes "apart (a, 560 + unat m + unat n) (unat p_add, unat m)" "apart (a, 560 + unat m + unat n) (unat p_txt, unat n)"
  shows "decode_key_request (cleared mem p_add m p_txt n) a = decode_key_request mem a"
  using rd_blob_cleared [OF assms, of 0] rd_blob_cleared [OF assms]
  by (simp add: decode_key_request_def rd_word_def SGX_KEY_REQUEST_RESERVED2_BYTES_def del: add_2_eq_Suc')

lemma unseal_helper_result:
  assumes env: "seal_env V G E" and runs: "gcm_runs G m n"
    and p: "p \<noteq> 0" "sgx_is_within_enclave (env_range V) p 512"
    and key: "sgx_get_key V p (decode_key_request mem (unat p)) (env_stack V) (replicate 16 0) r = (SGX_SUCCESS, k, r)"
    and fits: "unat p + (560 + unat m + unat n) \<le> 2 ^ 64" "0 < unat m + unat n"
    and args: "n > 0 \<longrightarrow> p_txt \<noteq> 0"
    and sep: "apart (unat p, 560 + unat m + unat n) (unat p_add, unat m)" "apart (unat p, 560 + unat m + unat n) (unat p_txt, unat n)"
    and aad: "aad = rd mem (unat p + 560 + unat n) (unat m)" and ct: "ct = rd mem (unat p + 560) (unat n)"
    and mem1: "mem1 = cleared mem p_add m p_txt n"
    and mem2: "mem2 = wr mem1 (unat p_txt) (gcm_crypt (E k) seal_iv ct)"
  shows "sgx_unseal_data_helper V G p p_add m p_txt n mem r
    = (if rd mem (unat p + 544) 16 = gcm_tag (E k) seal_iv aad ct then (SGX_SUCCESS, wr mem2 (unat p_add) aad, r)
       else (SGX_ERROR_MAC_MISMATCH, clear p_txt n mem2, r))"
proof -
  note ptr = blob_pointers [OF fits]
  have ok: "ipp_gcm_ok G E" and k: "length k = 16" and E: "length (E j b) = 16" for j b
    using env get_key_success(1) [OF key] by (auto simp: seal_env_def ipp_gcm_ok_def dest: spec [of _ "decode_key_request mem (unat p)"])
  have in1: "rd mem1 (unat p + i) l = rd mem (unat p + i) l" if "i + l \<le> 560 + unat m + unat n" for i l
    unfolding mem1 by (rule rd_blob_cleared [OF sep that])
  have in2: "rd mem2 (unat p + i) l = rd mem (unat p + i) l" if "i + l \<le> 560 + unat m + unat n" for i l
  proof -
    have "apart (unat p + i, l) (unat p_txt, unat n)" using sep(2) that by auto
    then show ?thesis using in1 [OF that] E by (simp add: mem2 ct rd_wr_apart length_gcm_crypt del: apart.simps)
  qed
  have key1: "sgx_get_key V p (decode_key_request mem1 (unat p)) (env_stack V) (replicate 16 0) r = (SGX_SUCCESS, k, r)"
    unfolding mem1 decode_cleared [OF sep] by (rule key)
  have pa: "p + payload_at + ucast n \<noteq> 0" if "m > 0"
    using ptr(3) that by (auto simp: word_less_nat_alt)
  have good: "\<not> gcm_bad_parameters (Some k) (p + payload_at) n p_txt (Some seal_iv) SGX_SEAL_IV_SIZE (p + payload_at + ucast n) m
      (p + payload_tag_at = 0)"
    using args ptr(4,5) pa by (auto simp: gcm_bad_parameters_def SGX_SEAL_IV_SIZE_def SGX_AESGCM_IV_SIZE_def)
  have reads: "rd mem1 (unat (p + payload_at)) (unat n) = ct" "rd mem1 (unat (p + payload_at + ucast n)) (unat m) = aad"
      "rd mem2 (unat (p + payload_tag_at)) 16 = rd mem (unat p + 544) 16" "rd mem2 (unat (p + payload_at + ucast n)) (unat m) = aad"
    using in1 [of 560 "unat n"] in1 [of "560 + unat n" "unat m"] in2 [of 544 16] in2 [of "560 + unat n" "unat m"]
    by (simp_all add: ptr(1,2) rd_aad [OF fits] ct aad flip: add.assoc)
  note dec = decrypt_ok [OF ok k _ runs good refl, of mem1, unfolded reads(1,2), folded mem2, unfolded reads(3)]
  have aad0: "m = 0 \<Longrightarrow> aad = []" by (simp add: aad)
  show ?thesis
    unfolding sgx_unseal_data_helper_def Let_def if_clear mem1 [symmetric] key1 prod.case
    using dec reads(4) aad0 by (auto simp: word_gt_0)
qed

lemma unseal_helper_no_key:
  assumes "fst (sgx_get_key V p (decode_key_request mem (unat p)) (env_stack V) (replicate 16 0) r) \<noteq> SGX_SUCCESS"
    and sep: "apart (unat p, 560 + unat m + unat n) (unat p_add, unat m)" "apart (unat p, 560 + unat m + unat n) (unat p_txt, unat n)"
    and "sgx_unseal_data_helper V G p p_add m p_txt n mem r = (st, mem', r')"
  shows "st \<noteq> SGX_SUCCESS \<and> mem' = cleared mem p_add m p_txt n"
  using assms(1,4) unfolding sgx_unseal_data_helper_def Let_def if_clear decode_cleared [OF sep]
  by (auto split: prod.splits if_splits)

lemma unseal_helper_refused:
  assumes env: "seal_env V G E" and runs: "\<not> gcm_runs G m n"
    and key: "sgx_get_key V p (decode_key_request mem (unat p)) (env_stack V) (replicate 16 0) r = (SGX_SUCCESS, k, r)"
    and sep: "apart (unat p, 560 + unat m + unat n) (unat p_add, unat m)" "apart (unat p, 560 + unat m + unat n) (unat p_txt, unat n)"
    and un: "sgx_unseal_data_helper V G p p_add m p_txt n mem r = (st, mem', r')"
  shows "st \<noteq> SGX_SUCCESS \<and> mem' = cleared mem p_add m p_txt n"
proof -
  have ok: "ipp_gcm_ok G E" "length k = 16"
    using env get_key_success(1) [OF key] by (auto simp: seal_env_def dest: spec [of _ "decode_key_request mem (unat p)"])
  obtain e where "e \<noteq> SGX_SUCCESS" "sgx_rijndael128GCM_decrypt G (Some k) (p + payload_at) n p_txt (Some seal_iv) SGX_SEAL_IV_SIZE
      (p + payload_at + ucast n) m (p + payload_tag_at) (cleared mem p_add m p_txt n) = (e, cleared mem p_add m p_txt n)"
    using crypt_refused(2) [OF ok length_replicate runs] refused_not_success by blast
  then show ?thesis
    using un unfolding sgx_unseal_data_helper_def Let_def if_clear decode_cleared [OF sep] key by simp
qed

lemma within_prefix:
  "wf_enclave g \<Longrightarrow> sgx_is_within_enclave g p k \<Longrightarrow> j \<le> k \<Longrightarrow> 0 < j \<Longrightarrow> sgx_is_within_enclave g p j"
  by (auto simp: enclave_nat word_le_nat_alt word_less_nat_alt)

lemma within_blob:
  assumes "wf_enclave g" "sgx_calc_sealed_data_size m n \<noteq> UINT32_MAX"
    and "sgx_is_within_enclave g p (ucast (sgx_calc_sealed_data_size m n))"
  shows "sgx_is_within_enclave g p 512" "sgx_is_within_enclave g p 560" "unat p + (560 + unat m + unat n) \<le> 2 ^ 64"
proof -
  let ?s = "ucast (sgx_calc_sealed_data_size m n) :: u64"
  have s: "unat ?s = 560 + unat m + unat n"
    using sealed_size_unat [OF assms(2)] unat_less_exp [of "sgx_calc_sealed_data_size m n"]
    by (simp add: unsigned_ucast_eq take_bit_eq_mod)
  then have "512 \<le> ?s" "560 \<le> ?s" by (simp_all add: word_le_nat_alt)
  then show "sgx_is_within_enclave g p 512" "sgx_is_within_enclave g p 560"
    using within_prefix [OF assms(1,3)] by simp_all
  show "unat p + (560 + unat m + unat n) \<le> 2 ^ 64" using assms(1,3) s by (simp add: enclave_nat)
qed

text \<open>The checks of the caller's buffers in \<^verbatim>\<open>sgx_unseal_data\<close>, for a blob with texts of these lengths.\<close>

definition unseal_args :: "enclave_range_t \<Rightarrow> memory \<Rightarrow> u32 \<Rightarrow> u32 \<Rightarrow> u64 \<Rightarrow> u64 \<Rightarrow> u64 \<Rightarrow> u64 \<Rightarrow> bool" where
  "unseal_args g mem m n p_add p_add_length p_txt p_txt_length \<longleftrightarrow>
     n > 0 \<and> p_txt \<noteq> 0 \<and> p_txt_length \<noteq> 0 \<and> sgx_is_within_enclave g p_txt_length 4
     \<and> n \<le> rd_word mem (unat p_txt_length) 4 \<and> sgx_is_within_enclave g p_txt (ucast (rd_word mem (unat p_txt_length) 4 :: u32))
     \<and> (p_add_length \<noteq> 0 \<longrightarrow> sgx_is_within_enclave g p_add_length 4 \<or> sgx_is_outside_enclave g p_add_length 4)
     \<and> (m > 0 \<longrightarrow> p_add \<noteq> 0 \<and> p_add_length \<noteq> 0 \<and> m \<le> rd_word mem (unat p_add_length) 4
          \<and> (sgx_is_within_enclave g p_add (ucast (rd_word mem (unat p_add_length) 4 :: u32))
             \<or> sgx_is_outside_enclave g p_add (ucast (rd_word mem (unat p_add_length) 4 :: u32))))"

text \<open>The results that a successful call leaves in the caller's length variables.\<close>

definition store_lengths :: "u32 \<Rightarrow> u32 \<Rightarrow> u64 \<Rightarrow> u64 \<Rightarrow> memory \<Rightarrow> memory" where
  "store_lengths m n p_add_length p_txt_length mem =
     (let mem = wr mem (unat p_txt_length) (le_bytes 4 n) in
      if p_add_length \<noteq> 0 then wr mem (unat p_add_length) (le_bytes 4 m) else mem)"

lemma unseal_data_accepted:
  assumes "sgx_get_encrypt_txt_len mem p = n" "sgx_get_add_mac_txt_len mem p = m"
    and "p \<noteq> 0" "n \<noteq> UINT32_MAX" "m \<noteq> UINT32_MAX" "sgx_calc_sealed_data_size m n \<noteq> UINT32_MAX" "wf_enclave (env_range V)"
    and "sgx_is_within_enclave (env_range V) p (ucast (sgx_calc_sealed_data_size m n))"
    and "unseal_args (env_range V) mem m n p_add p_add_length p_txt p_txt_length"
  shows "sgx_unseal_data V G p p_add p_add_length p_txt p_txt_length mem r
    = (case sgx_unseal_data_helper V G p p_add m p_txt n mem r of (err, mem, r) \<Rightarrow>
         (err, if err = SGX_SUCCESS then store_lengths m n p_add_length p_txt_length mem else mem, r))"
proof -
  have "sgx_is_within_enclave (env_range V) p (ucast sizeof_sealed_data)"
    using within_blob(2) [OF assms(7,6,8)] by (simp add: sizeof_sealed_data_def)
  moreover have "\<not> n < 1" using assms(9) by (simp add: unseal_args_def word_less_nat_alt)
  ultimately show ?thesis
    using assms(3-6,8,9) unfolding sgx_unseal_data_def Let_def assms(1,2) unseal_args_def store_lengths_def
    by (cases "m = 0") (auto simp: not_less)
qed

section \<open>The round trip\<close>

lemma seal_data_ex_blob:
  assumes env: "seal_env V G E"
    and seal: "sgx_seal_data_ex V G kp am mm m p_add n p_txt sz p mem r = (SGX_SUCCESS, mem', r')"
    and sep: "apart (unat p, unat sz) (unat p_add, unat m)" "apart (unat p, unat sz) (unat p_txt, unat n)"
  obtains kr k ct where "sgx_get_key V (env_stack V) kr (env_stack V) (replicate 16 0) r' = (SGX_SUCCESS, k, r')"
    and "wf_key_request kr" "gcm_runs G m n" "ct = gcm_crypt (E k) seal_iv (rd mem (unat p_txt) (unat n))"
    and "holds_blob mem' (unat p) kr (gcm_tag (E k) seal_iv (rd mem (unat p_add) (unat m)) ct) ct (rd mem (unat p_add) (unat m))"
    and "sz = sgx_calc_sealed_data_size m n" "sz \<noteq> UINT32_MAX" "n > 0"
proof -
  have c: "sgx_calc_sealed_data_size m n \<noteq> UINT32_MAX" "sz = sgx_calc_sealed_data_size m n" "n \<noteq> 0" "p_txt \<noteq> 0"
      "m > 0 \<longrightarrow> p_add \<noteq> 0" "sgx_is_within_enclave (env_range V) p (ucast sz)"
      "seal_checked V G kp am mm m p_add n p_txt sz p mem r = (SGX_SUCCESS, mem', r')"
    using seal by (auto simp: sgx_seal_data_ex_def Let_def split: if_splits)
  have wf: "wf_enclave (env_range V)" using env by (simp add: seal_env_def)
  have len: "unat sz = 560 + unat m + unat n" using sealed_size_unat [OF c(1)] c(2) by simp
  have fits: "unat p + (560 + unat m + unat n) \<le> 2 ^ 64" using within_blob(3) [OF wf c(1)] c(2,6) by simp
  have pos: "0 < unat m + unat n" "n > 0" "n > 0 \<longrightarrow> p_txt \<noteq> 0" using c(3,4) by (auto simp: unat_gt_0 word_gt_0)
  show thesis
    by (rule seal_checked_blob [OF env c(7) len fits pos(1,3) c(5) sep [unfolded len]]) (use that c(1,2) pos(2) in blast)
qed

text \<open>Reading the results of a successful call back.\<close>

lemma stored_results:
  fixes m n :: u32
  assumes "all_apart [(T, unat n), (A, unat m), (unat p_txt_length, 4), (unat p_add_length, if p_add_length = 0 then 0 else 4)]"
    and "length pt = unat n" "length aad = unat m"
    and "mem' = store_lengths m n p_add_length p_txt_length (wr (wr mem T pt) A aad)"
  shows "rd mem' T (unat n) = pt" "rd mem' A (unat m) = aad" "rd_word mem' (unat p_txt_length) 4 = n"
    and "p_add_length \<noteq> 0 \<longrightarrow> rd_word mem' (unat p_add_length) 4 = m"
  using assms by (auto simp: store_lengths_def Let_def rd_wr_apart rd_word_wr_apart rd_word_wr_same simp del: apart.simps)

lemma unseal_blob:
  assumes env: "seal_env V G E" and runs: "gcm_runs G m n" and blob: "holds_blob mem (unat q) kr (gcm_tag (E k) seal_iv aad ct) ct aad" and kr: "wf_key_request kr"
    and key: "sgx_get_key V a kr (env_stack V) (replicate 16 0) r1 = (SGX_SUCCESS, k, r1)"
    and len: "length ct = unat n" "length aad = unat m" and sz: "sgx_calc_sealed_data_size m n \<noteq> UINT32_MAX"
    and q: "q \<noteq> 0" "sgx_is_within_enclave (env_range V) q (ucast (sgx_calc_sealed_data_size m n))"
    and args: "unseal_args (env_range V) mem m n q_add q_add_length q_txt q_txt_length"
    and sep: "apart (unat q, 560 + unat m + unat n) (unat q_add, unat m)" "apart (unat q, 560 + unat m + unat n) (unat q_txt, unat n)"
  obtains mem' where "sgx_unseal_data V G q q_add q_add_length q_txt q_txt_length mem r
    = (SGX_SUCCESS, store_lengths m n q_add_length q_txt_length (wr (wr mem' (unat q_txt) (gcm_crypt (E k) seal_iv ct)) (unat q_add) aad), r)"
proof -
  have ok: "env_ok V" and wf: "wf_enclave (env_range V)" using env by (auto simp: seal_env_def)
  have small: "560 + length aad + length ct < 2 ^ 32 - 1" using sz len by (auto simp: calc_sealed_size split: if_splits)
  have nm: "sgx_get_encrypt_txt_len mem q = n" "sgx_get_add_mac_txt_len mem q = m"
    using holds_blob_lengths [OF blob q(1) small] len by simp_all
  have ne: "n \<noteq> UINT32_MAX" "m \<noteq> UINT32_MAX" using small len by (auto simp: UINT32_MAX_def)
  note in_q = within_blob [OF wf sz q(2)]
  have "decode_key_request mem (unat q) = kr" using blob kr by (simp add: holds_blob_def decode_key_request_bytes)
  then have key': "sgx_get_key V q (decode_key_request mem (unat q)) (env_stack V) (replicate 16 0) r = (SGX_SUCCESS, k, r)"
    using get_key_success(3) [OF key ok q(1) in_q(1)] by simp
  have pos: "0 < unat m + unat n" "n > 0 \<longrightarrow> q_txt \<noteq> 0" using args by (auto simp: word_less_nat_alt unseal_args_def)
  have reads: "rd mem (unat q + 560) (unat n) = ct" "rd mem (unat q + 560 + unat n) (unat m) = aad"
      "rd mem (unat q + 544) 16 = gcm_tag (E k) seal_iv aad ct"
    using blob len by (simp_all add: holds_blob_def)
  show thesis
    by (rule that, subst unseal_data_accepted [OF nm q(1) ne sz wf q(2) args],
        subst unseal_helper_result [OF env runs q(1) in_q(1) key' in_q(3) pos sep refl refl refl refl]) (simp add: reads)
qed

text \<open>
  C12: data that was sealed can be unsealed. After a successful \<^verbatim>\<open>sgx_seal_data_ex\<close>, every copy of the blob, in
  whatever memory and wherever it lies in the enclave, is accepted by \<^verbatim>\<open>sgx_unseal_data\<close> when the caller's buffers
  are large enough, and the call returns the text, the additional text and their lengths. The buffers
  of a call do not overlap, and both calls have the same environment, the memory for the cipher state included.
\<close>

theorem seal_unseal_roundtrip:
  assumes env: "seal_env V G E"
    and seal: "sgx_seal_data_ex V G kp am mm m p_add n p_txt sz p mem r = (SGX_SUCCESS, mem1, r1)"
    and sep: "apart (unat p, unat sz) (unat p_add, unat m)" "apart (unat p, unat sz) (unat p_txt, unat n)"
    and copy: "rd mem2 (unat q) (unat sz) = rd mem1 (unat p) (unat sz)" "q \<noteq> 0" "sgx_is_within_enclave (env_range V) q (ucast sz)"
    and args: "unseal_args (env_range V) mem2 m n q_add q_add_length q_txt q_txt_length"
    and bufs: "all_apart [(unat q, unat sz), (unat q_txt, unat n), (unat q_add, unat m), (unat q_txt_length, 4),
      (unat q_add_length, if q_add_length = 0 then 0 else 4)]"
  shows "\<exists>mem3. sgx_unseal_data V G q q_add q_add_length q_txt q_txt_length mem2 r2 = (SGX_SUCCESS, mem3, r2)
    \<and> rd mem3 (unat q_txt) (unat n) = rd mem (unat p_txt) (unat n) \<and> rd mem3 (unat q_add) (unat m) = rd mem (unat p_add) (unat m)
    \<and> rd_word mem3 (unat q_txt_length) 4 = n \<and> (q_add_length \<noteq> 0 \<longrightarrow> rd_word mem3 (unat q_add_length) 4 = m)"
proof -
  define aad where "aad = rd mem (unat p_add) (unat m)"
  obtain kr k ct where key: "sgx_get_key V (env_stack V) kr (env_stack V) (replicate 16 0) r1 = (SGX_SUCCESS, k, r1)"
      and kr: "wf_key_request kr" and runs: "gcm_runs G m n" and ct: "ct = gcm_crypt (E k) seal_iv (rd mem (unat p_txt) (unat n))"
      and blob: "holds_blob mem1 (unat p) kr (gcm_tag (E k) seal_iv aad ct) ct aad"
      and sz: "sz = sgx_calc_sealed_data_size m n" "sz \<noteq> UINT32_MAX"
    by (rule seal_data_ex_blob [OF env seal sep, folded aad_def])
  have E: "length (E j b) = 16" for j b using env by (auto simp: seal_env_def ipp_gcm_ok_def)
  have len: "length ct = unat n" "length aad = unat m" "unat sz = 560 + unat m + unat n"
    using sealed_size_unat sz E by (auto simp: ct aad_def length_gcm_crypt)
  have blob2: "holds_blob mem2 (unat q) kr (gcm_tag (E k) seal_iv aad ct) ct aad"
    using holds_blob_copy [OF blob] copy(1) len by simp
  have sep': "apart (unat q, 560 + unat m + unat n) (unat q_add, unat m)" "apart (unat q, 560 + unat m + unat n) (unat q_txt, unat n)"
    using bufs by (simp_all add: len del: apart.simps)
  obtain mem' where u: "sgx_unseal_data V G q q_add q_add_length q_txt q_txt_length mem2 r2
      = (SGX_SUCCESS, store_lengths m n q_add_length q_txt_length (wr (wr mem' (unat q_txt) (gcm_crypt (E k) seal_iv ct)) (unat q_add) aad), r2)"
    by (rule unseal_blob [OF env runs blob2 kr key len(1,2) sz(2) [unfolded sz(1)] copy(2) copy(3) [unfolded sz(1)] args sep'])
  have pt: "gcm_crypt (E k) seal_iv ct = rd mem (unat p_txt) (unat n)" using E by (simp add: ct gcm_crypt_twice)
  have "all_apart [(unat q_txt, unat n), (unat q_add, unat m), (unat q_txt_length, 4), (unat q_add_length, if q_add_length = 0 then 0 else 4)]"
    using bufs by simp
  note res = stored_results [OF this length_rd [of mem "unat p_txt"] len(2) refl, of mem']
  show ?thesis unfolding u pt using res by (auto simp: aad_def)
qed

section \<open>When sealing succeeds\<close>

definition seal_args ::
  "enclave_range_t \<Rightarrow> u16 \<Rightarrow> sgx_attributes_t \<Rightarrow> u32 \<Rightarrow> u64 \<Rightarrow> u32 \<Rightarrow> u64 \<Rightarrow> u32 \<Rightarrow> u64 \<Rightarrow> bool" where
  "seal_args g kp am m p_add n p_txt sz p \<longleftrightarrow>
     sz = sgx_calc_sealed_data_size m n \<and> sz \<noteq> UINT32_MAX \<and> \<not> bad_key_policy kp \<and> \<not> bad_attribute_mask am
     \<and> n > 0 \<and> p_txt \<noteq> 0 \<and> sgx_is_within_enclave g p_txt (ucast n) \<and> p \<noteq> 0 \<and> sgx_is_within_enclave g p (ucast sz)
     \<and> (m > 0 \<longrightarrow> p_add \<noteq> 0 \<and> (sgx_is_within_enclave g p_add (ucast m) \<or> sgx_is_outside_enclave g p_add (ucast m)))"

lemma seal_data_ex_args:
  "sgx_seal_data_ex V G kp am mm m p_add n p_txt sz p mem r =
     (if seal_args (env_range V) kp am m p_add n p_txt sz p
      then seal_checked V G kp am mm m p_add n p_txt sz p mem r else (SGX_ERROR_INVALID_PARAMETER, mem, r))"
  by (auto simp: sgx_seal_data_ex_def seal_args_def Let_def word_gt_0)

lemma seal_key_request_ok:
  assumes "kp AND NOT (SGX_KEYPOLICY_MRENCLAVE OR SGX_KEYPOLICY_MRSIGNER OR KEY_POLICY_KSS) = 0"
    and "attr_flags (rb_attributes (rp_body (sgx_self_report V))) AND SGX_FLAGS_KSS = 0
      \<longrightarrow> kp AND KEY_POLICY_KSS = 0 \<and> rb_config_svn (rp_body (sgx_self_report V)) = 0"
  shows "request_ok V (seal_key_request V kp am mm keyID)"
  using assms by (auto simp: request_ok_def seal_key_request_def zero_key_request_def Let_def)

lemma seal_checked_succeeds:
  assumes env: "seal_env V G E" and runs: "gcm_runs G m n"
    and rand: "sgx_read_rand (env_range V) (env_rdrand V) (env_stack V) 32 r = (SGX_SUCCESS, keyID, r1)"
    and req: "request_ok V (seal_key_request V kp am mm keyID)"
    and key: "fst (env_egetkey V (seal_key_request V kp am mm keyID)) = EGETKEY_SUCCESS"
    and fits: "unat p + (560 + unat m + unat n) \<le> 2 ^ 64" "0 < unat m + unat n"
    and args: "n > 0 \<longrightarrow> p_txt \<noteq> 0" "m > 0 \<longrightarrow> p_add \<noteq> 0"
    and sep: "apart (unat p, 560 + unat m + unat n) (unat p_add, unat m)"
  shows "\<exists>mem'. seal_checked V G kp am mm m p_add n p_txt sz p mem r = (SGX_SUCCESS, mem', r1)"
proof -
  let ?kr = "seal_key_request V kp am mm keyID"
  have ok: "env_ok V" using env by (simp add: seal_env_def)
  obtain k where "env_egetkey V ?kr = (EGETKEY_SUCCESS, k)" using key by (metis prod.collapse)
  then have "sgx_get_key V (env_stack V) ?kr (env_stack V) (replicate 16 0) r1 = (SGX_SUCCESS, k, r1)"
    using get_key_ok [OF ok req] ok by (simp add: env_ok_def)
  note w = seal_data_iv_writes [OF env runs this fits args sep refl refl]
  show ?thesis by (simp add: seal_checked_def rand Let_def w)
qed

lemma fst_get_key: "fst (sgx_get_key V a kr b key r) = get_key_status V a kr b"
  by (simp add: sgx_get_key_def Let_def split: prod.splits)

lemma noisvprodid_reserved:
  assumes "kp AND SGX_KEYPOLICY_NOISVPRODID \<noteq> 0"
  shows "kp AND NOT (SGX_KEYPOLICY_MRENCLAVE OR SGX_KEYPOLICY_MRSIGNER OR KEY_POLICY_KSS) \<noteq> 0" (is "kp AND ?mask \<noteq> 0")
proof
  assume "kp AND ?mask = 0"
  then have "(kp AND ?mask) AND SGX_KEYPOLICY_NOISVPRODID = 0" by simp
  moreover have "?mask AND SGX_KEYPOLICY_NOISVPRODID = SGX_KEYPOLICY_NOISVPRODID" by (simp add: key_policy_defs)
  ultimately show False using assms by (simp add: and.assoc)
qed

text \<open>
  C28: sealing with the policy bit \<^verbatim>\<open>SGX_KEYPOLICY_NOISVPRODID\<close> never succeeds. The parameter check of
  \<^verbatim>\<open>sgx_seal_data_ex\<close> accepts the bit, but \<^verbatim>\<open>sgx_get_key\<close> takes it for a reserved one: a call that passes the
  checks has cleared the blob when it returns the unexpected error.
\<close>

theorem noisvprodid_never_seals:
  assumes "kp AND SGX_KEYPOLICY_NOISVPRODID \<noteq> 0"
    and "sgx_read_rand (env_range V) (env_rdrand V) (env_stack V) 32 r = (SGX_SUCCESS, keyID, r1)"
  shows "\<exists>r'. sgx_seal_data_ex V G kp am mm m p_add n p_txt sz p mem r =
    (if seal_args (env_range V) kp am m p_add n p_txt sz p then (SGX_ERROR_UNEXPECTED, clear p sz mem, r')
     else (SGX_ERROR_INVALID_PARAMETER, mem, r))"
proof -
  let ?kr = "seal_key_request V kp am mm keyID"
  have "kr_key_policy ?kr = kp" by (simp add: seal_key_request_def Let_def)
  then have "get_key_status V (env_stack V) ?kr (env_stack V) = SGX_ERROR_INVALID_PARAMETER"
    using noisvprodid_reserved [OF assms(1)] by (simp add: get_key_status_def)
  then obtain k r' where "sgx_get_key V (env_stack V) ?kr (env_stack V) (replicate 16 0) r1 = (SGX_ERROR_INVALID_PARAMETER, k, r')"
    using fst_get_key by (metis prod.collapse)
  then have "\<exists>r'. seal_checked V G kp am mm m p_add n p_txt sz p mem r = (SGX_ERROR_UNEXPECTED, clear p sz mem, r')"
    by (simp add: seal_checked_def assms(2) sgx_seal_data_iv_def)
  then show ?thesis by (auto simp: seal_data_ex_args)
qed

section \<open>Nothing but authentic text\<close>

lemma unseal_data_cases:
  assumes "sgx_unseal_data V G p p_add p_add_length p_txt p_txt_length mem r = (st, mem', r')"
    and "n = sgx_get_encrypt_txt_len mem p" "m = sgx_get_add_mac_txt_len mem p"
  obtains "st \<noteq> SGX_SUCCESS" "mem' = mem"
  | mem1 where "p \<noteq> 0" "sgx_calc_sealed_data_size m n \<noteq> UINT32_MAX" "n > 0" "p_txt \<noteq> 0"
      "sgx_is_within_enclave (env_range V) p (ucast (sgx_calc_sealed_data_size m n))"
      "sgx_unseal_data_helper V G p p_add m p_txt n mem r = (st, mem1, r')"
      "mem' = (if st = SGX_SUCCESS then store_lengths m n p_add_length p_txt_length mem1 else mem1)"
  using assms(1) unfolding sgx_unseal_data_def Let_def assms(2,3) [symmetric]
  by (auto simp: store_lengths_def Let_def word_gt_0 split: if_splits prod.splits)

text \<open>
  C13: unsealing releases only authentic text. When \<^verbatim>\<open>sgx_unseal_data\<close> succeeds, the tag of the blob is the one of
  its texts under the key that the processor derives for its key request, and the caller has the
  decrypted text. In every other case the caller's buffer is as it was or has been cleared.
\<close>

theorem unseal_only_authentic:
  assumes env: "seal_env V G E"
    and un: "sgx_unseal_data V G p p_add p_add_length p_txt p_txt_length mem r = (st, mem', r')"
    and n: "n = sgx_get_encrypt_txt_len mem p" and m: "m = sgx_get_add_mac_txt_len mem p"
    and bufs: "all_apart [(unat p, 560 + unat m + unat n), (unat p_txt, unat n), (unat p_add, unat m), (unat p_txt_length, 4),
      (unat p_add_length, if p_add_length = 0 then 0 else 4)]"
    and ct: "ct = rd mem (unat p + 560) (unat n)" and aad: "aad = rd mem (unat p + 560 + unat n) (unat m)"
  shows "if st = SGX_SUCCESS
    then \<exists>k. env_egetkey V (decode_key_request mem (unat p)) = (EGETKEY_SUCCESS, k)
      \<and> rd mem (unat p + 544) 16 = gcm_tag (E k) seal_iv aad ct \<and> rd mem' (unat p_txt) (unat n) = gcm_crypt (E k) seal_iv ct
    else rd mem' (unat p_txt) (unat n) = rd mem (unat p_txt) (unat n) \<or> rd mem' (unat p_txt) (unat n) = replicate (unat n) 0"
  using un n m
proof (cases rule: unseal_data_cases)
  case (2 mem1)
  have sep: "apart (unat p, 560 + unat m + unat n) (unat p_add, unat m)" "apart (unat p, 560 + unat m + unat n) (unat p_txt, unat n)"
    and ta: "apart (unat p_txt, unat n) (unat p_add, unat m)" using bufs by (simp_all del: apart.simps)
  have wf: "wf_enclave (env_range V)" and ok: "env_ok V" and E: "length (E j b) = 16" for j b
    using env by (auto simp: seal_env_def ipp_gcm_ok_def)
  note in_p = within_blob [OF wf 2(2,5)]
  obtain e k r1 where key: "sgx_get_key V p (decode_key_request mem (unat p)) (env_stack V) (replicate 16 0) r = (e, k, r1)"
    by (metis prod.collapse)
  show ?thesis
  proof (cases "e = SGX_SUCCESS")
    case False
    then have "st \<noteq> SGX_SUCCESS \<and> mem1 = cleared mem p_add m p_txt n"
      using unseal_helper_no_key [OF _ sep 2(6)] key by simp
    then show ?thesis using 2(7) ta by (simp add: rd_wr_apart del: apart.simps)
  next
    case True
    have "r1 = r" by (rule get_key_success(2) [OF key [unfolded True] ok])
    note key' = key [unfolded True this]
    have pos: "0 < unat m + unat n" "n > 0 \<longrightarrow> p_txt \<noteq> 0" using 2(3,4) by (auto simp: word_less_nat_alt)
    show ?thesis
    proof (cases "gcm_runs G m n")
      case False
      then have "st \<noteq> SGX_SUCCESS \<and> mem1 = cleared mem p_add m p_txt n"
        by (rule unseal_helper_refused [OF env _ key' sep 2(6)])
      then show ?thesis using 2(7) ta by (simp add: rd_wr_apart del: apart.simps)
    next
      case True
      note h = unseal_helper_result [OF env True 2(1) in_p(1) key' in_p(3) pos sep aad ct refl refl, unfolded 2(6)]
      show ?thesis
      proof (cases "rd mem (unat p + 544) 16 = gcm_tag (E k) seal_iv aad ct")
        case True
        have b: "all_apart [(unat p_txt, unat n), (unat p_add, unat m), (unat p_txt_length, 4),
          (unat p_add_length, if p_add_length = 0 then 0 else 4)]" using bufs by simp
        have "length (gcm_crypt (E k) seal_iv ct) = unat n" "length aad = unat m" using E by (simp_all add: ct aad length_gcm_crypt)
        from stored_results(1) [OF b this refl] show ?thesis
          using h True 2(7) get_key_success(1) [OF key' ok] by simp
      qed (use h 2(7) in \<open>simp add: clear_def\<close>)
    qed
  qed
qed simp

section \<open>Examples\<close>

definition example_E :: "bytes \<Rightarrow> bytes \<Rightarrow> bytes" where "example_E key b = fit16 (xor_bytes key b)"

definition example_mask :: sgx_attributes_t where "example_mask = \<lparr>attr_flags = 3, attr_xfrm = 0\<rparr>"

lemma example_self_report: "sgx_self_report example_sgx_env = zero_report"
  by (simp add: sgx_self_report_def sgx_create_report_def example_sgx_env_def sgx_is_within_enclave_def buffer_end_def example_enclave_def)

lemma example_seal_env: "seal_env example_sgx_env (spec_gcm example_E) example_E"
proof -
  have "length (example_E key b) = 16" for key b by (simp add: example_E_def fit16_def zero_block_def)
  moreover have "length (snd (env_egetkey example_sgx_env kr)) = 16" for kr by (simp add: example_sgx_env_def min_def)
  moreover have "env_range example_sgx_env = example_enclave" by (simp add: example_sgx_env_def)
  ultimately show ?thesis
    using example_sgx_env_ok wf_example_enclave by (simp add: seal_env_def spec_gcm_ok example_self_report zero_report_def)
qed

lemma example_runs: "gcm_runs (spec_gcm E) 2 3"
  by (simp add: gcm_runs_def spec_gcm_def)

lemma read_rand_loop_succeeds: "\<exists>bs. read_rand_loop (Pair (Some w)) n r = (SGX_SUCCESS, bs, r)"
proof (induction n arbitrary: r rule: less_induct)
  case (less n)
  show ?case
  proof (cases n)
    case (Suc j)
    obtain bs where "read_rand_loop (Pair (Some w)) (Suc j - (if j < 3 then Suc j else 4)) r = (SGX_SUCCESS, bs, r)"
      using less [of "Suc j - (if j < 3 then Suc j else 4)" r] Suc by auto
    then show ?thesis by (simp add: Suc Let_def split del: if_split)
  qed simp
qed

lemma example_rand:
  "\<exists>keyID. sgx_read_rand (env_range example_sgx_env) (env_rdrand example_sgx_env) (env_stack example_sgx_env) 32 () = (SGX_SUCCESS, keyID, ())"
  using read_rand_loop_succeeds [of 7 32 "()"]
  by (simp add: example_sgx_env_def sgx_read_rand_def sgx_is_within_enclave_def buffer_end_def example_enclave_def)

lemma example_range: "env_range example_sgx_env = example_enclave" by (simp add: example_sgx_env_def)

lemmas example_check = example_range sgx_is_within_enclave_def buffer_end_def example_enclave_def

lemma example_seal_args:
  "kp \<in> {SGX_KEYPOLICY_MRSIGNER, SGX_KEYPOLICY_MRSIGNER OR SGX_KEYPOLICY_NOISVPRODID}
    \<Longrightarrow> seal_args (env_range example_sgx_env) kp example_mask 2 0x10110 3 0x10100 565 0x10200"
  by (auto simp: seal_args_def bad_key_policy_def bad_attribute_mask_def example_mask_def key_policy_defs calc_sealed_size UINT32_MAX_def
      SGX_FLAGS_INITTED_def SGX_FLAGS_DEBUG_def example_check)

theorem noisvprodid_never_seals_witness:
  "\<not> bad_key_policy (SGX_KEYPOLICY_MRSIGNER OR SGX_KEYPOLICY_NOISVPRODID)
   \<and> sgx_seal_data_ex example_sgx_env (spec_gcm example_E) (SGX_KEYPOLICY_MRSIGNER OR SGX_KEYPOLICY_NOISVPRODID) example_mask 0
        2 0x10110 3 0x10100 565 0x10200 (\<lambda>_. 1) () = (SGX_ERROR_UNEXPECTED, clear 0x10200 565 (\<lambda>_. 1), ())"
proof -
  have bit: "(SGX_KEYPOLICY_MRSIGNER OR SGX_KEYPOLICY_NOISVPRODID) AND SGX_KEYPOLICY_NOISVPRODID \<noteq> 0" by (simp add: key_policy_defs)
  obtain keyID where rand: "sgx_read_rand (env_range example_sgx_env) (env_rdrand example_sgx_env) (env_stack example_sgx_env) 32 ()
      = (SGX_SUCCESS, keyID, ())" using example_rand by blast
  show ?thesis
    using noisvprodid_never_seals [OF bit rand, of "spec_gcm example_E" example_mask 0 2 "0x10110" 3 "0x10100" 565 "0x10200" "\<lambda>_. 1"]
      example_seal_args
    by (simp add: bad_key_policy_def key_policy_defs)
qed

text \<open>The caller's length variables, set before the blob is unsealed.\<close>

definition set_lengths :: "memory \<Rightarrow> memory" where
  "set_lengths mem = wr (wr mem 0x10180 (le_bytes 4 (3 :: u32))) 0x10190 (le_bytes 4 (2 :: u32))"

definition example_memory :: memory where "example_memory = wr (wr (\<lambda>_. 0) 0x10100 [1, 2, 3]) 0x10110 [7, 8]"

lemma set_lengths_words:
  "rd_word (set_lengths mem) 0x10180 4 = (3 :: u32)" "rd_word (set_lengths mem) 0x10190 4 = (2 :: u32)"
  "rd (set_lengths mem) 0x10200 k = rd mem 0x10200 k"
  by (simp_all add: set_lengths_def rd_word_wr_apart rd_word_wr_same rd_wr_apart)

lemma example_unseal_args: "unseal_args (env_range example_sgx_env) (set_lengths mem) 2 3 0x10610 0x10190 0x10600 0x10180"
  by (simp add: unseal_args_def set_lengths_words example_check)

lemma example_seals:
  "\<exists>mem. sgx_seal_data_ex example_sgx_env (spec_gcm example_E) SGX_KEYPOLICY_MRSIGNER example_mask 0 2 0x10110 3 0x10100 565 0x10200
     example_memory () = (SGX_SUCCESS, mem, ())"
proof -
  obtain keyID where rand: "sgx_read_rand (env_range example_sgx_env) (env_rdrand example_sgx_env) (env_stack example_sgx_env) 32 ()
      = (SGX_SUCCESS, keyID, ())" using example_rand by blast
  have req: "request_ok example_sgx_env (seal_key_request example_sgx_env SGX_KEYPOLICY_MRSIGNER example_mask 0 keyID)"
    by (rule seal_key_request_ok) (simp_all add: example_self_report zero_report_def key_policy_defs)
  have key: "fst (env_egetkey example_sgx_env kr) = EGETKEY_SUCCESS" for kr by (simp add: example_sgx_env_def)
  show ?thesis
    using seal_checked_succeeds [OF example_seal_env example_runs rand req key, of "0x10200" "0x10100" "0x10110"] example_seal_args
    by (simp add: seal_data_ex_args)
qed

theorem seal_unseal_roundtrip_witness:
  "\<exists>mem1 mem3. sgx_seal_data_ex example_sgx_env (spec_gcm example_E) SGX_KEYPOLICY_MRSIGNER example_mask 0 2 0x10110 3 0x10100 565 0x10200
     example_memory () = (SGX_SUCCESS, mem1, ())
   \<and> sgx_unseal_data example_sgx_env (spec_gcm example_E) 0x10200 0x10610 0x10190 0x10600 0x10180 (set_lengths mem1) ()
       = (SGX_SUCCESS, mem3, ())
   \<and> rd mem3 0x10600 3 = [1, 2, 3] \<and> rd mem3 0x10610 2 = [7, 8]"
proof -
  obtain mem1 where seal: "sgx_seal_data_ex example_sgx_env (spec_gcm example_E) SGX_KEYPOLICY_MRSIGNER example_mask 0 2 0x10110 3 0x10100 565
      0x10200 example_memory () = (SGX_SUCCESS, mem1, ())" using example_seals by blast
  have texts: "rd example_memory 0x10100 3 = [1, 2, 3]" "rd example_memory 0x10110 2 = [7, 8]"
    by (simp_all add: example_memory_def rd_wr_apart)
  have "\<exists>mem3. sgx_unseal_data example_sgx_env (spec_gcm example_E) 0x10200 0x10610 0x10190 0x10600 0x10180 (set_lengths mem1) ()
       = (SGX_SUCCESS, mem3, ()) \<and> rd mem3 0x10600 3 = [1, 2, 3] \<and> rd mem3 0x10610 2 = [7, 8]"
    using seal_unseal_roundtrip [where q = "0x10200" and ?mem2.0 = "set_lengths mem1" and ?r2.0 = "()",
        OF example_seal_env seal _ _ _ _ _ example_unseal_args] texts
    by (auto simp: set_lengths_words example_check)
  with seal show ?thesis by blast
qed

lemma example_unseals:
  "\<exists>mem mem' r. sgx_unseal_data example_sgx_env (spec_gcm example_E) 0x10200 0x10610 0x10190 0x10600 0x10180 mem ()
     = (SGX_SUCCESS, mem', r) \<and> sgx_get_encrypt_txt_len mem 0x10200 = 3 \<and> sgx_get_add_mac_txt_len mem 0x10200 = 2"
proof -
  obtain mem1 where seal: "sgx_seal_data_ex example_sgx_env (spec_gcm example_E) SGX_KEYPOLICY_MRSIGNER example_mask 0 2 0x10110 3 0x10100 565
      0x10200 example_memory () = (SGX_SUCCESS, mem1, ())" using example_seals by blast
  define aad where "aad = rd example_memory (unat (0x10110 :: u64)) (unat (2 :: u32))"
  obtain kr k ct where key: "sgx_get_key example_sgx_env (env_stack example_sgx_env) kr (env_stack example_sgx_env) (replicate 16 0) ()
        = (SGX_SUCCESS, k, ())" and kr: "wf_key_request kr"
      and ct: "ct = gcm_crypt (example_E k) seal_iv (rd example_memory (unat (0x10100 :: u64)) (unat (3 :: u32)))"
      and blob: "holds_blob mem1 (unat (0x10200 :: u64)) kr (gcm_tag (example_E k) seal_iv aad ct) ct aad"
    by (rule seal_data_ex_blob [OF example_seal_env seal, folded aad_def]) auto
  have len: "length ct = unat (3 :: u32)" "length aad = unat (2 :: u32)"
    using example_seal_env by (simp_all add: ct aad_def length_gcm_crypt seal_env_def ipp_gcm_ok_def)
  have blob2: "holds_blob (set_lengths mem1) (unat (0x10200 :: u64)) kr (gcm_tag (example_E k) seal_iv aad ct) ct aad"
    by (rule holds_blob_copy [OF blob]) (simp add: set_lengths_words)
  have "sgx_get_encrypt_txt_len (set_lengths mem1) 0x10200 = 3" "sgx_get_add_mac_txt_len (set_lengths mem1) 0x10200 = 2"
    using holds_blob_lengths [OF blob2] len by simp_all
  moreover have "\<exists>mem'. sgx_unseal_data example_sgx_env (spec_gcm example_E) 0x10200 0x10610 0x10190 0x10600 0x10180 (set_lengths mem1) ()
      = (SGX_SUCCESS, mem', ())"
    by (rule unseal_blob [OF example_seal_env example_runs blob2 kr key len _ _ _ example_unseal_args])
      (auto simp: calc_sealed_size UINT32_MAX_def example_check)
  ultimately show ?thesis by blast
qed

theorem unseal_only_authentic_witness:
  "\<exists>mem mem' k. sgx_unseal_data example_sgx_env (spec_gcm example_E) 0x10200 0x10610 0x10190 0x10600 0x10180 mem ()
     = (SGX_SUCCESS, mem', ())
   \<and> rd mem 0x10420 16 = gcm_tag (example_E k) seal_iv (rd mem 0x10433 2) (rd mem 0x10430 3)
   \<and> rd mem' 0x10600 3 = gcm_crypt (example_E k) seal_iv (rd mem 0x10430 3)"
proof -
  obtain mem mem' r where u: "sgx_unseal_data example_sgx_env (spec_gcm example_E) 0x10200 0x10610 0x10190 0x10600 0x10180 mem ()
      = (SGX_SUCCESS, mem', r)" and l: "sgx_get_encrypt_txt_len mem 0x10200 = 3" "sgx_get_add_mac_txt_len mem 0x10200 = 2"
    using example_unseals by blast
  show ?thesis
    using unseal_only_authentic [OF example_seal_env u l [symmetric] _ refl refl] u by auto
qed

end
