(* ===== verification/Spec2Isabelle.thy ===== *)
theory Spec2Isabelle
  imports Mage_Example Gcm_Correct Metadata_Accepted Thread_Runs Spin_Lock Tseal_Correct
begin

text \<open>
  This library verifies parts of SRAS-MAGE-standalone: the Intel SGX SDK with the extension MAGE,
  by which enclaves derive each other's measurements (\<^verbatim>\<open>MRENCLAVE\<close>) without a trusted third party.
  It follows the C and C++ sources under \<^verbatim>\<open>src\<close>; every definition keeps the name of the function,
  structure or macro that it translates. Machine integers are words of their width, buffers and
  files are lists of bytes, memory is a function from addresses to bytes, status codes and
  \<^verbatim>\<open>false\<close> results are values. Code that cannot be read in the repository (OpenSSL, IPP, the processor's
  instructions) is an argument with its contract as a locale or a predicate. Two parts that are in the
  repository are arguments as well: the assembly of the protected code loader (\<^verbatim>\<open>pcl_ghash\<close>, \<^verbatim>\<open>pcl_vpaes\<close>),
  with the contract \<^verbatim>\<open>pcl_asm_spec\<close> that nothing here proves of the assembly, and \<^verbatim>\<open>external/tinyxml2\<close>, whose
  result is the parsed configuration that \<^verbatim>\<open>Metadata_Build\<close> starts from.

  \<^bold>\<open>How an enclave comes to be.\<close> The signing tool reads a configuration and an ELF file, computes the
  metadata (\<^verbatim>\<open>CMetadata\<close>), loads the file with an enclave creator that measures instead of creating
  (\<^verbatim>\<open>EnclaveCreatorST\<close>), and for MAGE runs twice: \<^verbatim>\<open>genmage\<close> measures everything but the section
  \<^verbatim>\<open>.sgx_mage\<close> and saves the state of the hash as an entry, \<^verbatim>\<open>signmage\<close> fills the section with the
  entries of all members and measures the result. The same loader (\<^verbatim>\<open>CLoader\<close>) later validates the
  metadata and builds the enclave. Inside, the MAGE library continues the saved hash over the
  section and so derives the measurement of every member. The trusted runtime checks buffers,
  allocates outside memory and provides locks.

  \<^bold>\<open>Shared.\<close> \<^verbatim>\<open>Sgx_Prelude\<close>: words, byte order, pages, the sequencing of routines that return a status.
  \<^verbatim>\<open>Sgx_Metadata\<close>: the structures of \<^verbatim>\<open>metadata.h\<close>, \<^verbatim>\<open>arch.h\<close> and \<^verbatim>\<open>sgx_attributes.h\<close> with their
  byte layout and its round trips. \<^verbatim>\<open>Global_Data\<close>: the global data template
  (\<^verbatim>\<open>update_global_data.hxx\<close>) and what \<^verbatim>\<open>trts_util.cpp\<close> reads off it, the feature set on every input included.

  \<^bold>\<open>Loader\<close> (\<^verbatim>\<open>psw/urts/loader.cpp\<close>). \<^verbatim>\<open>Loader_Validate\<close>: \<^verbatim>\<open>validate_metadata\<close>; what it accepts describes
  disjoint, aligned ranges inside the enclave, groups of threads included. \<^verbatim>\<open>Enclave_Creator\<close>: the interface \<^verbatim>\<open>EnclaveCreator\<close>
  and the requests that an image consists of. \<^verbatim>\<open>Enclave_Loader\<close>: \<^verbatim>\<open>build_image\<close> and
  \<^verbatim>\<open>load_enclave_ex\<close>, shown to issue exactly those requests (locale \<^verbatim>\<open>software_creator\<close>).

  \<^bold>\<open>Hashing.\<close> \<^verbatim>\<open>Pcl_Sha256\<close>: the SHA-256 of the protected code loader equals FIPS 180-4; it also shows
  that the contracts \<^verbatim>\<open>evp_sha256\<close> and \<^verbatim>\<open>ipp_sha256\<close> can be met. \<^verbatim>\<open>Pcl_Gcm\<close>, \<^verbatim>\<open>Gcm_Correct\<close>: the AES-GCM of
  the protected code loader equals NIST SP 800-38D over the contract \<^verbatim>\<open>pcl_asm_spec\<close>.

  \<^bold>\<open>Signing tool\<close> (\<^verbatim>\<open>sdk/sign_tool/SignTool\<close>). \<^verbatim>\<open>Creator_Sign\<close>: the measuring creator; the measurement is
  the SHA-256 of the message of all requests. \<^verbatim>\<open>Sign_Tool\<close>: \<^verbatim>\<open>measure_enclave\<close>, \<^verbatim>\<open>genmage\<close>, \<^verbatim>\<open>signmage\<close> and
  the file helpers. \<^verbatim>\<open>Metadata_Build\<close>: \<^verbatim>\<open>manage_metadata.cpp\<close> from the parsed XML document to
  \<^verbatim>\<open>build_metadata\<close>. \<^verbatim>\<open>Layout_Assign\<close>, \<^verbatim>\<open>Metadata_Accepted\<close>: the addresses it assigns are contiguous, and
  the loader accepts what it builds.

  \<^bold>\<open>MAGE\<close> (\<^verbatim>\<open>sdk/mage\<close>). \<^verbatim>\<open>Sgx_Mage\<close>: the library inside the enclave. \<^verbatim>\<open>Mage_Image\<close>: what the two measurements
  of a member have in common. \<^verbatim>\<open>Mage_Example\<close>: a concrete enclave on which both commands succeed. This
  theory: the derived measurement is the signed one, the entry does not depend on the section, and
  the section is read back entry by entry.

  \<^bold>\<open>Trusted runtime.\<close> \<^verbatim>\<open>Trts_Range\<close> (\<^verbatim>\<open>trts.cpp\<close>): the boundary checks are exact, the outside stack stays
  outside, random bytes fill the buffer. \<^verbatim>\<open>Spin_Lock\<close>, \<^verbatim>\<open>Thread_Queue\<close>, \<^verbatim>\<open>Thread_Sync\<close>, \<^verbatim>\<open>Thread_Runs\<close>
  (\<^verbatim>\<open>sdk/tlibthread\<close>): mutual exclusion, queues, hand-over and signals under every interleaving.
  \<^verbatim>\<open>run\<close> counts the steps of all threads, \<^verbatim>\<open>thread_steps\<close> those of one thread from a given state.

  \<^bold>\<open>Keys and sealing.\<close> \<^verbatim>\<open>Tcrypto_Gcm\<close>, \<^verbatim>\<open>Tcrypto_Cmac\<close> (\<^verbatim>\<open>sdk/tlibcrypto/ipp\<close>): the wrappers around IPP,
  with lengths that are converted to \<^verbatim>\<open>int\<close> as in the calls. \<^verbatim>\<open>Sgx_Key\<close>
  (\<^verbatim>\<open>sdk/selib\<close>): keys and reports; a report is accepted exactly when its code is right. \<^verbatim>\<open>Tseal\<close>
  (\<^verbatim>\<open>sdk/tseal\<close>): sealing on an explicit memory. \<^verbatim>\<open>Tseal_Correct\<close>: the round trip, only authentic text is released, and the
  key policy that can never be used.

  \<^bold>\<open>Loops and bounds.\<close> Loops whose end needs an argument are either \<^verbatim>\<open>function\<close> with a termination proof
  (\<^verbatim>\<open>double_to\<close>) or partial functions whose result is shown to exist (\<^verbatim>\<open>load_enclave_ex\<close>,
  \<^verbatim>\<open>probe_pages\<close>, \<^verbatim>\<open>feature_supported\<close>, the queue loops). No fuel is used. Runs of threads are counted, and the
  claims hold below \<open>2 ^ 64\<close> steps, where the lock counter cannot wrap. Lengths of AES-GCM are good below
  \<open>2 ^ 31\<close>; from there on the wrappers return an error. The offset in \<^verbatim>\<open>build_mem_region\<close> is a natural number.

  \<^bold>\<open>Not modelled.\<close> Output (\<^verbatim>\<open>print_metadata\<close>, logging), the command line and key handling of the signing
  tool, the parser of ELF files (an argument, \<^verbatim>\<open>bin_parser\<close>), creators that drive hardware or the
  simulation, the assembly of the protected code loader and the code that patches a protected enclave, attestation between
  enclaves (\<^verbatim>\<open>sdk/ec_dh_lib\<close>, \<^verbatim>\<open>sdk/tkey_exchange\<close>), protected files, switchless calls, the entry and exception code of the
  runtimes, dynamic memory, the debugger plugin, the samples, the generated bridges, Architectural Enclaves and services (\<^verbatim>\<open>psw/ae\<close>, \<^verbatim>\<open>psw/uae_service\<close>),
  and the third-party libraries in the tree (\<^verbatim>\<open>external\<close>, \<^verbatim>\<open>tlibc\<close>, \<^verbatim>\<open>tlibcxx\<close>, \<^verbatim>\<open>cpprt\<close>,
  \<^verbatim>\<open>gperftools\<close>, \<^verbatim>\<open>compiler-rt\<close>).
\<close>

section \<open>Mutual attestation\<close>

text \<open>The section that \<^verbatim>\<open>signmage\<close> leaves in the output file.\<close>

definition signed_section :: "files \<Rightarrow> string \<Rightarrow> section_t \<Rightarrow> bytes" where
  "signed_section fs output ms = rd (mem_of 0 (the (fs output))) (unat (sec_offset ms)) 4096"

lemma signed_section_content:
  assumes "mage_ready T bs pr ms" and "length entries + 8 \<le> 4096"
    and "fs output = Some (write_at bs (unat (sec_offset ms)) (magein_header entries))"
  shows "signed_section fs output ms
    = magein_header entries @ rd (mem_of 0 bs) (unat (sec_offset ms) + (length entries + 8)) (4088 - length entries)"
proof -
  have "length (magein_header entries) = length entries + 8" by (simp add: magein_header_def)
  then show ?thesis
    using assms by (simp add: signed_section_def rd_write_at mage_ready_def)
qed

lemma mage_hdr_entry_header:
  assumes "48 * unat idx + 48 \<le> length entries"
  shows "mage_hdr_entry (magein_header entries @ r) idx
    = decode_mage_entry (take 48 (drop (48 * unat idx) entries) @ drop (48 * unat idx + 48) entries @ r)"
proof -
  have "drop (8 + 48 * unat idx) (magein_header entries @ r) = drop (48 * unat idx) entries @ r"
    using assms by (simp add: magein_header_def)
  moreover have "drop (48 * unat idx) entries
      = take 48 (drop (48 * unat idx) entries) @ drop (48 * unat idx + 48) entries"
    using append_take_drop_id [of 48 "drop (48 * unat idx) entries"] by (simp add: add.commute)
  ultimately show ?thesis unfolding mage_hdr_entry_def by (metis append_assoc)
qed

lemma mage_hdr_size_header:
  assumes "length entries + 8 \<le> 4096"
  shows "unat (mage_hdr_size (magein_header entries @ r)) = length entries div 48"
proof -
  have "unat (of_nat (length entries) :: u64) = length entries" using assms by (simp add: unat_of_nat)
  then show ?thesis
    by (simp add: mage_hdr_size_def magein_header_def of_le_le_bytes unat_div sizeof_mage_entry_def)
qed

text \<open>One run of both tools: the example enclave generates its entry and is signed with it.\<close>

lemma example_signed:
  obtains e fs1 fs3 out
  where "genmage pcl_evp example_env example_files ''enclave.so'' ''mage.bin'' = Some (True, fs1)"
    and "fs1 = example_files(''mage.bin'' \<mapsto> e)" and "length e = 48"
    and "signmage pcl_evp example_env fs1 ''enclave.so'' ''signed.so'' ''mage.bin'' = Some (True, fs3, out)"
proof -
  have evp: "evp_sha256 pcl_evp sha_rep" by (rule pcl.evp_sha256_axioms)
  have f: "example_files ''enclave.so'' = Some example_file" by (simp add: example_files_def)
  have m: "measurable example_env example_file (example_parsed :: SHA256_CTX creator_st parsed) example_metadata []"
    by (rule example_measurable) (simp_all add: example_file_def mem_of_def)
  obtain fs1 where g: "genmage pcl_evp example_env example_files ''enclave.so'' ''mage.bin'' = Some (True, fs1)"
    using genmage_succeeds [where fs = example_files and dll = "''enclave.so''", OF evp pcl_evp_total f m] by blast
  obtain e where fs1: "fs1 = example_files(''mage.bin'' \<mapsto> e)" and e: "length e = 48"
    by (rule genmage_entry [OF evp f example_ready g])
      (use that in \<open>simp add: example_files_def length_mage_entry_bytes length_chain_bytes\<close>)
  have f1: "fs1 ''enclave.so'' = Some example_file" "fs1 ''mage.bin'' = Some e"
    using f by (simp_all add: fs1)
  have m1: "measurable example_env (write_at example_file (unat (sec_offset example_mage)) (magein_header e))
      (example_parsed :: SHA256_CTX creator_st parsed) example_metadata []"
  proof (rule example_measurable)
    have h: "length (magein_header e) = 56" by (simp add: magein_header_def e)
    then have "length (write_at example_file 4096 (magein_header e)) = 0x2000"
      by (subst length_write_at) (simp_all add: example_file_def)
    moreover have "write_at example_file 4096 (magein_header e) ! 0 = 0"
      using h by (subst nth_write_at) (simp_all add: example_file_def)
    ultimately show "mem_of 0 (write_at example_file (unat (sec_offset example_mage)) (magein_header e)) 0 = 0"
        "length (write_at example_file (unat (sec_offset example_mage)) (magein_header e)) = 0x2000"
      by (simp_all add: mem_of_def example_mage_def)
  qed
  have ne: "e \<noteq> []" using e by auto
  obtain fs3 out where sgn: "signmage pcl_evp example_env fs1 ''enclave.so'' ''signed.so'' ''mage.bin'' = Some (True, fs3, out)"
    using signmage_succeeds [where fs = fs1 and dll = "''enclave.so''" and magein = "''mage.bin''" and outp = "''signed.so''",
        OF evp pcl_evp_total f1(1) m example_ready f1(2) _ ne _ _ m1] e by auto
  show thesis by (rule that [OF g fs1 e sgn])
qed

text \<open>
  C1: mutual attestation is sound and complete for a member of a MAGE group. Let \<open>bs\<close> be the
  unsigned enclave file of the member, \<open>e\<close> the entry that \<^verbatim>\<open>genmage\<close> appended for it, and let
  \<^verbatim>\<open>signmage\<close> have signed the same file with a list of entries that has \<open>e\<close> at position \<open>idx\<close>. Then
  \<^verbatim>\<open>sgx_mage_derive_measurement(idx)\<close>, run by any enclave whose MAGE section has the content
  that \<^verbatim>\<open>signmage\<close> wrote, returns exactly the measurement that the signing tool computed for the
  signed member, although that measurement covers the section and hence the entry itself.
\<close>
theorem mage_derivation_agrees:
  assumes evp: "evp_sha256 E rep" and ipp: "ipp_sha256 I rep'"
    and bs: "fs dll = Some bs" and ready: "mage_ready T bs pr ms"
    and gen: "genmage E T fs dll mageout = Some (True, fs1)" "fs1 mageout = Some (before @ e)" "length e = 48"
    and sign: "fs2 dll = Some bs" "fs2 magein = Some entries" "magein \<noteq> output" "length entries < 2 ^ 64 - 8"
      "signmage E T fs2 dll output magein = Some (True, fs3, out)"
    and idx: "take 48 (drop (48 * unat idx) entries) = e"
    and derive: "sgx_mage_derive_measurement I (signed_section fs3 output ms) idx True = (SGX_SUCCESS, r)"
  shows "r = Some (mo_hash out)"
proof -
  let ?P = "pr_parser pr"
  let ?bs1 = "write_at bs (unat (sec_offset ms)) (magein_header entries)"
  obtain m bm where m: "te_build_metadata T pr = Some m" and bm: "bp_get_reloc_bitmap ?P (mem_of 0 bs) = Some bm"
    and g: "fs1 = fs(mageout \<mapsto> (case fs mageout of None \<Rightarrow> [] | Some b \<Rightarrow> b) @ mage_entry_bytes
          \<lparr>me_size = of_nat (length (enclave_message (set_for_sign True ?P) m bm (patch_file m (mem_of 0 bs)))),
           me_offset = sec_rva ms,
           me_digest = chain_bytes (enclave_message (set_for_sign True ?P) m bm (patch_file m (mem_of 0 bs)))\<rparr>)"
    by (rule genmage_entry [OF evp bs ready gen(1)])
  obtain m' bm' where m': "te_build_metadata T pr = Some m'" and bm': "bp_get_reloc_bitmap ?P (mem_of 0 bs) = Some bm'"
    and fs3: "fs3 output = Some ?bs1" and len: "length entries + 8 \<le> 4096" and "48 dvd length entries"
    and hash: "mo_hash out = fips_SHA256 (enclave_message (set_for_sign False ?P) m' bm' (patch_file m' (mem_of 0 ?bs1)))"
    by (rule signmage_final [OF evp sign(1) ready sign(2-5)])
  have same: "m' = m" "bm' = bm" using m m' bm bm' by simp_all
  define msg where "msg = enclave_message (set_for_sign True ?P) m bm (patch_file m (mem_of 0 bs))"
  let ?e = "\<lparr>me_size = of_nat (length msg), me_offset = sec_rva ms, me_digest = chain_bytes msg\<rparr>"
  have e: "e = mage_entry_bytes ?e"
    using g gen(2, 3) length_mage_entry_bytes [of ?e]
    by (simp add: msg_def [symmetric] length_chain_bytes append_eq_append_conv)
  let ?buf = "signed_section fs3 output ms"
  have buf: "?buf = magein_header entries @ rd (mem_of 0 bs) (unat (sec_offset ms) + (length entries + 8)) (4088 - length entries)"
    using signed_section_content [where fs = fs3, OF ready len] fs3 by blast
  have "length (take 48 (drop (48 * unat idx) entries)) = 48" using idx gen(3) by simp
  then have "48 * unat idx + 48 \<le> length entries" by simp
  then have entry: "mage_hdr_entry ?buf idx = ?e"
    unfolding buf mage_hdr_entry_header [OF \<open>48 * unat idx + 48 \<le> length entries\<close>] idx e
    by (simp add: decode_mage_entry_bytes length_chain_bytes)
  have b1: "length ?bs1 = length bs" "same_outside ms (mem_of 0 bs) (mem_of 0 ?bs1)"
    using ready len by (auto simp: mage_ready_def magein_header_def length_write_at intro!: same_outside_write_at)
  have "r = Some (fips_SHA256 (msg @ concat (page_blocks (mage_page (sec_rva ms) ?buf))))"
    by (rule ipp_sha256.derive_measurement_resumes [OF ipp _ _ entry derive])
      (simp_all add: signed_section_def msg_def dvd_length_enclave_message)
  also have "msg @ concat (page_blocks (mage_page (sec_rva ms) ?buf))
      = enclave_message (set_for_sign False ?P) m bm (patch_file m (mem_of 0 ?bs1))"
    using enclave_message_split [OF ready m b1] fs3 by (simp add: msg_def signed_section_def)
  finally show ?thesis using hash same by simp
qed

theorem mage_derivation_agrees_witness:
  "\<exists>fs1 fs3 out.
     genmage pcl_evp example_env example_files ''enclave.so'' ''mage.bin'' = Some (True, fs1)
     \<and> signmage pcl_evp example_env fs1 ''enclave.so'' ''signed.so'' ''mage.bin'' = Some (True, fs3, out)
     \<and> sgx_mage_derive_measurement pcl_ipp (signed_section fs3 ''signed.so'' example_mage) 0 True
         = (SGX_SUCCESS, Some (mo_hash out))"
proof -
  have evp: "evp_sha256 pcl_evp sha_rep" by (rule pcl.evp_sha256_axioms)
  have ipp: "ipp_sha256 pcl_ipp sha_rep" by (rule pcl_ipp.ipp_sha256_axioms)
  have f: "example_files ''enclave.so'' = Some example_file" by (simp add: example_files_def)
  obtain e fs1 fs3 out
    where g: "genmage pcl_evp example_env example_files ''enclave.so'' ''mage.bin'' = Some (True, fs1)"
      and fs1: "fs1 = example_files(''mage.bin'' \<mapsto> e)" and e: "length e = 48"
      and sgn: "signmage pcl_evp example_env fs1 ''enclave.so'' ''signed.so'' ''mage.bin'' = Some (True, fs3, out)"
    by (rule example_signed)
  have f1: "fs1 ''enclave.so'' = Some example_file" "fs1 ''mage.bin'' = Some e"
    using f by (simp_all add: fs1)
  have len: "length e + 8 \<le> 4096" using e by simp
  obtain fin where fin: "fs3 ''signed.so'' = Some (write_at example_file (unat (sec_offset example_mage)) (magein_header e))"
    by (rule signmage_final [OF evp f1(1) example_ready f1(2) _ _ sgn]) (use e that in simp_all)
  have buf: "signed_section fs3 ''signed.so'' example_mage = magein_header e @ rd (mem_of 0 example_file)
      (unat (sec_offset example_mage) + (length e + 8)) (4088 - length e)"
    using signed_section_content [where fs = fs3, OF example_ready len] fin by blast
  have "unat (mage_hdr_size (signed_section fs3 ''signed.so'' example_mage)) = 1"
    unfolding buf mage_hdr_size_header [OF len] by (simp add: e)
  then have sz: "mage_hdr_size (signed_section fs3 ''signed.so'' example_mage) = 1" by (simp add: word_unat_eq_iff)
  obtain d where d: "sgx_mage_derive_measurement pcl_ipp (signed_section fs3 ''signed.so'' example_mage) 0 True = (SGX_SUCCESS, Some d)"
    using derive_measurement_total [OF pcl_ipp_total, of "signed_section fs3 ''signed.so'' example_mage" 0]
    by (auto simp: sz sizeof_mage_entry_def sizeof_mage_hdr_def SGX_MAGE_SEC_SIZE_def)
  have "Some d = Some (mo_hash out)"
    by (rule mage_derivation_agrees [OF evp ipp f example_ready g _ e f1 _ _ sgn _ d, of "[]"])
      (simp_all add: fs1 e)
  then show ?thesis using g sgn d by auto
qed

text \<open>
  C2: there is no circularity in \<^verbatim>\<open>genmage\<close>. The entry that it writes does not depend on the
  content of the MAGE section: for two files that differ only inside the section, it appends
  the same 48 bytes.
\<close>
theorem genmage_ignores_section:
  assumes "evp_sha256 E rep" and "fs dll = Some bs" and ready: "mage_ready T bs pr ms"
    and "length bs' = length bs" and "same_outside ms (mem_of 0 bs) (mem_of 0 bs')"
    and "dll \<noteq> mageout"
    and "genmage E T fs dll mageout = Some (True, fs1)"
    and "genmage E T (fs(dll \<mapsto> bs')) dll mageout = Some (True, fs2)"
  shows "fs1 mageout = fs2 mageout"
proof -
  let ?P = "pr_parser pr"
  have wf: "mage_section_wf ?P ms" using ready by (simp add: mage_ready_def)
  have ready': "mage_ready T bs' pr ms"
    using ready assms(4, 5) unfolding mage_ready_def same_outside_def by metis
  have same: "enclave_message (set_for_sign True ?P) m bm (patch_file m (mem_of 0 bs'))
      = enclave_message (set_for_sign True ?P) m bm (patch_file m (mem_of 0 bs))" for m bm
    unfolding enclave_message_def image_pages_signing
    using common_pages_same [OF wf same_outside_patch [OF assms(5)]] by simp
  show ?thesis
  proof (rule genmage_entry [OF assms(1, 2) ready assms(7)], goal_cases)
    case (1 m bm)
    have "(fs(dll \<mapsto> bs')) dll = Some bs'" by simp
    then show ?case
      by (rule genmage_entry [OF assms(1) _ ready' assms(8)])
        (use 1 same assms(6) mage_ready_stable(2) [OF ready assms(4, 5)] in simp)
  qed
qed

theorem genmage_ignores_section_witness:
  "\<exists>fs1 fs2. genmage pcl_evp example_env example_files ''enclave.so'' ''mage.bin'' = Some (True, fs1)
     \<and> genmage pcl_evp example_env (example_files(''enclave.so'' \<mapsto> write_at example_file 0x1000 [1, 2, 3])) ''enclave.so'' ''mage.bin''
       = Some (True, fs2) \<and> fs1 ''mage.bin'' = fs2 ''mage.bin''"
proof -
  let ?bs = "write_at example_file 0x1000 [1, 2, 3]"
  let ?fs = "example_files(''enclave.so'' \<mapsto> ?bs)"
  have evp: "evp_sha256 pcl_evp sha_rep" by (rule pcl.evp_sha256_axioms)
  have f: "example_files ''enclave.so'' = Some example_file" "?fs ''enclave.so'' = Some ?bs"
    by (simp_all add: example_files_def)
  have len: "length ?bs = length example_file" by (rule length_write_at) (simp add: example_file_def)
  have "?bs ! 0 = 0" by (subst nth_write_at) (simp_all add: example_file_def)
  then have m: "measurable example_env ?bs (example_parsed :: SHA256_CTX creator_st parsed) example_metadata []"
    by (intro example_measurable) (simp_all add: mem_of_def len, simp_all add: example_file_def)
  have m0: "measurable example_env example_file (example_parsed :: SHA256_CTX creator_st parsed) example_metadata []"
    by (rule example_measurable) (simp_all add: example_file_def mem_of_def)
  obtain fs1 where g1: "genmage pcl_evp example_env example_files ''enclave.so'' ''mage.bin'' = Some (True, fs1)"
    using genmage_succeeds [where fs = example_files and dll = "''enclave.so''", OF evp pcl_evp_total f(1) m0] by blast
  obtain fs2 where g2: "genmage pcl_evp example_env ?fs ''enclave.so'' ''mage.bin'' = Some (True, fs2)"
    using genmage_succeeds [where fs = ?fs and dll = "''enclave.so''", OF evp pcl_evp_total f(2) m] by blast
  have same: "same_outside example_mage (mem_of 0 example_file) (mem_of 0 ?bs)"
    using same_outside_write_at [of example_mage example_file "[1, 2, 3]"]
    by (simp add: example_mage_def example_file_def)
  have "fs1 ''mage.bin'' = fs2 ''mage.bin''"
    by (rule genmage_ignores_section [where fs = example_files, OF evp f(1) example_ready len same _ g1 g2]) simp
  then show ?thesis using g1 g2 by blast
qed

text \<open>
  C3: the section that \<^verbatim>\<open>signmage\<close> writes is well formed for the library that reads it: the enclave
  sees as many entries as the input file has, at most 85, and entry \<open>i\<close> is the \<open>i\<close>-th 48 bytes
  of the file.
\<close>
theorem signmage_section_readable:
  assumes "evp_sha256 E rep" and "fs dll = Some bs" and ready: "mage_ready T bs pr ms"
    and "fs magein = Some entries" "magein \<noteq> output" "length entries < 2 ^ 64 - 8"
    and "signmage E T fs dll output magein = Some (True, fs3, out)"
  shows "unat (sgx_mage_get_size (signed_section fs3 output ms)) = length entries div 48
    \<and> length entries div 48 \<le> 85 \<and> 48 * (length entries div 48) = length entries
    \<and> (\<forall>i < length entries div 48.
         mage_hdr_entry (signed_section fs3 output ms) (of_nat i) = decode_mage_entry (take 48 (drop (48 * i) entries)))"
proof -
  obtain fin: "fs3 output = Some (write_at bs (unat (sec_offset ms)) (magein_header entries))"
      and len: "length entries + 8 \<le> 4096" and dvd: "48 dvd length entries"
    by (rule signmage_final [OF assms]) (use that in simp)
  let ?buf = "signed_section fs3 output ms"
  obtain r where buf: "?buf = magein_header entries @ r"
    using signed_section_content [where fs = fs3, OF ready len] fin by blast
  define n where "n = length entries div 48"
  have n: "48 * n = length entries" using dvd by (simp add: n_def)
  then have small: "n \<le> 85" using len by simp
  have sz: "unat (mage_hdr_size ?buf) = n" unfolding buf mage_hdr_size_header [OF len] n_def ..
  have "unat (mage_hdr_size ?buf * sizeof_mage_entry + sizeof_mage_hdr) = n * 48 + 8"
    using small sz by (simp add: unat_word_ariths sizeof_mage_entry_def sizeof_mage_hdr_def)
  then have get: "sgx_mage_get_size ?buf = mage_hdr_size ?buf"
    using small by (simp add: sgx_mage_get_size_def Let_def word_less_nat_alt SGX_MAGE_SEC_SIZE_def)
  have "mage_hdr_entry ?buf (of_nat i) = decode_mage_entry (take 48 (drop (48 * i) entries))" if "i < n" for i
  proof -
    have u: "unat (of_nat i :: u64) = i" using that small by (simp add: unat_of_nat)
    have le: "48 * i + 48 \<le> length entries" using that n by simp
    have dec: "decode_mage_entry (xs @ ys) = decode_mage_entry xs" if "length xs = 48" for xs ys
      using that by (simp add: decode_mage_entry_def)
    show ?thesis
      unfolding buf by (subst mage_hdr_entry_header) (use le u dec in simp_all)
  qed
  then show ?thesis using get sz small n by (simp add: n_def [symmetric])
qed

theorem signmage_section_readable_witness:
  "\<exists>e fs1 fs3 out. length e = 48
     \<and> signmage pcl_evp example_env fs1 ''enclave.so'' ''signed.so'' ''mage.bin'' = Some (True, fs3, out)
     \<and> sgx_mage_get_size (signed_section fs3 ''signed.so'' example_mage) = 1
     \<and> mage_hdr_entry (signed_section fs3 ''signed.so'' example_mage) 0 = decode_mage_entry e"
proof -
  obtain e fs1 fs3 out
    where fs1: "fs1 = example_files(''mage.bin'' \<mapsto> e)" and e: "length e = 48"
      and sgn: "signmage pcl_evp example_env fs1 ''enclave.so'' ''signed.so'' ''mage.bin'' = Some (True, fs3, out)"
    by (rule example_signed)
  have f1: "fs1 ''enclave.so'' = Some example_file" "fs1 ''mage.bin'' = Some e"
    by (simp_all add: fs1 example_files_def)
  have "unat (sgx_mage_get_size (signed_section fs3 ''signed.so'' example_mage)) = 1
      \<and> mage_hdr_entry (signed_section fs3 ''signed.so'' example_mage) 0 = decode_mage_entry e"
    using signmage_section_readable [OF pcl.evp_sha256_axioms f1(1) example_ready f1(2) _ _ sgn] e by simp
  then show ?thesis using e sgn by (auto simp: word_unat_eq_iff)
qed

end
